(* ===== verification/Prelude.thy ===== *)
theory Prelude
  imports Main "HOL-Library.Word" "HOL-Library.List_Lexorder" "HOL-Library.Char_ord"
    "HOL-Library.Multiset"
begin

text \<open>
  Shared vocabulary of the development: the types the components exchange, the part of
  Go's \<^verbatim>\<open>strings\<close> package the program calls, \<^verbatim>\<open>int64\<close> arithmetic, and sorting by
  a \<^verbatim>\<open>less\<close> function (\<^verbatim>\<open>sort.Slice\<close>, \<^verbatim>\<open>ORDER BY\<close>). Go strings are byte strings, so they
  are Isabelle \<^typ>\<open>string\<close>s whose characters are bytes; \<^verbatim>\<open><\<close> on them is the bytewise
  lexicographic order, as in Go and in SQLite's default collation.
\<close>

type_synonym byte = "8 word"
type_synonym bytes = "8 word list"

text \<open>Outcome of a failing call: the error text the Go code returns.\<close>

type_synonym 'a result = "string + 'a"

text \<open>
  A Go \<^verbatim>\<open>io.Reader\<close>: the bytes it will still deliver and the way it ends, \<^verbatim>\<open>io.EOF\<close> or
  another error.
\<close>

datatype stream_end = EOF | ReadError string

record reader =
  rd_bytes :: bytes
  rd_end :: stream_end

text \<open>Facts about the individual components are collected under these names.\<close>

named_theorems str_simps \<open>rewriting the string operations of the standard library\<close>
named_theorems sql_simps \<open>what a statement leaves in the tables\<close>
named_theorems wf_intros \<open>operations that keep the tables well formed\<close>
named_theorems store_simps \<open>what a file-system step leaves in a chunk store\<close>

subsection \<open>\<^verbatim>\<open>int64\<close>\<close>

text \<open>
  A 64-bit two's complement value is kept as an \<^typ>\<open>int\<close>; \<open>wrap64\<close> is what an addition,
  subtraction or multiplication leaves in the register.
\<close>

definition wrap64 :: "int \<Rightarrow> int" where
  "wrap64 x = (x + 2 ^ 63) mod 2 ^ 64 - 2 ^ 63"

definition int64 :: "int \<Rightarrow> bool" where
  "int64 x \<longleftrightarrow> - (2 ^ 63) \<le> x \<and> x < 2 ^ 63"

lemma wrap64_id [simp]: "int64 x \<Longrightarrow> wrap64 x = x"
  by (simp add: wrap64_def int64_def)

lemma int64_wrap64 [simp, intro]: "int64 (wrap64 x)"
  unfolding int64_def wrap64_def
  using pos_mod_bound [of "2 ^ 64" "x + 2 ^ 63"] pos_mod_sign [of "2 ^ 64" "x + 2 ^ 63"]
  by simp

subsection \<open>Strings\<close>

definition HasPrefix :: "'a list \<Rightarrow> 'a list \<Rightarrow> bool" where
  "HasPrefix s p \<longleftrightarrow> take (length p) s = p"

definition HasSuffix :: "'a list \<Rightarrow> 'a list \<Rightarrow> bool" where
  "HasSuffix s p \<longleftrightarrow> HasPrefix (rev s) (rev p)"

definition TrimPrefix :: "'a list \<Rightarrow> 'a list \<Rightarrow> 'a list" where
  "TrimPrefix s p = (if HasPrefix s p then drop (length p) s else s)"

definition TrimSuffix :: "'a list \<Rightarrow> 'a list \<Rightarrow> 'a list" where
  "TrimSuffix s p = (if HasSuffix s p then take (length s - length p) s else s)"

lemma HasPrefix_iff: "HasPrefix s p \<longleftrightarrow> (\<exists>r. s = p @ r)"
  unfolding HasPrefix_def by (metis append_eq_conv_conj append_take_drop_id)

lemma HasPrefix_append [simp]: "HasPrefix (p @ r) p"
  by (simp add: HasPrefix_def)

lemma HasPrefix_Nil [simp]: "HasPrefix s []"
  by (simp add: HasPrefix_def)

lemma HasPrefix_Cons [simp]: "HasPrefix (c # s) (d # p) \<longleftrightarrow> c = d \<and> HasPrefix s p"
  by (auto simp: HasPrefix_def)

lemma HasSuffix_iff: "HasSuffix s p \<longleftrightarrow> (\<exists>r. s = r @ p)"
  unfolding HasSuffix_def HasPrefix_iff by (metis rev_append rev_rev_ident)

lemma HasSuffix_append [simp]: "HasSuffix (r @ p) p"
  by (auto simp: HasSuffix_iff)

lemma HasSuffix_Nil [simp]: "HasSuffix s []"
  by (simp add: HasSuffix_def)

lemma TrimPrefix_append [str_simps]: "TrimPrefix (p @ r) p = r"
  by (simp add: TrimPrefix_def)

lemma TrimSuffix_append [str_simps]: "TrimSuffix (r @ p) p = r"
  by (simp add: TrimSuffix_def)

lemma TrimPrefix_other [str_simps]: "\<not> HasPrefix s p \<Longrightarrow> TrimPrefix s p = s"
  by (simp add: TrimPrefix_def)

lemma TrimSuffix_other [str_simps]: "\<not> HasSuffix s p \<Longrightarrow> TrimSuffix s p = s"
  by (simp add: TrimSuffix_def)

text \<open>
  \<^verbatim>\<open>strings.TrimSpace\<close>: the UTF-8 encodings of the code points for which
  \<^verbatim>\<open>unicode.IsSpace\<close> holds are cut off at both ends.
\<close>

definition space_seqs :: "string list" where
  "space_seqs =
     map (map char_of)
      ([[9], [10], [11], [12], [13], [32], [0xC2, 0x85], [0xC2, 0xA0], [0xE1, 0x9A, 0x80],
        [0xE2, 0x80, 0xA8], [0xE2, 0x80, 0xA9], [0xE2, 0x80, 0xAF], [0xE2, 0x81, 0x9F],
        [0xE3, 0x80, 0x80]]
       @ map (\<lambda>k. [0xE2, 0x80, 0x80 + k]) [0, 1, 2, 3, 4, 5, 6, 7, 8, 9, (10::nat)])"

function dropSeqs :: "'a list list \<Rightarrow> 'a list \<Rightarrow> 'a list" where
  "dropSeqs ps s =
     (case find (\<lambda>p. p \<noteq> [] \<and> HasPrefix s p) ps of
        None \<Rightarrow> s
      | Some p \<Rightarrow> dropSeqs ps (drop (length p) s))"
  by pat_completeness auto
termination
  by (relation "measure (\<lambda>(ps, s). length s)") (auto simp: find_Some_iff HasPrefix_iff)

declare dropSeqs.simps [simp del]

definition TrimSpace :: "string \<Rightarrow> string" where
  "TrimSpace s = rev (dropSeqs (map rev space_seqs) (rev (dropSeqs space_seqs s)))"

lemma dropSeqs_fixed:
  "(\<And>p. p \<in> set ps \<Longrightarrow> p \<noteq> [] \<Longrightarrow> \<not> HasPrefix s p) \<Longrightarrow> dropSeqs ps s = s"
  by (subst dropSeqs.simps) (auto simp: find_None_iff split: option.splits dest!: find_Some_iff [THEN iffD1])

lemma dropSeqs_no_prefix:
  "p \<in> set ps \<Longrightarrow> p \<noteq> [] \<Longrightarrow> \<not> HasPrefix (dropSeqs ps s) p"
proof (induction ps s rule: dropSeqs.induct)
  case (1 ps s)
  show ?case
  proof (cases "find (\<lambda>p. p \<noteq> [] \<and> HasPrefix s p) ps")
    case None
    with "1.prems" show ?thesis
      by (simp add: dropSeqs.simps [of ps s]) (auto simp: find_None_iff)
  next
    case (Some q)
    with "1.IH" [OF Some "1.prems"] show ?thesis by (simp add: dropSeqs.simps [of ps s])
  qed
qed

lemma dropSeqs_suffix: "\<exists>u. s = u @ dropSeqs ps s"
proof (induction ps s rule: dropSeqs.induct)
  case (1 ps s)
  show ?case
  proof (cases "find (\<lambda>p. p \<noteq> [] \<and> HasPrefix s p) ps")
    case None
    then show ?thesis by (subst dropSeqs.simps) simp
  next
    case (Some q)
    then have "s = take (length q) s @ drop (length q) s" by simp
    with "1.IH" [OF Some] Some show ?thesis
      by (subst dropSeqs.simps) (metis append.assoc option.simps(5))
  qed
qed

lemma TrimSpace_prefix: "\<exists>u v. s = u @ TrimSpace s @ v"
  using dropSeqs_suffix [of s space_seqs]
    dropSeqs_suffix [of "rev (dropSeqs space_seqs s)" "map rev space_seqs"]
  unfolding TrimSpace_def by (metis rev_append rev_rev_ident)

text \<open>Trimming twice is trimming once.\<close>

lemma TrimSpace_idem [simp]: "TrimSpace (TrimSpace s) = TrimSpace s"
proof -
  let ?l = "dropSeqs space_seqs s" and ?r = "TrimSpace s"
  obtain v where v: "?l = ?r @ v"
    using dropSeqs_suffix [of "rev ?l" "map rev space_seqs"]
    unfolding TrimSpace_def by (metis rev_append rev_rev_ident)
  have "\<not> HasPrefix ?r p" if "p \<in> set space_seqs" "p \<noteq> []" for p
    using dropSeqs_no_prefix [OF that, of s] v by (auto simp: HasPrefix_iff)
  then have l: "dropSeqs space_seqs ?r = ?r" by (rule dropSeqs_fixed)
  have "dropSeqs (map rev space_seqs) (rev ?r) = rev ?r"
    by (rule dropSeqs_fixed) (simp add: TrimSpace_def dropSeqs_no_prefix)
  with l show ?thesis by (subst (1) TrimSpace_def) simp
qed

lemma TrimSpace_Nil [simp]: "TrimSpace [] = []"
  using TrimSpace_prefix [of "[]"] by auto

text \<open>A string that starts and ends with a visible ASCII character is trimmed already.\<close>

definition visible :: "char \<Rightarrow> bool" where
  "visible c \<longleftrightarrow> 33 \<le> (of_char c :: nat) \<and> (of_char c :: nat) \<le> 126"

lemma space_seqs_invisible:
  "\<forall>p \<in> set space_seqs. p \<noteq> [] \<and> \<not> visible (hd p) \<and> \<not> visible (last p)"
  by (simp add: space_seqs_def visible_def)

lemma TrimSpace_visible [str_simps]:
  assumes "s \<noteq> []" and "visible (hd s)" and "visible (last s)"
  shows "TrimSpace s = s"
proof -
  have "dropSeqs space_seqs s = s"
  proof (rule dropSeqs_fixed)
    fix p assume p: "p \<in> set space_seqs" "p \<noteq> []"
    then have "\<not> visible (hd p)" using space_seqs_invisible by blast
    with assms(2) p(2) show "\<not> HasPrefix s p" by (auto simp: HasPrefix_iff)
  qed
  moreover have "dropSeqs (map rev space_seqs) (rev s) = rev s"
  proof (rule dropSeqs_fixed)
    fix p assume p: "p \<in> set (map rev space_seqs)" "p \<noteq> []"
    then have "\<not> visible (hd p)" using space_seqs_invisible by (auto simp: hd_rev)
    moreover have "visible (hd (rev s))" using assms by (simp add: hd_rev)
    ultimately show "\<not> HasPrefix (rev s) p" using p(2) by (auto simp: HasPrefix_iff)
  qed
  ultimately show ?thesis by (simp add: TrimSpace_def)
qed

subsection \<open>Sorting by a less function\<close>

text \<open>
  \<^verbatim>\<open>sort.Slice\<close> and \<^verbatim>\<open>ORDER BY\<close> take a strict order on the elements. Sorting is
  insertion, stable in the elements the order does not separate; the orders of the
  program separate rows with different keys, so the result does not depend on the
  algorithm (\<open>sort_by_unique\<close> below).
\<close>

fun ins_by :: "('a \<Rightarrow> 'a \<Rightarrow> bool) \<Rightarrow> 'a \<Rightarrow> 'a list \<Rightarrow> 'a list" where
  "ins_by lt x [] = [x]"
| "ins_by lt x (y # ys) = (if lt y x then y # ins_by lt x ys else x # y # ys)"

definition sort_by :: "('a \<Rightarrow> 'a \<Rightarrow> bool) \<Rightarrow> 'a list \<Rightarrow> 'a list" where
  "sort_by lt xs = foldr (ins_by lt) xs []"

lemma sort_by_simps [simp]:
  "sort_by lt [] = []" "sort_by lt (x # xs) = ins_by lt x (sort_by lt xs)"
  by (simp_all add: sort_by_def)

lemma mset_ins_by: "mset (ins_by lt x xs) = add_mset x (mset xs)"
  by (induction xs) auto

lemma mset_sort_by [simp]: "mset (sort_by lt xs) = mset xs"
  by (induction xs) (auto simp: mset_ins_by)

lemma set_sort_by [simp]: "set (sort_by lt xs) = set xs"
  by (metis mset_sort_by set_mset_mset)

lemma length_sort_by [simp]: "length (sort_by lt xs) = length xs"
  by (metis mset_sort_by size_mset)

lemma distinct_map_sort_by [simp]: "distinct (map f (sort_by lt xs)) = distinct (map f xs)"
  by (metis mset_map mset_sort_by mset_eq_imp_distinct_iff)

text \<open>The contract of a less function: a strict weak order.\<close>

locale less_order =
  fixes lt :: "'a \<Rightarrow> 'a \<Rightarrow> bool"
  assumes lt_asym: "lt x y \<Longrightarrow> \<not> lt y x"
    and lt_negtrans: "lt x z \<Longrightarrow> lt x y \<or> lt y z"
begin

lemma sorted_ins_by:
  "sorted_wrt (\<lambda>a b. \<not> lt b a) xs \<Longrightarrow> sorted_wrt (\<lambda>a b. \<not> lt b a) (ins_by lt x xs)"
proof (induction xs)
  case Nil
  then show ?case by simp
next
  case (Cons y ys)
  have set_ins: "set (ins_by lt x ys) = insert x (set ys)"
    using mset_ins_by [of lt x ys] by (metis set_mset_add_mset_insert set_mset_mset)
  show ?case
  proof (cases "lt y x")
    case True
    with Cons show ?thesis by (auto simp: set_ins dest: lt_asym)
  next
    case False
    with Cons.prems show ?thesis using lt_negtrans by auto
  qed
qed

lemma sorted_sort_by: "sorted_wrt (\<lambda>a b. \<not> lt b a) (sort_by lt xs)"
  by (induction xs) (simp_all add: sorted_ins_by)

text \<open>Where the order separates the elements, every sorting of them is the same list.\<close>

lemma sort_by_unique:
  assumes "mset ys = mset xs" and "sorted_wrt (\<lambda>a b. \<not> lt b a) ys"
    and sep: "\<And>a b. a \<in> set xs \<Longrightarrow> b \<in> set xs \<Longrightarrow> a \<noteq> b \<Longrightarrow> lt a b \<or> lt b a"
  shows "sort_by lt xs = ys"
proof -
  have "sorted_wrt (\<lambda>a b. \<not> lt b a) zs \<Longrightarrow> mset ys = mset zs \<Longrightarrow>
      sorted_wrt (\<lambda>a b. \<not> lt b a) ys \<Longrightarrow> set zs \<subseteq> set xs \<Longrightarrow> zs = ys" for zs ys
  proof (induction zs arbitrary: ys)
    case Nil
    then show ?case by simp
  next
    case (Cons z zs)
    then obtain y ys' where ys: "ys = y # ys'" by (cases ys) auto
    have "z = y"
    proof (rule ccontr)
      assume ne: "z \<noteq> y"
      have sets: "set ys = set (z # zs)" using Cons.prems(2) by (metis set_mset_mset)
      then have mem: "y \<in> set xs" "z \<in> set xs" using Cons.prems(4) ys by auto
      from sets ne ys have "y \<in> set zs" "z \<in> set ys'" by auto
      with Cons.prems ys have "\<not> lt y z" "\<not> lt z y" by auto
      with sep [OF mem] ne show False by auto
    qed
    with Cons ys show ?case by auto
  qed
  from this [of "sort_by lt xs" ys] assms(1,2) show ?thesis by (simp add: sorted_sort_by)
qed

text \<open>The first \<open>n\<close> of a sorted list rank no worse than what is cut off.\<close>

lemma take_sorted_best:
  assumes "sorted_wrt (\<lambda>a b. \<not> lt b a) xs" and "x \<in> set (take n xs)" and "y \<in> set (drop n xs)"
  shows "\<not> lt y x"
proof -
  have "sorted_wrt (\<lambda>a b. \<not> lt b a) (take n xs @ drop n xs)"
    using assms(1) by simp
  then show ?thesis
    using assms(2,3) unfolding sorted_wrt_append by blast
qed

lemma take_sort_by_best:
  "x \<in> set (take n (sort_by lt xs)) \<Longrightarrow> y \<in> set xs \<Longrightarrow> y \<notin> set (take n (sort_by lt xs)) \<Longrightarrow> \<not> lt y x"
  by (rule take_sorted_best [OF sorted_sort_by [of xs]])
    (auto, metis Un_iff append_take_drop_id set_append set_sort_by)

end

text \<open>Ranking by a key into a linear order is such an order; so is its reverse.\<close>

lemma less_order_key: "less_order (\<lambda>x y. key x < (key y :: 'k::linorder))"
  by unfold_locales auto

interpretation str_less: less_order "(<) :: string \<Rightarrow> string \<Rightarrow> bool"
  by unfold_locales auto

subsection \<open>Lists\<close>

lemma find_SomeD: "find P xs = Some x \<Longrightarrow> x \<in> set xs \<and> P x"
  by (auto simp: find_Some_iff)

lemma notin_image: "x \<notin> f ` A \<longleftrightarrow> (\<forall>y \<in> A. f y \<noteq> x)"
  by auto

lemma find_key_distinct:
  "distinct (map k xs) \<Longrightarrow> x \<in> set xs \<Longrightarrow> find (\<lambda>y. k y = k x) xs = Some x"
  by (induction xs) (auto simp: rev_image_eqI)

lemma sum_list_filter_partition:
  "(\<Sum>x\<leftarrow>xs. f x) = (\<Sum>x\<leftarrow>filter P xs. f x) + (\<Sum>x\<leftarrow>filter (\<lambda>x. \<not> P x) xs. (f x :: int))"
  by (induction xs) auto

end
