(* ===== verification/Protocol.thy ===== *)
theory Protocol
  imports Prelude Complex_Main
begin

text \<open>
  The values server, nodes and client exchange (\<^verbatim>\<open>internal/protocol/types.go\<close>), one record
  per struct. A timestamp is the RFC3339 text of a whole UTC second; the model keeps the
  second, and the order of the texts (fixed width, most significant field first) is the
  order of the seconds. A dedup ratio is kept as the exact quotient.
\<close>

type_synonym seconds = int

record NodeRegisterRequest =
  rr_id :: string
  rr_address :: string
  rr_capacity :: int
  rr_free :: int

record NodeInfo =
  ni_id :: string
  ni_address :: string
  ni_capacity :: int
  ni_free :: int
  ni_lastSeen :: seconds
  ni_status :: string

record ChunkRef =
  cr_index :: int
  cr_hash :: string
  cr_size :: int

record FileManifest =
  fm_id :: string
  fm_name :: string
  fm_backupName :: string
  fm_version :: int
  fm_retention :: int
  fm_createdAt :: seconds
  fm_size :: int
  fm_chunkSize :: int
  fm_replication :: int
  fm_dedupNew :: int
  fm_dedupReused :: int
  fm_dedupRatio :: rat
  fm_chunkCount :: int
  fm_chunks :: "ChunkRef list"
  fm_retentionDeleted :: "string list"

record CreateFileRequest =
  cf_name :: string
  cf_backupName :: string
  cf_retention :: int
  cf_size :: int
  cf_chunkSize :: int
  cf_replication :: int
  cf_dedupNew :: int
  cf_dedupReused :: int
  cf_chunks :: "ChunkRef list"

record ChunkPlanRequest =
  pr_hash :: string
  pr_size :: int
  pr_replication :: int

record ChunkConfirmRequest =
  cc_hash :: string
  cc_size :: int
  cc_nodeID :: string

record ChunkAvailability =
  ca_index :: int
  ca_hash :: string
  ca_size :: int
  ca_desired :: int
  ca_active :: int
  ca_total :: int
  ca_status :: string
  ca_locations :: "NodeInfo list"

record FileAvailability =
  fa_fileID :: string
  fa_name :: string
  fa_backupName :: string
  fa_version :: int
  fa_retention :: int
  fa_createdAt :: seconds
  fa_size :: int
  fa_chunkSize :: int
  fa_replication :: int
  fa_dedupNew :: int
  fa_dedupReused :: int
  fa_dedupRatio :: rat
  fa_chunks :: "ChunkAvailability list"

text \<open>The zero values Go returns beside an error or a \<^verbatim>\<open>false\<close>.\<close>

definition noNode :: NodeInfo where
  "noNode = \<lparr>ni_id = [], ni_address = [], ni_capacity = 0, ni_free = 0, ni_lastSeen = 0,
     ni_status = []\<rparr>"

definition noFile :: FileManifest where
  "noFile = \<lparr>fm_id = [], fm_name = [], fm_backupName = [], fm_version = 0, fm_retention = 0,
     fm_createdAt = 0, fm_size = 0, fm_chunkSize = 0, fm_replication = 0, fm_dedupNew = 0,
     fm_dedupReused = 0, fm_dedupRatio = 0, fm_chunkCount = 0, fm_chunks = [],
     fm_retentionDeleted = []\<rparr>"

end
