(* ===== verification/Hashing.thy ===== *)
theory Hashing
  imports Prelude
begin

text \<open>
  Chunk hashes. \<^verbatim>\<open>hashData\<close> (server) and \<^verbatim>\<open>HashBytes\<close> (node) are both SHA-256 in lower-case
  hexadecimal with the prefix \<^verbatim>\<open>sha256:\<close>. SHA-256 is Go's standard library, so it is
  written out here after FIPS 180-4 together with the part of \<^verbatim>\<open>encoding/hex\<close> the code
  uses; no property of the development needs more of it than its output length.
\<close>

unbundle bit_operations_syntax

type_synonym u32 = "32 word"

subsection \<open>SHA-256\<close>

text \<open>The 64 round constants, two to a 64-bit numeral, the first in its upper half.\<close>

definition sha_k :: "u32 list" where
  "sha_k = concat (map (\<lambda>x :: 64 word. [ucast (drop_bit 32 x), ucast x])
     [0x428a2f9871374491, 0xb5c0fbcfe9b5dba5, 0x3956c25b59f111f1, 0x923f82a4ab1c5ed5,
      0xd807aa9812835b01, 0x243185be550c7dc3, 0x72be5d7480deb1fe, 0x9bdc06a7c19bf174,
      0xe49b69c1efbe4786, 0x0fc19dc6240ca1cc, 0x2de92c6f4a7484aa, 0x5cb0a9dc76f988da,
      0x983e5152a831c66d, 0xb00327c8bf597fc7, 0xc6e00bf3d5a79147, 0x06ca635114292967,
      0x27b70a852e1b2138, 0x4d2c6dfc53380d13, 0x650a7354766a0abb, 0x81c2c92e92722c85,
      0xa2bfe8a1a81a664b, 0xc24b8b70c76c51a3, 0xd192e819d6990624, 0xf40e3585106aa070,
      0x19a4c1161e376c08, 0x2748774c34b0bcb5, 0x391c0cb34ed8aa4a, 0x5b9cca4f682e6ff3,
      0x748f82ee78a5636f, 0x84c878148cc70208, 0x90befffaa4506ceb, 0xbef9a3f7c67178f2])"

datatype sha_state = ShaState u32 u32 u32 u32 u32 u32 u32 u32

definition sha_init :: sha_state where
  "sha_init = ShaState 0x6a09e667 0xbb67ae85 0x3c6ef372 0xa54ff53a
     0x510e527f 0x9b05688c 0x1f83d9ab 0x5be0cd19"

definition rotr32 :: "nat \<Rightarrow> u32 \<Rightarrow> u32" where
  "rotr32 n x = drop_bit n x OR push_bit (32 - n) x"

fun sha_extend :: "nat \<Rightarrow> u32 list \<Rightarrow> u32 list" where
  "sha_extend 0 ws = ws"
| "sha_extend (Suc n) ws =
     (let l = length ws; x = ws ! (l - 15); y = ws ! (l - 2);
          s0 = rotr32 7 x XOR rotr32 18 x XOR drop_bit 3 x;
          s1 = rotr32 17 y XOR rotr32 19 y XOR drop_bit 10 y
      in sha_extend n (ws @ [ws ! (l - 16) + s0 + ws ! (l - 7) + s1]))"

fun sha_round :: "u32 \<times> u32 \<Rightarrow> sha_state \<Rightarrow> sha_state" where
  "sha_round (k, w) (ShaState a b c d e f g h) =
     (let s1 = rotr32 6 e XOR rotr32 11 e XOR rotr32 25 e;
          ch = (e AND f) XOR (NOT e AND g);
          t1 = h + s1 + ch + k + w;
          s0 = rotr32 2 a XOR rotr32 13 a XOR rotr32 22 a;
          maj = (a AND b) XOR (a AND c) XOR (b AND c)
      in ShaState (t1 + (s0 + maj)) a b c (d + t1) e f g)"

fun sha_add :: "sha_state \<Rightarrow> sha_state \<Rightarrow> sha_state" where
  "sha_add (ShaState a b c d e f g h) (ShaState a' b' c' d' e' f' g' h') =
     ShaState (a + a') (b + b') (c + c') (d + d') (e + e') (f + f') (g + g') (h + h')"

fun be_words :: "bytes \<Rightarrow> u32 list" where
  "be_words (a # b # c # d # r) =
     (push_bit 24 (ucast a) OR push_bit 16 (ucast b) OR push_bit 8 (ucast c) OR ucast d) # be_words r"
| "be_words _ = []"

definition be_bytes :: "u32 \<Rightarrow> bytes" where
  "be_bytes w = [ucast (drop_bit 24 w), ucast (drop_bit 16 w), ucast (drop_bit 8 w), ucast w]"

definition sha_block :: "sha_state \<Rightarrow> bytes \<Rightarrow> sha_state" where
  "sha_block st blk = sha_add (fold sha_round (zip sha_k (sha_extend 48 (be_words blk))) st) st"

definition sha_pad :: "bytes \<Rightarrow> bytes" where
  "sha_pad m =
     m @ [0x80] @ replicate (nat ((55 - int (length m)) mod 64)) 0
       @ map (\<lambda>i. ucast (drop_bit (8 * i) (of_nat (8 * length m) :: 64 word))) [7, 6, 5, 4, 3, 2, 1, 0]"

fun sha_blocks :: "nat \<Rightarrow> bytes \<Rightarrow> sha_state \<Rightarrow> sha_state" where
  "sha_blocks 0 m st = st"
| "sha_blocks (Suc n) m st = sha_blocks n (drop 64 m) (sha_block st (take 64 m))"

fun sha_bytes :: "sha_state \<Rightarrow> bytes" where
  "sha_bytes (ShaState a b c d e f g h) = concat (map be_bytes [a, b, c, d, e, f, g, h])"

definition sha256 :: "bytes \<Rightarrow> bytes" where
  "sha256 m = (let p = sha_pad m in sha_bytes (sha_blocks (length p div 64) p sha_init))"

lemma length_sha256 [simp]: "length (sha256 m) = 32"
  by (cases "sha_blocks (length (sha_pad m) div 64) (sha_pad m) sha_init")
    (simp add: sha256_def be_bytes_def Let_def)

subsection \<open>Hexadecimal\<close>

definition hex_digit :: "nat \<Rightarrow> char" where
  "hex_digit n = char_of (if n < 10 then 48 + n else 87 + n)"

definition hex_encode :: "bytes \<Rightarrow> string" where
  "hex_encode bs = concat (map (\<lambda>b. [hex_digit (unat b div 16), hex_digit (unat b mod 16)]) bs)"

definition from_hex :: "char \<Rightarrow> nat option" where
  "from_hex c = (let n = of_char c :: nat in
     if 48 \<le> n \<and> n \<le> 57 then Some (n - 48)
     else if 97 \<le> n \<and> n \<le> 102 then Some (n - 87)
     else if 65 \<le> n \<and> n \<le> 70 then Some (n - 55)
     else None)"

text \<open>\<^verbatim>\<open>hex.DecodeString\<close>: pairs of digits of either case; an odd digit is an error.\<close>

fun hex_decode :: "string \<Rightarrow> bytes option" where
  "hex_decode [] = Some []"
| "hex_decode [c] = None"
| "hex_decode (c # d # r) =
     (case (from_hex c, from_hex d) of
        (Some x, Some y) \<Rightarrow> map_option (\<lambda>bs. of_nat (16 * x + y) # bs) (hex_decode r)
      | _ \<Rightarrow> None)"

lemma from_hex_digit [simp]: "n < 16 \<Longrightarrow> from_hex (hex_digit n) = Some n"
  by (auto simp: from_hex_def hex_digit_def Let_def)

lemma hex_decode_encode [simp]: "hex_decode (hex_encode bs) = Some bs"
proof (induction bs)
  case Nil
  then show ?case by (simp add: hex_encode_def)
next
  case (Cons b bs)
  have "unat b div 16 < 16" using unsigned_less [of b, where 'a = nat]
    by (simp add: less_mult_imp_div_less)
  moreover have "16 * (unat b div 16) + unat b mod 16 = unat b" by simp
  ultimately show ?case
    using Cons by (simp add: hex_encode_def del: mult_div_mod_eq of_nat_add)
qed

lemma length_hex_encode [simp]: "length (hex_encode bs) = 2 * length bs"
  by (induction bs) (simp_all add: hex_encode_def)

lemma hex_encode_inj: "hex_encode a = hex_encode b \<Longrightarrow> a = b"
  by (metis hex_decode_encode option.inject)

lemma hex_decode_digits: "hex_decode s = Some bs \<Longrightarrow> c \<in> set s \<Longrightarrow> from_hex c \<noteq> None"
  by (induction s arbitrary: bs rule: hex_decode.induct)
    (auto split: option.splits)

subsection \<open>Chunk hashes\<close>

definition hashData :: "bytes \<Rightarrow> string" where
  "hashData data = ''sha256:'' @ hex_encode (sha256 data)"

definition HashBytes :: "bytes \<Rightarrow> string" where
  "HashBytes data = ''sha256:'' @ hex_encode (sha256 data)"

lemma HashBytes_hashData [simp]: "HashBytes data = hashData data"
  by (simp add: HashBytes_def hashData_def)

lemma length_hashData [simp]: "length (hashData data) = 71"
  by (simp add: hashData_def)

lemma TrimPrefix_hashData [str_simps]:
  "TrimPrefix (hashData data) ''sha256:'' = hex_encode (sha256 data)"
  by (simp add: hashData_def TrimPrefix_append [of "''sha256:''", simplified])

lemma hashData_neq_Nil [simp]: "hashData data \<noteq> []"
  by (simp add: hashData_def)

end
