(* ===== verification/Http.thy ===== *)
theory Http
  imports Protocol
begin

text \<open>
  Requests and responses as the handlers see them. A request carries its method, the URL
  path, the decoded query, the \<^verbatim>\<open>Authorization\<close> header (the empty string when it is
  absent, as \<^verbatim>\<open>Header.Get\<close> returns it) and a body, whose type is a parameter: a node
  receives bytes, the server decoded JSON or an upload. A handler threads its state.
\<close>

record 'b Request =
  rq_method :: string
  rq_path :: string
  rq_query :: "(string \<times> string) list"
  rq_authorization :: string
  rq_body :: 'b

record 'b Response =
  rs_status :: int
  rs_body :: 'b

type_synonym ('b, 'c, 's) handler = "'b Request \<Rightarrow> 's \<Rightarrow> 'c Response \<times> 's"

abbreviation "StatusOK \<equiv> 200 :: int"
abbreviation "StatusCreated \<equiv> 201 :: int"
abbreviation "StatusMovedPermanently \<equiv> 301 :: int"
abbreviation "StatusBadRequest \<equiv> 400 :: int"
abbreviation "StatusUnauthorized \<equiv> 401 :: int"
abbreviation "StatusNotFound \<equiv> 404 :: int"
abbreviation "StatusMethodNotAllowed \<equiv> 405 :: int"
abbreviation "StatusInternalServerError \<equiv> 500 :: int"
abbreviation "StatusBadGateway \<equiv> 502 :: int"
abbreviation "StatusServiceUnavailable \<equiv> 503 :: int"
abbreviation "StatusInsufficientStorage \<equiv> 507 :: int"

definition respond :: "int \<Rightarrow> 'c \<Rightarrow> 'c Response" where
  "respond st b = \<lparr>rs_status = st, rs_body = b\<rparr>"

lemma respond_sel [simp]: "rs_status (respond st b) = st" "rs_body (respond st b) = b"
  by (simp_all add: respond_def)

lemma respond_eq [simp]: "respond st b = respond st' b' \<longleftrightarrow> st = st' \<and> b = b'"
  by (simp add: respond_def)

text \<open>\<^verbatim>\<open>URL.Query().Get\<close>: the first value of the key, or the empty string.\<close>

definition query_get :: "(string \<times> string) list \<Rightarrow> string \<Rightarrow> string" where
  "query_get q k = (case map_of q k of None \<Rightarrow> [] | Some v \<Rightarrow> v)"

end
