(* ===== verification/Auth.thy ===== *)
theory Auth
  imports Http
begin

text \<open>
  The shared-secret bearer token (\<^verbatim>\<open>internal/auth/auth.go\<close>): how it is resolved, how a
  client attaches it, how the middleware in front of every handler checks it. The
  environment variable's value is an argument of \<open>Resolve\<close>.
\<close>

definition bearerPrefix :: string where
  "bearerPrefix = ''Bearer ''"

definition Resolve :: "string \<Rightarrow> string \<Rightarrow> string" where
  "Resolve configToken env =
     (let token = TrimSpace configToken in
      if token = [] then TrimSpace env else token)"

definition ValidBearer :: "string \<Rightarrow> string \<Rightarrow> bool" where
  "ValidBearer header token =
     (if \<not> HasPrefix header bearerPrefix then False
      else TrimSpace (drop (length bearerPrefix) header) = token)"

text \<open>
  \<open>public\<close> is \<open>None\<close> where the Go code passes \<^verbatim>\<open>nil\<close>; \<open>unauthorized\<close> is the body
  \<^verbatim>\<open>{"error":"unauthorized"}\<close> in the handler's body type.
\<close>

definition Middleware ::
  "string \<Rightarrow> ('b Request \<Rightarrow> bool) option \<Rightarrow> 'c \<Rightarrow> ('b, 'c, 's) handler \<Rightarrow> ('b, 'c, 's) handler" where
  "Middleware token public unauthorized next r s =
     (if (case public of Some p \<Rightarrow> p r | None \<Rightarrow> False) then next r s
      else if \<not> ValidBearer (rq_authorization r) token
      then (respond StatusUnauthorized unauthorized, s)
      else next r s)"

text \<open>The transport of an authenticated client replaces the header of a copy of the request.\<close>

definition RoundTrip :: "string \<Rightarrow> 'b Request \<Rightarrow> 'b Request" where
  "RoundTrip token r = r\<lparr>rq_authorization := bearerPrefix @ token\<rparr>"

lemma ValidBearer_iff:
  "ValidBearer h token \<longleftrightarrow> (\<exists>x. h = bearerPrefix @ x \<and> TrimSpace x = token)"
  by (auto simp: ValidBearer_def HasPrefix_iff)

lemma Resolve_trimmed [simp]: "TrimSpace (Resolve c e) = Resolve c e"
  by (simp add: Resolve_def Let_def)

lemma Resolve_empty_iff: "Resolve c e = [] \<longleftrightarrow> TrimSpace c = [] \<and> TrimSpace e = []"
  by (simp add: Resolve_def Let_def)

lemma ValidBearer_RoundTrip:
  "ValidBearer (rq_authorization (RoundTrip t r)) token \<longleftrightarrow> TrimSpace t = token"
  by (auto simp: RoundTrip_def ValidBearer_iff)

lemma Middleware_valid:
  "ValidBearer (rq_authorization r) token \<Longrightarrow> Middleware token public u next r s = next r s"
  by (simp add: Middleware_def)

lemma Middleware_RoundTrip [simp]:
  "TrimSpace t = token \<Longrightarrow> Middleware token public u next (RoundTrip t r) s = next (RoundTrip t r) s"
  by (rule Middleware_valid) (simp add: ValidBearer_RoundTrip)

lemma Middleware_RoundTrip_bad:
  "TrimSpace t \<noteq> token \<Longrightarrow> Middleware token None u next (RoundTrip t r) s = (respond 401 u, s)"
  by (simp add: Middleware_def ValidBearer_RoundTrip)

text \<open>
  C27: authentication is complete and sound in both directions. A request of a client that
  resolved its token from some configuration and environment passes the middleware of a
  process that resolved its own exactly when the two resolved tokens agree; when they
  disagree and the path is not public, the answer is 401 and the state is untouched.
\<close>

theorem auth_cluster_token:
  "Middleware (Resolve c e) public u next (RoundTrip (Resolve c' e') r) s =
     (if (\<exists>p. public = Some p \<and> p (RoundTrip (Resolve c' e') r)) \<or> Resolve c' e' = Resolve c e
      then next (RoundTrip (Resolve c' e') r) s
      else (respond 401 u, s))"
  by (auto simp: Middleware_def ValidBearer_RoundTrip split: option.splits)

end
