(* ===== verification/Aead.thy ===== *)
theory Aead
  imports Prelude
begin

text \<open>
  At-rest encryption. \<^verbatim>\<open>chunkstore.Store\<close> holds a \<^verbatim>\<open>cipher.AEAD\<close> value: an interface with a
  nonce size, \<^verbatim>\<open>Seal\<close> and \<^verbatim>\<open>Open\<close>. The contract a store relies on is the locale
  \<open>aead_laws\<close>; the instance the program builds, AES-256 in GCM mode (\<^verbatim>\<open>crypto/aes\<close>,
  \<^verbatim>\<open>crypto/cipher\<close>), is written out after FIPS 197 and NIST SP 800-38D and shown to
  satisfy it for every key.
\<close>

unbundle bit_operations_syntax

record aead =
  NonceSize :: nat
  Seal :: "bytes \<Rightarrow> bytes \<Rightarrow> bytes"
  OpenSealed :: "bytes \<Rightarrow> bytes \<Rightarrow> bytes option"

locale aead_laws =
  fixes ns :: nat
    and seal :: "bytes \<Rightarrow> bytes \<Rightarrow> bytes"
    and unseal :: "bytes \<Rightarrow> bytes \<Rightarrow> bytes option"
    and overhead :: nat
  assumes unseal_seal: "length nonce = ns \<Longrightarrow> unseal nonce (seal nonce data) = Some data"
    and length_seal: "length (seal nonce data) = length data + overhead"
begin

text \<open>What the store writes is \<^verbatim>\<open>nonce || ciphertext\<close>; splitting it at the nonce size undoes it.\<close>

lemma unseal_stored:
  "length nonce = ns \<Longrightarrow>
     unseal (take ns (nonce @ seal nonce data)) (drop ns (nonce @ seal nonce data)) = Some data"
  by (simp add: unseal_seal)

lemma length_stored: "length nonce = ns \<Longrightarrow> length (nonce @ seal nonce data) = length data + ns + overhead"
  by (simp add: length_seal)

end

subsection \<open>AES-256\<close>

definition xtime :: "byte \<Rightarrow> byte" where
  "xtime b = push_bit 1 b XOR (if bit b 7 then 0x1b else 0)"

fun gmul_n :: "nat \<Rightarrow> byte \<Rightarrow> byte \<Rightarrow> byte" where
  "gmul_n 0 a b = 0"
| "gmul_n (Suc n) a b = (if bit b 0 then a else 0) XOR gmul_n n (xtime a) (drop_bit 1 b)"

abbreviation gmul :: "byte \<Rightarrow> byte \<Rightarrow> byte" where
  "gmul \<equiv> gmul_n 8"

text \<open>The inverse in GF(256) is the 254th power; \<open>gpow\<close> squares and multiplies seven times.\<close>

fun gpow :: "nat \<Rightarrow> byte \<Rightarrow> byte" where
  "gpow 0 b = 1"
| "gpow (Suc n) b = gmul b (gmul (gpow n b) (gpow n b))"

definition ginv :: "byte \<Rightarrow> byte" where
  "ginv b = (let c = gpow 7 b in gmul c c)"

definition rol8 :: "nat \<Rightarrow> byte \<Rightarrow> byte" where
  "rol8 n b = push_bit n b OR drop_bit (8 - n) b"

definition sub_byte :: "byte \<Rightarrow> byte" where
  "sub_byte b = (let i = ginv b in i XOR rol8 1 i XOR rol8 2 i XOR rol8 3 i XOR rol8 4 i XOR 0x63)"

definition xor_bytes :: "bytes \<Rightarrow> bytes \<Rightarrow> bytes" where
  "xor_bytes a b = map2 (XOR) a b"

fun key_expand :: "nat \<Rightarrow> bytes list \<Rightarrow> bytes list" where
  "key_expand 0 ws = ws"
| "key_expand (Suc n) ws =
     (let i = length ws; t = ws ! (i - 1);
          u = (if i mod 8 = 0 then xor_bytes (map sub_byte (rotate1 t)) [of_nat (2 ^ (i div 8 - 1)), 0, 0, 0]
               else if i mod 8 = 4 then map sub_byte t else t)
      in key_expand n (ws @ [xor_bytes (ws ! (i - 8)) u]))"

definition round_keys :: "bytes \<Rightarrow> bytes list" where
  "round_keys key =
     (let ws = key_expand 52 (map (\<lambda>i. take 4 (drop (4 * i) key)) [0..<8])
      in map (\<lambda>r. concat (take 4 (drop (4 * r) ws))) [0..<15])"

definition shift_rows :: "bytes \<Rightarrow> bytes" where
  "shift_rows s = map (\<lambda>i. s ! ((i + 4 * (i mod 4)) mod 16)) [0..<16]"

definition mix_columns :: "bytes \<Rightarrow> bytes" where
  "mix_columns s =
     map (\<lambda>i. let c = 4 * (i div 4); r = i mod 4; x = (\<lambda>k. s ! (c + (r + k) mod 4))
              in gmul 2 (x 0) XOR gmul 3 (x 1) XOR x 2 XOR x 3) [0..<16]"

definition add_round_key :: "bytes \<Rightarrow> bytes \<Rightarrow> bytes" where
  "add_round_key k s = map (\<lambda>i. s ! i XOR k ! i) [0..<16]"

definition aes_round :: "bytes \<Rightarrow> bytes \<Rightarrow> bytes" where
  "aes_round k s = add_round_key k (mix_columns (shift_rows (map sub_byte s)))"

definition aes256 :: "bytes \<Rightarrow> bytes \<Rightarrow> bytes" where
  "aes256 key blk =
     (let rk = round_keys key;
          s = fold aes_round (take 13 (drop 1 rk)) (add_round_key (rk ! 0) blk)
      in add_round_key (rk ! 14) (shift_rows (map sub_byte s)))"

lemma length_aes256 [simp]: "length (aes256 key blk) = 16"
  by (simp add: aes256_def add_round_key_def Let_def)

subsection \<open>Galois/counter mode\<close>

definition be_word :: "bytes \<Rightarrow> 128 word" where
  "be_word bs = fold (\<lambda>b w. push_bit 8 w OR ucast b) bs 0"

definition word_be :: "128 word \<Rightarrow> bytes" where
  "word_be w = map (\<lambda>i. ucast (drop_bit (8 * i) w)) [15, 14, 13, 12, 11, 10, 9, 8, 7, 6, 5, 4, 3, 2, 1, 0]"

fun ghash_mul :: "nat \<Rightarrow> 128 word \<Rightarrow> 128 word \<Rightarrow> 128 word \<Rightarrow> 128 word" where
  "ghash_mul 0 x v z = z"
| "ghash_mul (Suc n) x v z =
     ghash_mul n x (drop_bit 1 v XOR (if bit v 0 then push_bit 120 0xe1 else 0))
       (if bit x n then z XOR v else z)"

fun blocks16 :: "nat \<Rightarrow> bytes \<Rightarrow> bytes list" where
  "blocks16 0 bs = []"
| "blocks16 (Suc n) bs = take 16 bs # blocks16 n (drop 16 bs)"

definition ghash :: "128 word \<Rightarrow> bytes \<Rightarrow> 128 word" where
  "ghash h ct =
     (let n = (length ct + 15) div 16;
          bs = map (\<lambda>b. take 16 (b @ replicate 16 0)) (blocks16 n ct) @ [word_be (of_nat (8 * length ct))]
      in fold (\<lambda>b y. ghash_mul 128 (y XOR be_word b) h 0) bs 0)"

definition counter_block :: "bytes \<Rightarrow> nat \<Rightarrow> bytes" where
  "counter_block nonce i = nonce @ drop 12 (word_be (of_nat i))"

definition keystream :: "(bytes \<Rightarrow> bytes) \<Rightarrow> bytes \<Rightarrow> nat \<Rightarrow> bytes" where
  "keystream E nonce n = concat (map (\<lambda>i. E (counter_block nonce (i + 2))) [0..<(n + 15) div 16])"

definition gcm_crypt :: "(bytes \<Rightarrow> bytes) \<Rightarrow> bytes \<Rightarrow> bytes \<Rightarrow> bytes" where
  "gcm_crypt E nonce data = xor_bytes data (keystream E nonce (length data))"

definition gcm_tag :: "(bytes \<Rightarrow> bytes) \<Rightarrow> bytes \<Rightarrow> bytes \<Rightarrow> bytes" where
  "gcm_tag E nonce ct =
     word_be (ghash (be_word (E (replicate 16 0))) ct XOR be_word (E (counter_block nonce 1)))"

definition gcm_seal :: "bytes \<Rightarrow> bytes \<Rightarrow> bytes \<Rightarrow> bytes" where
  "gcm_seal key nonce data =
     (let ct = gcm_crypt (aes256 key) nonce data in ct @ gcm_tag (aes256 key) nonce ct)"

definition gcm_open :: "bytes \<Rightarrow> bytes \<Rightarrow> bytes \<Rightarrow> bytes option" where
  "gcm_open key nonce sealed =
     (if length sealed < 16 then None
      else let ct = take (length sealed - 16) sealed; tag = drop (length sealed - 16) sealed
           in if gcm_tag (aes256 key) nonce ct = tag then Some (gcm_crypt (aes256 key) nonce ct)
              else None)"

definition gcm :: "bytes \<Rightarrow> aead" where
  "gcm key = \<lparr>NonceSize = 12, Seal = gcm_seal key, OpenSealed = gcm_open key\<rparr>"

lemma length_word_be [simp]: "length (word_be w) = 16"
  by (simp add: word_be_def)

lemma length_gcm_tag [simp]: "length (gcm_tag E nonce ct) = 16"
  by (simp add: gcm_tag_def)

lemma length_keystream:
  assumes "\<And>b. length (E b) = 16"
  shows "length (keystream E nonce n) = 16 * ((n + 15) div 16)"
  using assms by (simp add: keystream_def length_concat o_def sum_list_triv)

lemma keystream_enough: "(\<And>b. length (E b) = 16) \<Longrightarrow> n \<le> length (keystream E nonce n)"
  by (simp add: length_keystream)

lemma length_xor_bytes [simp]: "length (xor_bytes a b) = min (length a) (length b)"
  by (simp add: xor_bytes_def)

lemma xor_bytes_twice: "length a \<le> length k \<Longrightarrow> xor_bytes (xor_bytes a k) k = a"
  by (rule nth_equalityI) (simp_all add: xor_bytes_def xor.assoc)

lemma length_gcm_crypt [simp]: "(\<And>b. length (E b) = 16) \<Longrightarrow> length (gcm_crypt E nonce d) = length d"
  using keystream_enough [of E "length d" nonce] by (simp add: gcm_crypt_def)

lemma gcm_crypt_twice: "(\<And>b. length (E b) = 16) \<Longrightarrow> gcm_crypt E nonce (gcm_crypt E nonce d) = d"
  using keystream_enough [of E "length d" nonce]
  by (simp add: gcm_crypt_def xor_bytes_twice)

lemma gcm_open_seal: "gcm_open key nonce (gcm_seal key nonce data) = Some data"
  by (simp add: gcm_open_def gcm_seal_def gcm_crypt_twice Let_def)

lemma length_gcm_seal: "length (gcm_seal key nonce data) = length data + 16"
  by (simp add: gcm_seal_def Let_def)

interpretation gcm: aead_laws "NonceSize (gcm key)" "Seal (gcm key)" "OpenSealed (gcm key)" 16
  for key
  by unfold_locales (simp_all add: gcm_def gcm_open_seal length_gcm_seal)

lemma NonceSize_gcm [simp]: "NonceSize (gcm key) = 12"
  by (simp add: gcm_def)

end
