(* ===== verification/Chunker.thy ===== *)
theory Chunker
  imports Prelude
begin

text \<open>
  Content-defined chunking (\<^verbatim>\<open>readContentDefinedChunk\<close>, \<^verbatim>\<open>nextPowerOfTwo\<close> and
  \<^verbatim>\<open>makeGearTable\<close> of \<^verbatim>\<open>internal/server/handlers.go\<close>).
\<close>

unbundle bit_operations_syntax

type_synonym u64 = "64 word"

definition defaultChunkSize :: int where
  "defaultChunkSize = 512 * 1024"

definition maxChunkSize :: int where
  "maxChunkSize = 64 * 1024 * 1024"

subsection \<open>The gear table\<close>

fun gear_entries :: "nat \<Rightarrow> u64 \<Rightarrow> u64 list" where
  "gear_entries 0 seed = []"
| "gear_entries (Suc n) seed =
     (let seed = seed + 0x9e3779b97f4a7c15;
          z = seed;
          z = (z XOR drop_bit 30 z) * 0xbf58476d1ce4e5b9;
          z = (z XOR drop_bit 27 z) * 0x94d049bb133111eb
      in (z XOR drop_bit 31 z) # gear_entries n seed)"

definition makeGearTable :: "u64 list" where
  "makeGearTable = gear_entries 256 0x9e3779b97f4a7c15"

definition gearTable :: "byte \<Rightarrow> u64" where
  "gearTable b = makeGearTable ! unat b"

lemma length_gear_entries [simp]: "length (gear_entries n seed) = n"
  by (induction n arbitrary: seed) (simp_all add: Let_def)

text \<open>Every byte indexes the table, as the fixed-size Go array guarantees.\<close>

lemma gearTable_in_range: "unat (b :: byte) < length makeGearTable"
  using unsigned_less [of b, where 'a = nat] by (simp add: makeGearTable_def)

subsection \<open>The next power of two\<close>

text \<open>\<^verbatim>\<open>value |= value >> shift\<close> on an \<^verbatim>\<open>int64\<close>: the shift is arithmetic.\<close>

definition smear :: "nat \<Rightarrow> u64 \<Rightarrow> u64" where
  "smear s v = v OR signed_drop_bit s v"

definition nextPowerOfTwo :: "u64 \<Rightarrow> u64" where
  "nextPowerOfTwo value =
     (if value \<le>s 1 then 1
      else fold smear [1, 2, 4, 8, 16, 32] (value - 1) + 1)"

subsection \<open>Reading one chunk\<close>

datatype chunk_read = EndOfFile | ReadFailed string | Chunk bytes reader

text \<open>
  The loop \<^verbatim>\<open>for len(data) < maxSize\<close>: \<open>rest\<close> are the bytes \<^verbatim>\<open>ReadByte\<close> has not returned.
\<close>

fun cdc_loop :: "nat \<Rightarrow> nat \<Rightarrow> u64 \<Rightarrow> stream_end \<Rightarrow> bytes \<Rightarrow> u64 \<Rightarrow> bytes \<Rightarrow> chunk_read" where
  "cdc_loop minSize maxSize msk fin data hash [] =
     (if length data < maxSize then
        (case fin of
           EOF \<Rightarrow> (if length data = 0 then EndOfFile else Chunk data \<lparr>rd_bytes = [], rd_end = fin\<rparr>)
         | ReadError e \<Rightarrow> ReadFailed e)
      else Chunk data \<lparr>rd_bytes = [], rd_end = fin\<rparr>)"
| "cdc_loop minSize maxSize msk fin data hash (b # rest) =
     (if length data < maxSize then
        let data = data @ [b]; hash = push_bit 1 hash + gearTable b
        in if minSize \<le> length data \<and> hash AND msk = 0
           then Chunk data \<lparr>rd_bytes = rest, rd_end = fin\<rparr>
           else cdc_loop minSize maxSize msk fin data hash rest
      else Chunk data \<lparr>rd_bytes = b # rest, rd_end = fin\<rparr>)"

definition cdc_target :: "int \<Rightarrow> int" where
  "cdc_target targetSize = (if targetSize \<le> 0 then defaultChunkSize else targetSize)"

definition cdc_min :: "int \<Rightarrow> int" where
  "cdc_min target = (let minSize = target div 4 in if minSize < 8 * 1024 then 8 * 1024 else minSize)"

definition cdc_max :: "int \<Rightarrow> int" where
  "cdc_max target =
     (let maxSize = wrap64 (target * 4) in if maxSize < cdc_min target then cdc_min target else maxSize)"

definition cdc_mask :: "int \<Rightarrow> u64" where
  "cdc_mask target =
     (let mask = nextPowerOfTwo (word_of_int target) - 1
      in if mask = 0 then word_of_int (defaultChunkSize - 1) else mask)"

definition readContentDefinedChunk :: "reader \<Rightarrow> int \<Rightarrow> chunk_read" where
  "readContentDefinedChunk r targetSize =
     (let target = cdc_target targetSize
      in cdc_loop (nat (cdc_min target)) (nat (cdc_max target)) (cdc_mask target) (rd_end r) [] 0
           (rd_bytes r))"

subsection \<open>Where a chunk ends\<close>

text \<open>
  The fingerprint of a byte sequence, started at 0 as the loop starts it. A position is a
  cut when it is at least the minimum and the masked fingerprint is 0, or when it is the
  maximum; \<open>cut_point\<close> is the first one.
\<close>

definition fingerprint :: "bytes \<Rightarrow> u64" where
  "fingerprint bs = fold (\<lambda>b h. push_bit 1 h + gearTable b) bs 0"

definition is_cut :: "nat \<Rightarrow> nat \<Rightarrow> u64 \<Rightarrow> bytes \<Rightarrow> nat \<Rightarrow> bool" where
  "is_cut mn mx m bs n \<longleftrightarrow> (mn \<le> n \<and> fingerprint (take n bs) AND m = 0) \<or> mx \<le> n"

definition cut_point :: "nat \<Rightarrow> nat \<Rightarrow> u64 \<Rightarrow> bytes \<Rightarrow> nat option" where
  "cut_point mn mx m bs = find (is_cut mn mx m bs) [1..<length bs + 1]"

lemma fingerprint_snoc: "fingerprint (bs @ [b]) = push_bit 1 (fingerprint bs) + gearTable b"
  by (simp add: fingerprint_def)

lemma fingerprint_append:
  "fingerprint (xs @ ys) = push_bit (length ys) (fingerprint xs) + fingerprint ys"
proof (induction ys rule: rev_induct)
  case Nil
  then show ?case by (simp add: fingerprint_def)
next
  case (snoc y ys)
  have "fingerprint (xs @ ys @ [y]) = push_bit 1 (fingerprint (xs @ ys)) + gearTable y"
    using fingerprint_snoc [of "xs @ ys" y] by simp
  then show ?case
    by (simp add: snoc fingerprint_snoc push_bit_eq_mult algebra_simps)
qed

lemma cdc_loop_find:
  "length data < mx \<Longrightarrow>
   cdc_loop mn mx m fin data (fingerprint data) rest =
     (case find (is_cut mn mx m (data @ rest)) [length data + 1..<length (data @ rest) + 1] of
        Some n \<Rightarrow> Chunk (take n (data @ rest)) \<lparr>rd_bytes = drop n (data @ rest), rd_end = fin\<rparr>
      | None \<Rightarrow> (case fin of
          EOF \<Rightarrow> (if data @ rest = [] then EndOfFile
                  else Chunk (data @ rest) \<lparr>rd_bytes = [], rd_end = fin\<rparr>)
        | ReadError e \<Rightarrow> ReadFailed e))"
proof (induction rest arbitrary: data)
  case Nil
  then show ?case by (simp split: stream_end.split)
next
  case (Cons b rest)
  let ?d = "data @ [b]"
  have upt: "[length data + 1..<length (data @ b # rest) + 1] =
      length ?d # [length ?d + 1..<length (?d @ rest) + 1]"
    by (simp add: upt_conv_Cons del: upt_Suc)
  have at: "is_cut mn mx m (data @ b # rest) (length ?d) \<longleftrightarrow>
      (mn \<le> length ?d \<and> fingerprint ?d AND m = 0) \<or> mx \<le> length ?d"
    by (simp add: is_cut_def)
  show ?case
  proof (cases "mn \<le> length ?d \<and> fingerprint ?d AND m = 0")
    case True
    with Cons.prems show ?thesis
      unfolding upt using at by (simp add: fingerprint_snoc Let_def)
  next
    case False
    show ?thesis
    proof (cases "mx \<le> length ?d")
      case True
      with Cons.prems False show ?thesis
        unfolding upt using at by (cases rest) (auto simp add: fingerprint_snoc Let_def)
    next
      case less: False
      then have "cdc_loop mn mx m fin data (fingerprint data) (b # rest) =
          cdc_loop mn mx m fin ?d (fingerprint ?d) rest"
        using Cons.prems False by (auto simp: fingerprint_snoc Let_def)
      moreover have "\<not> is_cut mn mx m (data @ b # rest) (length ?d)"
        using at less False by blast
      moreover have "(data @ [b]) @ rest = data @ b # rest" by simp
      note Cons.IH [of ?d, unfolded this]
      ultimately show ?thesis
        unfolding upt using less by (simp del: upt_Suc)
    qed
  qed
qed

lemma cdc_min_pos: "8192 \<le> cdc_min t"
  by (simp add: cdc_min_def Let_def)

lemma cdc_min_le_max: "cdc_min t \<le> cdc_max t"
  by (simp add: cdc_max_def Let_def)

lemma readContentDefinedChunk_find:
  "readContentDefinedChunk r targetSize =
     (let t = cdc_target targetSize in
      case cut_point (nat (cdc_min t)) (nat (cdc_max t)) (cdc_mask t) (rd_bytes r) of
        Some n \<Rightarrow> Chunk (take n (rd_bytes r)) (r\<lparr>rd_bytes := drop n (rd_bytes r)\<rparr>)
      | None \<Rightarrow> (case rd_end r of
          EOF \<Rightarrow> (if rd_bytes r = [] then EndOfFile else Chunk (rd_bytes r) (r\<lparr>rd_bytes := []\<rparr>))
        | ReadError e \<Rightarrow> ReadFailed e))"
proof -
  have "0 < nat (cdc_max (cdc_target targetSize))"
    using cdc_min_pos [of "cdc_target targetSize"] cdc_min_le_max [of "cdc_target targetSize"] by linarith
  then show ?thesis
    using cdc_loop_find [of "[]" "nat (cdc_max (cdc_target targetSize))"]
    by (cases r) (simp add: readContentDefinedChunk_def cut_point_def fingerprint_def Let_def
        split: option.split stream_end.split)
qed

lemma cut_point_Some:
  assumes "cut_point mn mx m bs = Some n"
  shows "1 \<le> n" "n \<le> length bs" "mn \<le> n \<or> mx \<le> n" "0 < mx \<Longrightarrow> mn \<le> mx \<Longrightarrow> n \<le> mx"
proof -
  from assms obtain i where i: "i < length bs" "is_cut mn mx m bs (Suc i)" "n = Suc i"
    and first: "\<And>j. j < i \<Longrightarrow> \<not> is_cut mn mx m bs (Suc j)"
    by (auto simp: cut_point_def find_Some_iff simp del: upt_Suc)
  then show "1 \<le> n" "n \<le> length bs" by simp_all
  show "mn \<le> n \<or> mx \<le> n" using i by (auto simp: is_cut_def)
  show "n \<le> mx" if "0 < mx" "mn \<le> mx"
  proof (rule ccontr)
    assume "\<not> n \<le> mx"
    with that i have "mx - 1 < i" "Suc (mx - 1) = mx" by simp_all
    with first [of "mx - 1"] show False by (simp add: is_cut_def)
  qed
qed

lemma cut_point_None_length: "cut_point mn mx m bs = None \<Longrightarrow> bs = [] \<or> length bs < mx"
proof (rule ccontr)
  assume none: "cut_point mn mx m bs = None" and "\<not> (bs = [] \<or> length bs < mx)"
  then have "length bs \<in> set [1..<length bs + 1]" and "is_cut mn mx m bs (length bs)"
    by (auto simp: is_cut_def Suc_le_eq)
  with none show False by (auto simp: cut_point_def find_None_iff simp del: upt_Suc)
qed

text \<open>What one read delivers, whichever way it ends.\<close>

lemma read_Chunk:
  assumes "readContentDefinedChunk r t = Chunk d r'"
  shows "rd_bytes r = d @ rd_bytes r'" "rd_end r' = rd_end r" "d \<noteq> []"
    "int (length d) \<le> cdc_max (cdc_target t)"
    "cdc_min (cdc_target t) \<le> int (length d) \<or> rd_bytes r' = [] \<and> rd_end r = EOF"
proof -
  let ?t = "cdc_target t"
  let ?c = "cut_point (nat (cdc_min ?t)) (nat (cdc_max ?t)) (cdc_mask ?t) (rd_bytes r)"
  note b = cdc_min_pos [of ?t] cdc_min_le_max [of ?t]
  then have nb: "nat (cdc_min ?t) \<le> nat (cdc_max ?t)" "0 < nat (cdc_max ?t)" by simp_all
  have all: "rd_bytes r = d @ rd_bytes r' \<and> rd_end r' = rd_end r \<and> d \<noteq> [] \<and>
      int (length d) \<le> cdc_max ?t \<and>
      (cdc_min ?t \<le> int (length d) \<or> rd_bytes r' = [] \<and> rd_end r = EOF)"
  proof (cases ?c)
    case None
    with assms cut_point_None_length [OF None] b show ?thesis
      by (auto simp: readContentDefinedChunk_find Let_def split: stream_end.splits if_splits)
  next
    case (Some n)
    with cut_point_Some [OF Some] nb b
    have "int n \<le> cdc_max ?t" "cdc_min ?t \<le> int n" "1 \<le> n" "n \<le> length (rd_bytes r)" by linarith+
    with assms Some show ?thesis
      by (auto simp: readContentDefinedChunk_find Let_def)
  qed
  then show "rd_bytes r = d @ rd_bytes r'" "rd_end r' = rd_end r" "d \<noteq> []"
    "int (length d) \<le> cdc_max ?t"
    "cdc_min ?t \<le> int (length d) \<or> rd_bytes r' = [] \<and> rd_end r = EOF"
    by blast+
qed

lemma read_EndOfFile:
  "readContentDefinedChunk r t = EndOfFile \<Longrightarrow> rd_bytes r = [] \<and> rd_end r = EOF"
  by (auto simp: readContentDefinedChunk_find Let_def split: option.splits stream_end.splits if_splits)

lemma read_ReadFailed: "readContentDefinedChunk r t = ReadFailed e \<Longrightarrow> rd_end r = ReadError e"
  by (auto simp: readContentDefinedChunk_find Let_def split: option.splits stream_end.splits if_splits)

lemma read_progress:
  "readContentDefinedChunk r t = Chunk d r' \<Longrightarrow> length (rd_bytes r') < length (rd_bytes r)"
  using read_Chunk(1,3) [of r t d r'] by (cases d) auto

subsection \<open>The rolling window\<close>

text \<open>
  The low \<open>k\<close> bits of the fingerprint depend on the last \<open>k\<close> bytes only, and the mask
  selects the low bits: this is why an insertion moves only the cuts next to it.
\<close>

lemma take_bit_push_bit_add:
  "k \<le> n \<Longrightarrow> take_bit k (push_bit n a + b) = take_bit k (b :: 'a::len word)"
  by transfer (subst take_bit_add [symmetric], simp add: take_bit_push_bit)

lemma fingerprint_window:
  "k \<le> length ys \<Longrightarrow> fingerprint (xs @ ys) AND mask k = fingerprint ys AND mask k"
  by (simp add: fingerprint_append take_bit_eq_mask [symmetric] take_bit_push_bit_add)

subsection \<open>Rounding up to a power of two\<close>

lemma smear_bits:
  assumes "\<And>j. bit y j = (\<exists>i < s. bit x (j + i))" and "\<not> bit x 63"
  shows "bit (smear s y) j = (\<exists>i<2 * s. bit (x :: u64) (j + i))"
proof -
  have top: "\<not> bit x n" if "63 \<le> n" for n
    using that assms(2) by (cases "n = 63") (auto simp: bit_imp_le_length dest!: bit_imp_le_length)
  then have "\<not> bit y n" if "63 \<le> n" for n
    using that assms(1) [of n] by auto
  then have "bit (signed_drop_bit s y) j = bit y (s + j)"
    by (auto simp: bit_signed_drop_bit_iff bit_simps)
  then have "bit (smear s y) j \<longleftrightarrow> (\<exists>i < s. bit x (j + i)) \<or> (\<exists>i < s. bit x (s + j + i))"
    by (simp add: smear_def bit_or_iff assms(1))
  also have "\<dots> \<longleftrightarrow> (\<exists>i<2 * s. bit x (j + i))"
  proof
    assume "(\<exists>i < s. bit x (j + i)) \<or> (\<exists>i < s. bit x (s + j + i))"
    then show "\<exists>i<2 * s. bit x (j + i)"
    proof
      assume "\<exists>i < s. bit x (s + j + i)"
      then obtain i where "i < s" "bit x (j + (s + i))" by (auto simp: ac_simps)
      then show ?thesis by (intro exI [of _ "s + i"]) simp
    qed (metis mult_2 trans_less_add1)
  next
    assume "\<exists>i<2 * s. bit x (j + i)"
    then obtain i where i: "i < 2 * s" "bit x (j + i)" by blast
    show "(\<exists>i < s. bit x (j + i)) \<or> (\<exists>i < s. bit x (s + j + i))"
    proof (cases "i < s")
      case False
      with i have "i - s < s" "bit x (s + j + (i - s))" by simp_all
      then show ?thesis by blast
    qed (use i in blast)
  qed
  finally show ?thesis .
qed

lemma smear_all_bits:
  assumes "\<not> bit x 63"
  shows "bit (fold smear [1, 2, 4, 8, 16, 32] x) j = (\<exists>i<64. bit x (j + i))"
proof -
  have 1: "bit x j = (\<exists>i<1. bit x (j + i))" for j by simp
  note 2 = smear_bits [OF 1 assms, simplified]
  note 4 = smear_bits [OF 2 assms, simplified]
  note 8 = smear_bits [OF 4 assms, simplified]
  note 16 = smear_bits [OF 8 assms, simplified]
  note 32 = smear_bits [OF 16 assms, simplified]
  from smear_bits [OF 32 assms, of j] show ?thesis by simp
qed

lemma smear_all_mask:
  fixes x :: u64
  assumes "2 ^ k \<le> uint x" "uint x < 2 ^ Suc k" "k < 63"
  shows "fold smear [1, 2, 4, 8, 16, 32] x = mask (Suc k)"
proof (rule bit_eqI)
  fix j :: nat
  assume "possible_bit TYPE(u64) j"
  then have j: "j < 64" by (simp add: possible_bit_word)
  have high: "\<not> bit x n" if "Suc k \<le> n" for n
  proof -
    have "uint x < 2 ^ n" using assms(2) that by (meson le_less_trans less_le_trans power_increasing one_le_numeral)
    then have "\<not> bit (uint x) n" by (simp add: bit_iff_odd)
    then show ?thesis using bit_imp_le_length [of x n] by (auto simp: bit_uint_iff)
  qed
  have low: "bit x k"
  proof -
    have "uint x div 2 ^ k = 1" using assms(1,2) int_div_pos_eq [of "uint x" "2 ^ k" 1 "uint x - 2 ^ k"] by simp
    then have "bit (uint x) k" by (simp add: bit_iff_odd)
    then show ?thesis by (simp add: bit_uint_iff)
  qed
  have "bit (fold smear [1, 2, 4, 8, 16, 32] x) j = (\<exists>i < 64. bit x (j + i))"
    by (rule smear_all_bits) (use high [of 63] assms(3) in simp)
  also have "\<dots> \<longleftrightarrow> j < Suc k"
  proof
    assume "\<exists>i < 64. bit x (j + i)"
    then obtain i where "bit x (j + i)" by blast
    then show "j < Suc k" using high [of "j + i"] by (cases "j < Suc k") auto
  next
    assume "j < Suc k"
    then show "\<exists>i < 64. bit x (j + i)"
      using low assms(3) by (intro exI [of _ "k - j"]) simp
  qed
  finally show "bit (fold smear [1, 2, 4, 8, 16, 32] x) j \<longleftrightarrow> bit (mask (Suc k) :: u64) j"
    using j by (simp add: bit_mask_iff)
qed

lemma nextPowerOfTwo_exp:
  assumes "1 < uint v" and "uint v \<le> 2 ^ 62"
  obtains k where "k < 62" "nextPowerOfTwo v = 2 ^ Suc k" "2 ^ k < uint v" "uint v \<le> 2 ^ Suc k"
proof -
  have pred: "uint (v - 1) = uint v - 1"
    using assms by (simp add: uint_word_ariths)
  obtain k where k: "2 ^ k \<le> nat (uint v - 1)" "nat (uint v - 1) < 2 ^ Suc k"
    using ex_power_ivl1 [of 2 "nat (uint v - 1)", OF order_refl _] assms(1)
    by (metis Suc_eq_plus1 diff_gt_0_iff_gt nat_0_iff not_less_eq_eq le_zero_eq not_le One_nat_def)
  then have ik: "2 ^ k \<le> uint v - 1" "uint v - 1 < 2 ^ Suc k"
    using assms(1) by (simp_all add: le_nat_iff nat_less_iff)
  then have "(2 :: int) ^ k < 2 ^ 62" using assms(2) by linarith
  then have k62: "k < 62" by (rule power_less_imp_less_exp [rotated]) simp
  have "sint v = uint v"
    unfolding sint_uint by (rule signed_take_bit_int_eq_self) (use assms in simp_all)
  then have "\<not> v \<le>s 1" using assms(1) by (simp add: word_sle_eq)
  moreover have "fold smear [1, 2, 4, 8, 16, 32] (v - 1) = mask (Suc k)"
    by (rule smear_all_mask) (use ik k62 pred in simp_all)
  ultimately have "nextPowerOfTwo v = 2 ^ Suc k"
    by (simp add: nextPowerOfTwo_def mask_eq_exp_minus_1 del: fold_simps power_Suc)
  then show ?thesis using that k62 ik by simp
qed

lemma cdc_mask_low_bits:
  assumes "1 \<le> t" "t \<le> maxChunkSize"
  obtains k where "1 \<le> k" "k \<le> 26" "cdc_mask t = mask k"
proof (cases "t = 1")
  case True
  have "cdc_mask t = mask 19"
    by (simp add: True cdc_mask_def nextPowerOfTwo_def word_sle_eq mask_eq_exp_minus_1 defaultChunkSize_def)
  then show ?thesis using that [of 19] by simp
next
  case False
  then have t: "1 < t" "t \<le> 2 ^ 26" using assms by (simp_all add: maxChunkSize_def)
  then have u: "uint (word_of_int t :: u64) = t" by (simp add: uint_word_of_int)
  have "1 < uint (word_of_int t :: u64)" "uint (word_of_int t :: u64) \<le> 2 ^ 62"
    using t by (simp_all only: u) simp
  then obtain k where k: "nextPowerOfTwo (word_of_int t) = 2 ^ Suc k" "2 ^ k < t" "k < 62"
    by (rule nextPowerOfTwo_exp) (simp only: u)
  from k(2) t(2) have "(2 :: int) ^ k < 2 ^ 26" by linarith
  then have "k < 26" by (rule power_less_imp_less_exp [rotated]) simp
  moreover have "cdc_mask t = mask (Suc k)"
  proof -
    have "(mask (Suc k) :: u64) \<noteq> 0" by (simp add: mask_Suc_0 mask_eq_0_iff)
    then show ?thesis by (simp add: cdc_mask_def k(1) Let_def mask_eq_exp_minus_1)
  qed
  ultimately show ?thesis using that [of "Suc k"] by simp
qed

subsection \<open>Reading a whole stream\<close>

text \<open>The reads a handler issues until the stream ends: the chunks, and how it ended.\<close>

function chunk_all :: "reader \<Rightarrow> int \<Rightarrow> bytes list \<times> chunk_read" where
  "chunk_all r t =
     (case readContentDefinedChunk r t of
        Chunk d r' \<Rightarrow> (case chunk_all r' t of (ds, e) \<Rightarrow> (d # ds, e))
      | e \<Rightarrow> ([], e))"
  by pat_completeness auto
termination
  by (relation "measure (\<lambda>(r, t). length (rd_bytes r))") (auto dest: read_progress)

declare chunk_all.simps [simp del]

lemma chunk_all_induct [case_names Stop Step]:
  assumes "\<And>r. (\<And>d r'. readContentDefinedChunk r t \<noteq> Chunk d r') \<Longrightarrow> P r"
    and "\<And>r d r'. readContentDefinedChunk r t = Chunk d r' \<Longrightarrow> P r' \<Longrightarrow> P r"
  shows "P r"
proof (induction "length (rd_bytes r)" arbitrary: r rule: less_induct)
  case less
  show ?case
  proof (cases "readContentDefinedChunk r t")
    case (Chunk d r')
    then show ?thesis using less read_progress assms(2) by blast
  qed (auto intro: assms(1))
qed

lemma chunk_all_Chunk:
  "readContentDefinedChunk r t = Chunk d r' \<Longrightarrow>
     chunk_all r t = (d # fst (chunk_all r' t), snd (chunk_all r' t))"
  by (subst chunk_all.simps) (simp split: prod.split)

lemma chunk_all_concat:
  "rd_end r = EOF \<Longrightarrow> concat (fst (chunk_all r t)) = rd_bytes r \<and> snd (chunk_all r t) = EndOfFile"
proof (induction r rule: chunk_all_induct [of t])
  case (Stop r)
  then show ?case
    by (cases "readContentDefinedChunk r t")
      (auto simp: chunk_all.simps [of r t] dest: read_EndOfFile read_ReadFailed)
next
  case (Step r d r')
  with read_Chunk(1,2) [OF Step(1)] show ?case by (simp add: chunk_all_Chunk)
qed

lemma chunk_all_error:
  "rd_end r = ReadError e \<Longrightarrow> snd (chunk_all r t) = ReadFailed e"
proof (induction r rule: chunk_all_induct [of t])
  case (Stop r)
  then show ?case
    by (cases "readContentDefinedChunk r t")
      (auto simp: chunk_all.simps [of r t] dest: read_EndOfFile read_ReadFailed)
next
  case (Step r d r')
  with read_Chunk(2) [OF Step(1)] show ?case by (simp add: chunk_all_Chunk)
qed

lemma chunk_all_bounds:
  "fst (chunk_all r t) = xs @ d # ys \<Longrightarrow>
     d \<noteq> [] \<and> int (length d) \<le> cdc_max (cdc_target t) \<and> (ys \<noteq> [] \<longrightarrow> cdc_min (cdc_target t) \<le> int (length d))"
proof (induction r arbitrary: xs rule: chunk_all_induct [of t])
  case (Stop r)
  then show ?case by (subst (asm) chunk_all.simps) (auto split: chunk_read.splits)
next
  case (Step r c r')
  show ?case
  proof (cases xs)
    case Nil
    with Step have c: "c = d" "ys = fst (chunk_all r' t)" by (simp_all add: chunk_all_Chunk)
    have "rd_bytes r' \<noteq> []" if "ys \<noteq> []"
      using that c(2) read_Chunk(1,3) [of r' t]
      by (subst (asm) chunk_all.simps) (fastforce split: chunk_read.splits)
    with read_Chunk(3-5) [OF Step(1)] c show ?thesis by blast
  next
    case (Cons x xs')
    with Step show ?thesis by (simp add: chunk_all_Chunk)
  qed
qed

text \<open>After a cut the reads are those of the remaining stream alone.\<close>

lemma chunk_all_append:
  "fst (chunk_all r t) = xs @ ys \<Longrightarrow>
     fst (chunk_all (r\<lparr>rd_bytes := drop (length (concat xs)) (rd_bytes r)\<rparr>) t) = ys"
proof (induction xs arbitrary: r)
  case Nil
  then show ?case by simp
next
  case (Cons x xs)
  then obtain r' where r': "readContentDefinedChunk r t = Chunk x r'" "fst (chunk_all r' t) = xs @ ys"
    by (subst (asm) chunk_all.simps) (auto split: chunk_read.splits prod.splits)
  have "r'\<lparr>rd_bytes := drop (length (concat xs)) (rd_bytes r')\<rparr> =
      r\<lparr>rd_bytes := drop (length (concat (x # xs))) (rd_bytes r)\<rparr>"
    using read_Chunk(1,2) [OF r'(1)] by (cases r, cases r') simp
  with Cons.IH [OF r'(2)] show ?case by simp
qed

subsection \<open>Bounds\<close>

lemma chunk_all_prefix: "\<exists>rest. rd_bytes r = concat (fst (chunk_all r t)) @ rest \<and> (rd_end r = EOF \<longrightarrow> rest = [])"
proof (induction r rule: chunk_all_induct [of t])
  case (Stop r)
  then show ?case
    by (cases "readContentDefinedChunk r t")
      (auto simp: chunk_all.simps [of r t] dest: read_EndOfFile read_ReadFailed)
next
  case (Step r d r')
  with read_Chunk(1,2) [OF Step(1)] show ?case by (auto simp: chunk_all_Chunk)
qed

lemma chunk_all_end:
  "snd (chunk_all r t) = (case rd_end r of EOF \<Rightarrow> EndOfFile | ReadError e \<Rightarrow> ReadFailed e)"
  using chunk_all_concat [of r t] chunk_all_error [of r _ t] by (cases "rd_end r") auto

lemma chunk_all_count:
  "length (fst (chunk_all r t)) \<le> length (rd_bytes r) div 8192 + 1"
proof -
  have min: "8192 \<le> length d" if "d \<in> set (butlast (fst (chunk_all r t)))" for d
  proof -
    from that obtain xs ys where s: "butlast (fst (chunk_all r t)) = xs @ d # ys" by (auto simp: in_set_conv_decomp)
    then have ne: "fst (chunk_all r t) \<noteq> []" by auto
    then have "fst (chunk_all r t) = xs @ d # (ys @ [last (fst (chunk_all r t))])"
      using s append_butlast_last_id [of "fst (chunk_all r t)"] by simp
    from chunk_all_bounds [OF this] have "cdc_min (cdc_target t) \<le> int (length d)" by simp
    with cdc_min_pos [of "cdc_target t"] show ?thesis by linarith
  qed
  have sum: "8192 * length xs \<le> length (concat xs)" if "\<And>d. d \<in> set xs \<Longrightarrow> 8192 \<le> length d" for xs :: "bytes list"
    using that
  proof (induction xs)
    case (Cons x xs)
    then have "8192 \<le> length x" "8192 * length xs \<le> length (concat xs)" by auto
    then show ?case by simp
  qed simp
  have "8192 * length (butlast (fst (chunk_all r t))) \<le> length (concat (butlast (fst (chunk_all r t))))"
    using sum min by blast
  also have "\<dots> \<le> length (concat (fst (chunk_all r t)))"
    by (cases "fst (chunk_all r t)" rule: rev_cases) simp_all
  also have "\<dots> \<le> length (rd_bytes r)" using chunk_all_prefix [of r t] by auto
  finally have "length (butlast (fst (chunk_all r t))) \<le> length (rd_bytes r) div 8192" by simp
  then show ?thesis by simp
qed

lemma cdc_max_bound: "1 \<le> t \<Longrightarrow> t \<le> maxChunkSize \<Longrightarrow> cdc_max (cdc_target t) = max (4 * t) (cdc_min t)"
  by (simp add: cdc_max_def cdc_target_def maxChunkSize_def Let_def int64_def)

text \<open>
  C29: chunking ends, loses nothing and stays in bounds. Whatever the stream and the target size are, reading
  chunk after chunk ends after at most one read more than there are blocks of 8 KiB in the stream, and it ends the way
  the stream does. The chunks are the bytes of the stream in order, all of them unless the stream broke; none is
  empty, each but the last has at least a quarter of the target and 8 KiB, and for the sizes the server
  accepts none is larger than the greater of four times the target and 8 KiB, so at most 256 MiB.
\<close>

theorem chunking_bounded:
  shows "length (fst (chunk_all r t)) \<le> length (rd_bytes r) div 8192 + 1 \<and>
    snd (chunk_all r t) = (case rd_end r of EOF \<Rightarrow> EndOfFile | ReadError e \<Rightarrow> ReadFailed e) \<and>
    (\<exists>rest. rd_bytes r = concat (fst (chunk_all r t)) @ rest \<and> (rd_end r = EOF \<longrightarrow> rest = [])) \<and>
    (\<forall>xs d ys. fst (chunk_all r t) = xs @ d # ys \<longrightarrow> d \<noteq> [] \<and>
       (ys \<noteq> [] \<longrightarrow> 8192 \<le> length d \<and> (0 < t \<longrightarrow> t div 4 \<le> int (length d))) \<and>
       (1 \<le> t \<and> t \<le> maxChunkSize \<longrightarrow> int (length d) \<le> max (4 * t) 8192 \<and> length d \<le> 268435456))"
proof (intro conjI allI impI)
  fix xs d ys assume s: "fst (chunk_all r t) = xs @ d # ys"
  note b = chunk_all_bounds [OF s]
  then show "d \<noteq> []" by blast
  show "8192 \<le> length d" "0 < t \<Longrightarrow> t div 4 \<le> int (length d)" if "ys \<noteq> []"
    using b that cdc_min_pos [of "cdc_target t"] by (auto simp: cdc_min_def cdc_target_def Let_def split: if_splits)
  show "int (length d) \<le> max (4 * t) 8192" if "1 \<le> t \<and> t \<le> maxChunkSize"
    using b cdc_max_bound [of t] that by (auto simp: cdc_min_def Let_def split: if_splits)
  then show "length d \<le> 268435456" if "1 \<le> t \<and> t \<le> maxChunkSize" using that by (simp add: maxChunkSize_def max_def split: if_splits)
qed (fact chunk_all_count chunk_all_end chunk_all_prefix)+



text \<open>8200 zero bytes, target 1: a first chunk of exactly 8 KiB and a rest.\<close>

theorem chunking_bounded_witness:
  "\<exists>d ys. fst (chunk_all \<lparr>rd_bytes = replicate 8200 0, rd_end = EOF\<rparr> 1) = d # ys \<and> ys \<noteq> [] \<and> length d = 8192 \<and>
     concat (d # ys) = replicate 8200 0"
proof -
  let ?r = "\<lparr>rd_bytes = replicate 8200 0, rd_end = EOF\<rparr> :: reader"
  note b = chunking_bounded [of ?r 1]
  then have c: "concat (fst (chunk_all ?r 1)) = replicate 8200 0" by auto
  then obtain d ys where d: "fst (chunk_all ?r 1) = d # ys" by (cases "fst (chunk_all ?r 1)") auto
  from b have p: "\<forall>xs d ys. fst (chunk_all ?r 1) = xs @ d # ys \<longrightarrow> d \<noteq> [] \<and> (ys \<noteq> [] \<longrightarrow> 8192 \<le> length d \<and> (0 < (1::int) \<longrightarrow> 1 div 4 \<le> int (length d))) \<and>
      (1 \<le> (1::int) \<and> 1 \<le> maxChunkSize \<longrightarrow> int (length d) \<le> max (4 * 1) 8192 \<and> length d \<le> 268435456)" by blast
  have l: "(ys \<noteq> [] \<longrightarrow> 8192 \<le> length d) \<and> length d \<le> 8192"
    using p [rule_format, of "[]" d ys] d by (simp add: maxChunkSize_def)
  have "ys \<noteq> []"
  proof
    assume "ys = []"
    then have "length d = 8200" using c d by simp
    with l show False by simp
  qed
  with l c d show ?thesis by auto
qed

end
