(* ===== verification/Filepath.thy ===== *)
theory Filepath
  imports Prelude
begin

text \<open>
  The part of Go's \<^verbatim>\<open>path/filepath\<close> the program uses, for a Unix separator. A path is cut
  into components at \<^verbatim>\<open>/\<close>; \<open>Clean\<close> drops empty components and \<^verbatim>\<open>.\<close>, resolves \<^verbatim>\<open>..\<close> against
  the component before it, and keeps a leading \<^verbatim>\<open>/\<close>.
\<close>

abbreviation slash :: char where
  "slash \<equiv> CHR ''/''"

fun split_slash :: "string \<Rightarrow> string list" where
  "split_slash [] = [[]]"
| "split_slash (c # s) =
     (if c = slash then [] # split_slash s
      else case split_slash s of [] \<Rightarrow> [[c]] | w # ws \<Rightarrow> (c # w) # ws)"

fun join_slash :: "string list \<Rightarrow> string" where
  "join_slash [] = []"
| "join_slash [w] = w"
| "join_slash (w # ws) = w @ slash # join_slash ws"

definition IsAbs :: "string \<Rightarrow> bool" where
  "IsAbs p = HasPrefix p ''/''"

text \<open>One component on top of the components kept so far (the last one first).\<close>

definition clean_step :: "bool \<Rightarrow> string \<Rightarrow> string list \<Rightarrow> string list" where
  "clean_step rooted w st =
     (if w = [] \<or> w = ''.'' then st
      else if w = ''..'' then
        (case st of
           v # vs \<Rightarrow> (if v \<noteq> ''..'' then vs else w # st)
         | [] \<Rightarrow> (if rooted then [] else [w]))
      else w # st)"

definition clean_comps :: "bool \<Rightarrow> string list \<Rightarrow> string list" where
  "clean_comps rooted ws = rev (fold (clean_step rooted) ws [])"

definition render :: "bool \<Rightarrow> string list \<Rightarrow> string" where
  "render rooted ws = (if rooted then slash # join_slash ws else if ws = [] then ''.'' else join_slash ws)"

definition Clean :: "string \<Rightarrow> string" where
  "Clean p = render (IsAbs p) (clean_comps (IsAbs p) (split_slash p))"

text \<open>\<^verbatim>\<open>Join\<close> ignores empty elements; with no element left the result is empty.\<close>

definition Join :: "string list \<Rightarrow> string" where
  "Join es = (let es = filter (\<lambda>e. e \<noteq> []) es in if es = [] then [] else Clean (join_slash es))"

lemma split_slash_neq_Nil [simp]: "split_slash s \<noteq> []"
  by (induction s) (auto split: list.splits)

lemma split_slash_append_slash: "split_slash (u @ slash # v) = split_slash u @ split_slash v"
proof (induction u)
  case Nil
  then show ?case by simp
next
  case (Cons c u)
  then show ?case by (cases "split_slash u") auto
qed

lemma split_slash_plain: "slash \<notin> set w \<Longrightarrow> split_slash w = [w]"
  by (induction w) auto

lemma split_slash_no_slash: "w \<in> set (split_slash s) \<Longrightarrow> slash \<notin> set w"
proof (induction s arbitrary: w)
  case (Cons c s)
  then show ?case by (cases "split_slash s") (auto split: if_splits)
qed simp

lemma join_slash_Cons: "ws \<noteq> [] \<Longrightarrow> join_slash (w # ws) = w @ slash # join_slash ws"
  by (cases ws) simp_all

lemma join_slash_snoc: "ws \<noteq> [] \<Longrightarrow> join_slash (ws @ [w]) = join_slash ws @ slash # w"
proof (induction ws)
  case (Cons v vs)
  then show ?case by (cases vs) simp_all
qed simp

definition plain_comp :: "string \<Rightarrow> bool" where
  "plain_comp w \<longleftrightarrow> w \<noteq> [] \<and> w \<noteq> ''.'' \<and> w \<noteq> ''..'' \<and> slash \<notin> set w"

lemma clean_step_plain: "plain_comp w \<Longrightarrow> clean_step rooted w st = w # st"
  by (simp add: clean_step_def plain_comp_def)

lemma clean_comps_snoc_plain:
  "plain_comp w \<Longrightarrow> clean_comps rooted (ws @ [w]) = clean_comps rooted ws @ [w]"
  by (simp add: clean_comps_def clean_step_plain)

text \<open>Below a directory, plain components are appended to the cleaned directory.\<close>

lemma Join_below:
  assumes "plain_comp a" "plain_comp b"
  shows "Join [r, a, b] =
    render (IsAbs r) ((if r = [] then [] else clean_comps (IsAbs r) (split_slash r)) @ [a, b])"
proof -
  have ab: "split_slash a = [a]" "split_slash b = [b]" "a \<noteq> []" "b \<noteq> []"
    using assms by (simp_all add: plain_comp_def split_slash_plain)
  show ?thesis
  proof (cases "r = []")
    case True
    have "\<not> IsAbs (a @ slash # b)" using assms by (cases a) (auto simp: IsAbs_def HasPrefix_def plain_comp_def)
    moreover have "\<not> IsAbs r" by (simp add: True IsAbs_def HasPrefix_def)
    ultimately show ?thesis
      using True ab assms clean_comps_snoc_plain [of b _ "[a]"] clean_comps_snoc_plain [of a _ "[]"]
      by (simp add: Join_def Clean_def split_slash_append_slash) (simp add: clean_comps_def)
  next
    case False
    then have "IsAbs (r @ slash # a @ slash # b) = IsAbs r"
      by (cases r) (auto simp: IsAbs_def HasPrefix_def)
    moreover have "split_slash (r @ slash # a @ slash # b) = (split_slash r @ [a]) @ [b]"
      by (simp add: split_slash_append_slash ab)
    ultimately show ?thesis
      using False ab assms
      by (simp add: Join_def Clean_def clean_comps_snoc_plain del: append_assoc) simp
  qed
qed

text \<open>The last component of a rendered path can be read off it.\<close>

lemma render_snoc_last:
  assumes "plain_comp w"
  shows "rev (takeWhile (\<lambda>c. c \<noteq> slash) (rev (render rooted (ws @ [w])))) = w"
proof -
  have w: "\<forall>c\<in>set (rev w). c \<noteq> slash" using assms by (auto simp: plain_comp_def)
  have "\<exists>u. render rooted (ws @ [w]) = u @ w \<and> (u = [] \<or> last u = slash)"
    by (cases "ws = []")
      (auto simp: render_def join_slash_snoc intro: exI [of _ "slash # join_slash ws @ [slash]"]
        exI [of _ "join_slash ws @ [slash]"])
  then obtain u where u: "render rooted (ws @ [w]) = u @ w" "u = [] \<or> last u = slash" by blast
  have "takeWhile (\<lambda>c. c \<noteq> slash) (rev w @ rev u) = rev w @ takeWhile (\<lambda>c. c \<noteq> slash) (rev u)"
    by (rule takeWhile_append2) (use w in auto)
  moreover have "takeWhile (\<lambda>c. c \<noteq> slash) (rev u) = []"
    using u(2) by (cases u rule: rev_cases) auto
  ultimately show ?thesis by (simp add: u(1))
qed

end
