(* ===== verification/ChunkStore.thy ===== *)
theory ChunkStore
  imports Filepath Hashing Aead
begin

text \<open>
  A node's chunk store (\<^verbatim>\<open>internal/chunkstore/store.go\<close>). The state is the root directory,
  the optional cipher, the cached byte count and the regular files below the root: an
  association list from paths to contents without duplicate paths, directories being
  implicit. Every file-system call of an operation is numbered in the order the code
  makes it, and an \<open>io_env\<close> says which of them succeed, so each error return of the source
  is a branch; it also supplies the random bytes of the nonce. Reading the size of an
  existing file (\<^verbatim>\<open>os.Stat\<close>) does not fail in the model, and the mutex around the counter
  is implicit, since an operation is one step.
\<close>

subsection \<open>Files\<close>

type_synonym files = "(string \<times> bytes) list"

definition fs_write :: "string \<Rightarrow> bytes \<Rightarrow> files \<Rightarrow> files" where
  "fs_write p c fs = (p, c) # filter (\<lambda>f. fst f \<noteq> p) fs"

definition fs_remove :: "string \<Rightarrow> files \<Rightarrow> files" where
  "fs_remove p fs = filter (\<lambda>f. fst f \<noteq> p) fs"

definition fs_rename :: "string \<Rightarrow> string \<Rightarrow> files \<Rightarrow> files" where
  "fs_rename old new fs =
     (case map_of fs old of None \<Rightarrow> fs | Some c \<Rightarrow> fs_write new c (fs_remove old fs))"

definition fileSize :: "files \<Rightarrow> string \<Rightarrow> int" where
  "fileSize fs p = (case map_of fs p of None \<Rightarrow> 0 | Some c \<Rightarrow> int (length c))"

lemma map_of_filter_fst: "map_of (filter (\<lambda>f. fst f \<noteq> p) fs) q = (if q = p then None else map_of fs q)"
  by (induction fs) auto

lemma map_of_fs_write [store_simps]: "map_of (fs_write p c fs) q = (if q = p then Some c else map_of fs q)"
  by (simp add: fs_write_def map_of_filter_fst)

lemma map_of_fs_remove [store_simps]: "map_of (fs_remove p fs) q = (if q = p then None else map_of fs q)"
  by (simp add: fs_remove_def map_of_filter_fst)

lemma distinct_filter_fst: "distinct (map fst fs) \<Longrightarrow> distinct (map fst (filter P fs))"
  by (induction fs) auto

lemma distinct_fs_write [store_simps]: "distinct (map fst fs) \<Longrightarrow> distinct (map fst (fs_write p c fs))"
  by (auto simp: fs_write_def distinct_filter_fst)

lemma distinct_fs_remove [store_simps]: "distinct (map fst fs) \<Longrightarrow> distinct (map fst (fs_remove p fs))"
  by (simp add: fs_remove_def distinct_filter_fst)

text \<open>A write to a fresh temporary name followed by the rename is a write to the final name.\<close>

lemma fs_rename_write [store_simps]:
  "p \<noteq> q \<Longrightarrow> fs_rename q p (fs_write q c fs) = fs_write p c (fs_remove q fs)"
  by (simp add: fs_rename_def store_simps) (simp add: fs_write_def fs_remove_def)

subsection \<open>The store\<close>

record io_env =
  io_ok :: "nat \<Rightarrow> bool"
  io_short :: nat
  io_left :: "string \<Rightarrow> bool"
  io_rand :: "nat \<Rightarrow> byte"

record Store =
  st_root :: string
  st_aead :: "aead option"
  st_used :: int
  st_files :: files

datatype store_error =
    InvalidHash string
  | ErrHashMismatch string string
  | NotExist
  | TooShort string
  | DecryptFailed string
  | BadKeyLength nat
  | UnsafeRoot string
  | IOError string

definition is_chunk_file :: "string \<times> bytes \<Rightarrow> bool" where
  "is_chunk_file f \<longleftrightarrow> HasSuffix (fst f) ''.chunk''"

definition total_size :: "files \<Rightarrow> int" where
  "total_size fs = (\<Sum>f\<leftarrow>fs. int (length (snd f)))"

definition scanUsed :: "io_env \<Rightarrow> files \<Rightarrow> store_error + int" where
  "scanUsed io fs =
     (if \<not> io_ok io 1 then Inl (IOError ''walk'') else Inr (total_size (filter is_chunk_file fs)))"

definition New :: "io_env \<Rightarrow> string \<Rightarrow> bytes \<Rightarrow> files \<Rightarrow> store_error + Store" where
  "New io root key fs =
     (if \<not> io_ok io 0 then Inl (IOError ''mkdir'')
      else if key \<noteq> [] \<and> length key \<noteq> 32 then Inl (BadKeyLength (length key))
      else case scanUsed io fs of
          Inl e \<Rightarrow> Inl e
        | Inr used \<Rightarrow>
            Inr \<lparr>st_root = root, st_aead = (if key \<noteq> [] then Some (gcm key) else None),
                 st_used = used, st_files = fs\<rparr>)"

definition Encrypted :: "Store \<Rightarrow> bool" where
  "Encrypted s \<longleftrightarrow> st_aead s \<noteq> None"

definition addUsed :: "int \<Rightarrow> Store \<Rightarrow> Store" where
  "addUsed delta s =
     (let used = st_used s + delta in s\<lparr>st_used := (if used < 0 then 0 else used)\<rparr>)"

definition Path :: "Store \<Rightarrow> string \<Rightarrow> store_error + string" where
  "Path s hash =
     (let clean = TrimPrefix hash ''sha256:'' in
      if length clean < 2 then Inl (InvalidHash hash)
      else case hex_decode clean of
          None \<Rightarrow> Inl (InvalidHash hash)
        | Some _ \<Rightarrow> Inr (Join [st_root s, take 2 clean, clean @ ''.chunk'']))"

definition Has :: "Store \<Rightarrow> string \<Rightarrow> bool" where
  "Has s hash = (case Path s hash of Inl _ \<Rightarrow> False | Inr path \<Rightarrow> map_of (st_files s) path \<noteq> None)"

text \<open>
  \<open>putPlain\<close>: calls 0 \<^verbatim>\<open>MkdirAll\<close>, 1 \<^verbatim>\<open>Create\<close>, 2 \<^verbatim>\<open>Copy\<close> (on failure \<open>io_short\<close> bytes reached
  the file), 3 the removal of the temporary file on an error path, 4 \<^verbatim>\<open>Close\<close>, 5 \<^verbatim>\<open>Rename\<close>.
\<close>

definition putPlain :: "io_env \<Rightarrow> Store \<Rightarrow> string \<Rightarrow> reader \<Rightarrow> (store_error + int) \<times> Store" where
  "putPlain io s hash r =
     (case Path s hash of
        Inl e \<Rightarrow> (Inl e, s)
      | Inr path \<Rightarrow>
          if \<not> io_ok io 0 then (Inl (IOError ''mkdir''), s)
          else if \<not> io_ok io 1 then (Inl (IOError ''create''), s)
          else
            let tmp = path @ ''.tmp'';
                copied = (if io_ok io 2 then rd_bytes r else take (io_short io) (rd_bytes r));
                s1 = s\<lparr>st_files := fs_write tmp copied (st_files s)\<rparr>;
                removed = (if io_ok io 3 then s1\<lparr>st_files := fs_remove tmp (st_files s1)\<rparr> else s1);
                got = ''sha256:'' @ hex_encode (sha256 copied)
            in if \<not> io_ok io 2 then (Inl (IOError ''copy''), removed)
               else case rd_end r of
                   ReadError e \<Rightarrow> (Inl (IOError e), removed)
                 | EOF \<Rightarrow>
                     if \<not> io_ok io 4 then (Inl (IOError ''close''), removed)
                     else if got \<noteq> hash then (Inl (ErrHashMismatch hash got), removed)
                     else if \<not> io_ok io 5 then (Inl (IOError ''rename''), removed)
                     else
                       let oldSize = fileSize (st_files s1) path;
                           s2 = s1\<lparr>st_files := fs_rename tmp path (st_files s1)\<rparr>
                       in (Inr (int (length copied)), addUsed (fileSize (st_files s2) path - oldSize) s2))"

text \<open>
  \<open>putEncrypted\<close>: calls 0 \<^verbatim>\<open>rand.Read\<close>, 1 \<^verbatim>\<open>MkdirAll\<close>, 2 and 3 opening and writing the
  temporary file (\<^verbatim>\<open>WriteFile\<close>, which leaves what it wrote), 4 \<^verbatim>\<open>Rename\<close>, 5 the removal after
  a failed rename.
\<close>

definition putEncrypted ::
  "io_env \<Rightarrow> aead \<Rightarrow> Store \<Rightarrow> string \<Rightarrow> reader \<Rightarrow> (store_error + int) \<times> Store" where
  "putEncrypted io a s hash r =
     (case Path s hash of
        Inl e \<Rightarrow> (Inl e, s)
      | Inr path \<Rightarrow>
          case rd_end r of
            ReadError e \<Rightarrow> (Inl (IOError e), s)
          | EOF \<Rightarrow>
              let data = rd_bytes r; got = HashBytes data
              in if got \<noteq> hash then (Inl (ErrHashMismatch hash got), s)
                 else if \<not> io_ok io 0 then (Inl (IOError ''rand''), s)
                 else
                   let nonce = map (io_rand io) [0..<NonceSize a];
                       sealed = nonce @ Seal a nonce data;
                       tmp = path @ ''.tmp''
                   in if \<not> io_ok io 1 then (Inl (IOError ''mkdir''), s)
                      else if \<not> io_ok io 2 then (Inl (IOError ''open''), s)
                      else if \<not> io_ok io 3 then
                        (Inl (IOError ''write''),
                         s\<lparr>st_files := fs_write tmp (take (io_short io) sealed) (st_files s)\<rparr>)
                      else
                        let s1 = s\<lparr>st_files := fs_write tmp sealed (st_files s)\<rparr>
                        in if \<not> io_ok io 4 then
                             (Inl (IOError ''rename''),
                              if io_ok io 5 then s1\<lparr>st_files := fs_remove tmp (st_files s1)\<rparr> else s1)
                           else
                             let oldSize = fileSize (st_files s1) path;
                                 s2 = s1\<lparr>st_files := fs_rename tmp path (st_files s1)\<rparr>
                             in (Inr (int (length data)), addUsed (fileSize (st_files s2) path - oldSize) s2))"

definition Put :: "io_env \<Rightarrow> Store \<Rightarrow> string \<Rightarrow> reader \<Rightarrow> (store_error + int) \<times> Store" where
  "Put io s hash r =
     (case st_aead s of
        Some a \<Rightarrow> putEncrypted io a s hash r
      | None \<Rightarrow> putPlain io s hash r)"

text \<open>\<open>Open\<close>: call 0 is \<^verbatim>\<open>os.Open\<close> on an existing file, call 1 reading a sealed file.\<close>

definition Open :: "io_env \<Rightarrow> Store \<Rightarrow> string \<Rightarrow> store_error + bytes" where
  "Open io s hash =
     (case Path s hash of
        Inl e \<Rightarrow> Inl e
      | Inr path \<Rightarrow>
          case map_of (st_files s) path of
            None \<Rightarrow> Inl NotExist
          | Some c \<Rightarrow>
              if \<not> io_ok io 0 then Inl (IOError ''open'')
              else case st_aead s of
                  None \<Rightarrow> Inr c
                | Some a \<Rightarrow>
                    if \<not> io_ok io 1 then Inl (IOError ''read'')
                    else if length c < NonceSize a then Inl (TooShort hash)
                    else case OpenSealed a (take (NonceSize a) c) (drop (NonceSize a) c) of
                        None \<Rightarrow> Inl (DecryptFailed hash)
                      | Some plain \<Rightarrow> Inr plain)"

definition Delete :: "io_env \<Rightarrow> Store \<Rightarrow> string \<Rightarrow> (store_error + unit) \<times> Store" where
  "Delete io s hash =
     (case Path s hash of
        Inl e \<Rightarrow> (Inl e, s)
      | Inr path \<Rightarrow>
          let size = fileSize (st_files s) path
          in case map_of (st_files s) path of
              None \<Rightarrow> (Inr (), s)
            | Some _ \<Rightarrow>
                if \<not> io_ok io 0 then (Inl (IOError ''remove''), s)
                else (Inr (), addUsed (- size) (s\<lparr>st_files := fs_remove path (st_files s)\<rparr>)))"

text \<open>
  \<open>Clear\<close>: call 0 is the walk that counts, 1 \<^verbatim>\<open>RemoveAll\<close> (on failure the files \<open>io_left\<close>
  holds of are still there), 2 \<^verbatim>\<open>MkdirAll\<close>. On Unix \<^verbatim>\<open>VolumeName\<close> is empty.
\<close>

definition Clear :: "io_env \<Rightarrow> Store \<Rightarrow> (store_error + int \<times> int) \<times> Store" where
  "Clear io s =
     (let cleanRoot = Clean (st_root s) in
      if cleanRoot = ''.'' \<or> cleanRoot = ''/'' then (Inl (UnsafeRoot (st_root s)), s)
      else if \<not> io_ok io 0 then (Inl (IOError ''walk''), s)
      else if \<not> io_ok io 1 then
        (Inl (IOError ''remove''), s\<lparr>st_files := filter (\<lambda>f. io_left io (fst f)) (st_files s)\<rparr>)
      else if \<not> io_ok io 2 then (Inl (IOError ''mkdir''), s\<lparr>st_files := []\<rparr>)
      else (Inr (int (length (st_files s)), total_size (st_files s)), s\<lparr>st_files := [], st_used := 0\<rparr>))"

definition Used :: "Store \<Rightarrow> int" where
  "Used s = st_used s"

subsection \<open>Addresses\<close>

text \<open>What the store identifies a chunk by: the digits behind the optional prefix.\<close>

definition digest :: "string \<Rightarrow> string" where
  "digest hash = TrimPrefix hash ''sha256:''"

lemma digest_hashData [simp]: "digest (hashData d) = hex_encode (sha256 d)"
  by (simp add: digest_def str_simps)

lemma hex_chars_plain:
  assumes "hex_decode w = Some bs" "2 \<le> length w"
  shows "plain_comp (take 2 w)" "plain_comp (w @ ''.chunk'')"
proof -
  have hex: "c \<noteq> CHR ''/'' \<and> c \<noteq> CHR ''.''" if "c \<in> set w" for c
    using hex_decode_digits [OF assms(1) that] by (auto simp: from_hex_def)
  obtain a b r where w: "w = a # b # r"
    using assms(2) by (cases w; cases "tl w") auto
  show "plain_comp (take 2 w)" "plain_comp (w @ ''.chunk'')"
    using hex [of a] hex [of b] hex by (auto simp: plain_comp_def w)
qed

lemma Path_Inr:
  assumes "Path s h = Inr p"
  obtains ws where "2 \<le> length (digest h)" "hex_decode (digest h) \<noteq> None"
    "p = render (IsAbs (st_root s)) (ws @ [digest h @ ''.chunk''])" "plain_comp (digest h @ ''.chunk'')"
proof -
  from assms obtain bs where c: "2 \<le> length (digest h)" "hex_decode (digest h) = Some bs"
    "p = Join [st_root s, take 2 (digest h), digest h @ ''.chunk'']"
    by (auto simp: Path_def digest_def Let_def split: if_splits option.splits)
  note pl = hex_chars_plain [OF c(2,1)]
  show ?thesis
  proof (rule that)
    show "p = render (IsAbs (st_root s)) (((if st_root s = [] then []
        else clean_comps (IsAbs (st_root s)) (split_slash (st_root s))) @ [take 2 (digest h)]) @
          [digest h @ ''.chunk''])"
      using Join_below [OF pl] by (simp add: c(3))
  qed (use c pl in auto)
qed

lemma Path_inj: "Path s h = Inr p \<Longrightarrow> Path s h' = Inr p \<Longrightarrow> digest h = digest h'"
  by (elim Path_Inr) (metis append_same_eq render_snoc_last)

lemma Path_digest_cong: "digest h = digest h' \<Longrightarrow> Path s h = Inr p \<Longrightarrow> Path s h' = Inr p"
  by (auto simp: Path_def digest_def Let_def split: if_splits option.splits)

lemma Path_chunk_suffix: "Path s h = Inr p \<Longrightarrow> HasSuffix p ''.chunk''"
proof (elim Path_Inr)
  fix ws assume p: "p = render (IsAbs (st_root s)) (ws @ [digest h @ ''.chunk''])"
  show ?thesis
    by (cases "ws = []") (auto simp: p render_def join_slash_snoc HasSuffix_iff intro: exI [of _ "digest h"]
      exI [of _ "slash # digest h"] exI [of _ "slash # join_slash ws @ slash # digest h"]
      exI [of _ "join_slash ws @ slash # digest h"])
qed

lemma tmp_not_chunk [simp]: "\<not> is_chunk_file (p @ ''.tmp'', c)"
  by (simp add: is_chunk_file_def HasSuffix_def HasPrefix_def)

lemma Path_is_chunk_file: "Path s h = Inr p \<Longrightarrow> is_chunk_file (p, c)"
  by (simp add: is_chunk_file_def Path_chunk_suffix)

lemma Path_hashData: "\<exists>p. Path s (hashData d) = Inr p"
  by (simp add: Path_def str_simps Let_def)

lemma Path_cong: "st_root s' = st_root s \<Longrightarrow> Path s' h = Path s h"
  by (simp add: Path_def Let_def split: option.split)

subsection \<open>What the operations leave on disk\<close>

abbreviation chunk_files :: "files \<Rightarrow> files" where
  "chunk_files \<equiv> filter is_chunk_file"

text \<open>The plaintext a chunk file stands for.\<close>

definition stored :: "aead option \<Rightarrow> bytes \<Rightarrow> bytes option" where
  "stored a c =
     (case a of
        None \<Rightarrow> Some c
      | Some a \<Rightarrow> if length c < NonceSize a then None
                  else OpenSealed a (take (NonceSize a) c) (drop (NonceSize a) c))"

definition overhead :: "Store \<Rightarrow> nat" where
  "overhead s = (if st_aead s = None then 0 else 28)"

lemma chunk_files_tmp [store_simps]:
  "chunk_files (fs_write (p @ ''.tmp'') c fs) = chunk_files fs"
  "chunk_files (fs_remove (p @ ''.tmp'') fs) = chunk_files fs"
  by (auto simp: fs_write_def fs_remove_def is_chunk_file_def [of "(p @ ''.tmp'', c)"] intro!: filter_cong
      simp flip: is_chunk_file_def)

lemma map_of_chunk_files:
  "HasSuffix p ''.chunk'' \<Longrightarrow> map_of (chunk_files fs) p = map_of fs p"
  by (induction fs) (auto simp: is_chunk_file_def)

definition same_chunks :: "Store \<Rightarrow> Store \<Rightarrow> bool" where
  "same_chunks s s' \<longleftrightarrow>
     st_root s' = st_root s \<and> st_aead s' = st_aead s \<and> st_used s' = st_used s \<and>
     chunk_files (st_files s') = chunk_files (st_files s) \<and>
     (distinct (map fst (st_files s)) \<longrightarrow> distinct (map fst (st_files s')))"

lemma same_chunks_refl [simp]: "same_chunks s s"
  by (simp add: same_chunks_def)

lemma same_chunks_tmp [simp]:
  "same_chunks s (s\<lparr>st_files := fs_write (p @ ''.tmp'') c (st_files s)\<rparr>)"
  "same_chunks s (s\<lparr>st_files := fs_remove (p @ ''.tmp'') (fs_write (p @ ''.tmp'') c (st_files s))\<rparr>)"
  by (simp_all add: same_chunks_def store_simps)

text \<open>A \<open>Put\<close> that fails changes no chunk and not the counter, whatever fails and when.\<close>

lemma Put_Inl: "Put io s h r = (Inl e, s') \<Longrightarrow> same_chunks s s'"
  unfolding Put_def putPlain_def putEncrypted_def
  by (auto simp: Let_def split: option.splits sum.splits if_splits stream_end.splits)

text \<open>A \<open>Put\<close> that succeeds had the announced content, and wrote exactly one chunk file.\<close>

definition put_effect :: "Store \<Rightarrow> string \<Rightarrow> bytes \<Rightarrow> bytes \<Rightarrow> Store" where
  "put_effect s p c d =
     addUsed (int (length c) - fileSize (st_files s) p)
       (s\<lparr>st_files := fs_write p c (fs_remove (p @ ''.tmp'') (st_files s))\<rparr>)"

lemma rename_put_effect:
  "addUsed
      (fileSize (fs_rename (p @ ''.tmp'') p (fs_write (p @ ''.tmp'') c (st_files s))) p -
       fileSize (fs_write (p @ ''.tmp'') c (st_files s)) p)
      (s\<lparr>st_files := fs_rename (p @ ''.tmp'') p (fs_write (p @ ''.tmp'') c (st_files s))\<rparr>) =
    put_effect s p c d"
  by (simp add: put_effect_def store_simps fileSize_def)

definition store_ok :: "Store \<Rightarrow> bool" where
  "store_ok s \<longleftrightarrow> (case st_aead s of None \<Rightarrow> True | Some a \<Rightarrow> \<exists>key. a = gcm key)"

lemma Put_Inr:
  assumes "Put io s h r = (Inr n, s')" and "store_ok s"
  obtains p c where "h = hashData (rd_bytes r)" "rd_end r = EOF" "n = int (length (rd_bytes r))"
    "Path s h = Inr p" "stored (st_aead s) c = Some (rd_bytes r)"
    "length c = length (rd_bytes r) + overhead s" "s' = put_effect s p c (rd_bytes r)"
proof (cases "st_aead s")
  case None
  with assms that show ?thesis
    unfolding Put_def putPlain_def
    by (auto simp: Let_def rename_put_effect [where d = "rd_bytes r"] stored_def overhead_def hashData_def
        split: sum.splits if_splits stream_end.splits)
next
  case (Some a)
  with assms(2) obtain key where a: "a = gcm key" by (auto simp: store_ok_def)
  let ?nonce = "map (io_rand io) [0..<12]"
  let ?c = "?nonce @ Seal (gcm key) ?nonce (rd_bytes r)"
  from assms(1) obtain p where "h = hashData (rd_bytes r)" "rd_end r = EOF"
    "n = int (length (rd_bytes r))" "Path s h = Inr p" "s' = put_effect s p ?c (rd_bytes r)"
    unfolding Put_def putEncrypted_def Some a
    by (auto simp: Let_def rename_put_effect [where d = "rd_bytes r"] simp del: append_assoc
        split: sum.splits if_splits stream_end.splits)
  moreover have "stored (st_aead s) ?c = Some (rd_bytes r)"
    using gcm.unseal_stored [of ?nonce key "rd_bytes r"] by (simp add: stored_def Some a)
  moreover have "length ?c = length (rd_bytes r) + overhead s"
    using gcm.length_stored [of ?nonce key "rd_bytes r"] by (simp add: overhead_def Some)
  ultimately show ?thesis by (intro that [of p ?c])
qed

text \<open>With every call succeeding, the content's own hash is accepted.\<close>

definition healthy :: "(nat \<Rightarrow> byte) \<Rightarrow> io_env" where
  "healthy rnd = \<lparr>io_ok = (\<lambda>_. True), io_short = 0, io_left = (\<lambda>_. False), io_rand = rnd\<rparr>"

lemma io_ok_healthy [simp]: "io_ok (healthy rnd) k"
  by (simp add: healthy_def)

lemma Put_accepts:
  assumes "\<And>k. io_ok io k"
  shows "\<exists>s'. Put io s (hashData d) \<lparr>rd_bytes = d, rd_end = EOF\<rparr> = (Inr (int (length d)), s')"
  using Path_hashData [of s d] assms
  by (auto simp: Put_def putPlain_def putEncrypted_def Let_def hashData_def split: option.split)

subsection \<open>The store invariant\<close>

text \<open>
  Every chunk file holds content that belongs under its name, and the counter is at least
  the bytes on disk. The counter is exact except after a \<open>Clear\<close> that failed half way,
  when it still counts what was deleted.
\<close>

definition store_sound :: "Store \<Rightarrow> bool" where
  "store_sound s \<longleftrightarrow>
     (\<forall>f \<in> set (chunk_files (st_files s)).
        \<exists>d. stored (st_aead s) (snd f) = Some d \<and> Path s (hashData d) = Inr (fst f))"

definition store_inv :: "Store \<Rightarrow> bool" where
  "store_inv s \<longleftrightarrow> store_ok s \<and> distinct (map fst (st_files s)) \<and> store_sound s \<and>
     total_size (chunk_files (st_files s)) \<le> st_used s"

definition store_exact :: "Store \<Rightarrow> bool" where
  "store_exact s \<longleftrightarrow> st_used s = total_size (chunk_files (st_files s))"

lemma total_size_nonneg [simp]: "0 \<le> total_size fs"
  unfolding total_size_def by (induction fs) auto

lemma total_size_remove:
  "distinct (map fst fs) \<Longrightarrow> total_size fs = total_size (fs_remove p fs) + fileSize fs p"
proof (induction fs)
  case (Cons f fs)
  then have "fst f \<notin> fst ` set fs" by auto
  then have "fst f = p \<Longrightarrow> fs_remove p fs = fs"
    by (auto simp: fs_remove_def image_iff intro!: filter_True)
  with Cons show ?case by (auto simp: total_size_def fs_remove_def fileSize_def)
qed (simp add: total_size_def fs_remove_def fileSize_def)

lemma chunk_files_write: "is_chunk_file (p, c) \<Longrightarrow>
    chunk_files (fs_write p c fs) = (p, c) # fs_remove p (chunk_files fs)"
  by (simp add: fs_write_def fs_remove_def conj_commute)

lemma chunk_files_remove: "chunk_files (fs_remove p fs) = fs_remove p (chunk_files fs)"
  by (simp add: fs_remove_def conj_commute)

lemma fileSize_chunk_files: "HasSuffix p ''.chunk'' \<Longrightarrow> fileSize (chunk_files fs) p = fileSize fs p"
  by (simp add: fileSize_def map_of_chunk_files)

lemma total_size_put:
  assumes "distinct (map fst fs)" "is_chunk_file (p, c)"
  shows "total_size (chunk_files (fs_write p c fs)) =
    total_size (chunk_files fs) + int (length c) - fileSize fs p"
  using total_size_remove [of "chunk_files fs" p] assms
  by (simp add: chunk_files_write distinct_filter_fst fileSize_chunk_files is_chunk_file_def)
    (simp add: total_size_def)

lemma total_size_delete:
  assumes "distinct (map fst fs)" "HasSuffix p ''.chunk''"
  shows "total_size (chunk_files (fs_remove p fs)) = total_size (chunk_files fs) - fileSize fs p"
  using total_size_remove [of "chunk_files fs" p] assms
  by (simp add: chunk_files_remove distinct_filter_fst fileSize_chunk_files)

lemma fileSize_le_total:
  "distinct (map fst fs) \<Longrightarrow> HasSuffix p ''.chunk'' \<Longrightarrow> fileSize fs p \<le> total_size (chunk_files fs)"
  using total_size_delete [of fs p] total_size_nonneg [of "chunk_files (fs_remove p fs)"] by linarith

lemma same_chunks_inv:
  assumes "same_chunks s s'"
  shows "store_inv s \<Longrightarrow> store_inv s'" "store_exact s' = store_exact s"
  using assms Path_cong [of s' s]
  by (auto simp: same_chunks_def store_inv_def store_exact_def store_sound_def store_ok_def)

lemma put_effect_fields:
  assumes inv: "store_inv s" and path: "Path s (hashData d) = Inr p"
  shows "st_root (put_effect s p c d) = st_root s" "st_aead (put_effect s p c d) = st_aead s"
    "chunk_files (st_files (put_effect s p c d)) = (p, c) # fs_remove p (chunk_files (st_files s))"
    "distinct (map fst (st_files (put_effect s p c d)))"
    "st_used (put_effect s p c d) = st_used s + int (length c) - fileSize (st_files s) p"
proof -
  have p: "HasSuffix p ''.chunk''" "is_chunk_file (p, c)"
    using Path_chunk_suffix [OF path] by (simp_all add: is_chunk_file_def)
  have "fileSize (st_files s) p \<le> st_used s"
    using inv fileSize_le_total [of "st_files s" p] p(1) by (simp add: store_inv_def)
  then show "st_used (put_effect s p c d) = st_used s + int (length c) - fileSize (st_files s) p"
    by (simp add: put_effect_def addUsed_def Let_def)
  show "st_root (put_effect s p c d) = st_root s" "st_aead (put_effect s p c d) = st_aead s"
    "chunk_files (st_files (put_effect s p c d)) = (p, c) # fs_remove p (chunk_files (st_files s))"
    "distinct (map fst (st_files (put_effect s p c d)))"
    using inv p(2)
    by (simp_all add: put_effect_def addUsed_def Let_def chunk_files_write chunk_files_tmp store_inv_def
        distinct_fs_write distinct_fs_remove)
qed

lemma put_effect_total:
  assumes "store_inv s" and "Path s (hashData d) = Inr p"
  shows "total_size (chunk_files (st_files (put_effect s p c d))) =
     total_size (chunk_files (st_files s)) + int (length c) - fileSize (st_files s) p"
  using assms total_size_put [of "fs_remove (p @ ''.tmp'') (st_files s)" p c]
    Path_is_chunk_file [OF assms(2)]
  by (simp add: put_effect_def addUsed_def Let_def store_inv_def chunk_files_tmp distinct_fs_remove
      fileSize_def map_of_fs_remove)

lemma put_effect_inv:
  assumes inv: "store_inv s" and path: "Path s (hashData d) = Inr p"
    and content: "stored (st_aead s) c = Some d"
  shows "store_inv (put_effect s p c d)"
proof -
  note fields = put_effect_fields [OF inv path]
  have paths: "Path (put_effect s p c d) h = Path s h" for h
    by (rule Path_cong) (rule fields(1))
  have "store_sound (put_effect s p c d)"
    using inv path content
    by (auto simp: store_sound_def fields paths store_inv_def fs_remove_def)
  then show ?thesis
    using inv put_effect_total [OF inv path, of c]
    by (simp add: store_inv_def fields store_ok_def)
qed

lemma put_effect_exact:
  assumes "store_inv s" and "Path s (hashData d) = Inr p"
  shows "store_exact (put_effect s p c d) = store_exact s"
  using put_effect_total [OF assms] by (auto simp: store_exact_def put_effect_fields [OF assms])

lemma Put_inv:
  assumes "store_inv s"
  shows "store_inv (snd (Put io s h r))" "store_exact (snd (Put io s h r)) = store_exact s"
proof -
  obtain res s' where put: "Put io s h r = (res, s')" by fastforce
  have "store_inv s' \<and> store_exact s' = store_exact s"
  proof (cases res)
    case (Inl e)
    with put assms same_chunks_inv show ?thesis by (metis Put_Inl)
  next
    case (Inr n)
    with put assms put_effect_inv put_effect_exact show ?thesis
      by (metis Put_Inr store_inv_def)
  qed
  with put show "store_inv (snd (Put io s h r))" "store_exact (snd (Put io s h r)) = store_exact s"
    by simp_all
qed

lemma Delete_inv:
  assumes "store_inv s"
  shows "store_inv (snd (Delete io s h))" "store_exact (snd (Delete io s h)) = store_exact s"
proof -
  have "store_inv (snd (Delete io s h)) \<and> store_exact (snd (Delete io s h)) = store_exact s"
  proof (cases "\<exists>p. Path s h = Inr p \<and> map_of (st_files s) p \<noteq> None \<and> io_ok io 0")
    case True
    then obtain p where p: "Path s h = Inr p"
      and eq: "snd (Delete io s h) =
        addUsed (- fileSize (st_files s) p) (s\<lparr>st_files := fs_remove p (st_files s)\<rparr>)"
      by (auto simp: Delete_def Let_def)
    let ?s = "snd (Delete io s h)"
    have suf: "HasSuffix p ''.chunk''" by (rule Path_chunk_suffix [OF p])
    have dist: "distinct (map fst (st_files s))" using assms by (simp add: store_inv_def)
    have tot: "total_size (chunk_files (fs_remove p (st_files s))) =
        total_size (chunk_files (st_files s)) - fileSize (st_files s) p"
      by (rule total_size_delete [OF dist suf])
    have "fileSize (st_files s) p \<le> st_used s"
      using assms fileSize_le_total [OF dist suf] by (simp add: store_inv_def)
    then have used: "st_used ?s = st_used s - fileSize (st_files s) p"
      by (simp add: eq addUsed_def Let_def)
    have rest: "st_files ?s = fs_remove p (st_files s)" "st_root ?s = st_root s" "st_aead ?s = st_aead s"
      by (simp_all add: eq addUsed_def Let_def)
    have "store_sound ?s"
      using assms by (auto simp: store_sound_def store_inv_def rest fs_remove_def Path_cong [OF rest(2)])
    then show ?thesis
      using assms tot used
      by (simp add: store_inv_def store_exact_def rest store_ok_def distinct_fs_remove)
  next
    case False
    then have "snd (Delete io s h) = s"
      by (auto simp: Delete_def Let_def split: sum.split option.split)
    with assms show ?thesis by simp
  qed
  then show "store_inv (snd (Delete io s h))" "store_exact (snd (Delete io s h)) = store_exact s"
    by simp_all
qed

lemma total_size_filter: "total_size (filter P fs) \<le> total_size fs"
  by (induction fs) (auto simp: total_size_def)

lemma store_inv_filter:
  assumes "store_inv s"
  shows "store_inv (s\<lparr>st_files := filter P (st_files s)\<rparr>)"
proof -
  have "chunk_files (filter P (st_files s)) = filter P (chunk_files (st_files s))"
    by (simp add: conj_commute)
  moreover have "Path (s\<lparr>st_files := filter P (st_files s)\<rparr>) h = Path s h" for h
    by (rule Path_cong) simp
  ultimately show ?thesis
    using assms total_size_filter [of P "chunk_files (st_files s)"]
    by (auto simp: store_inv_def store_sound_def store_ok_def distinct_filter_fst simp del: filter_filter)
qed

lemma store_inv_empty: "store_ok s \<Longrightarrow> 0 \<le> st_used s \<Longrightarrow> st_files s = [] \<Longrightarrow> store_inv s"
  by (simp add: store_inv_def store_sound_def total_size_def)

lemma store_inv_used: "store_inv s \<Longrightarrow> 0 \<le> st_used s"
  unfolding store_inv_def using total_size_nonneg order_trans by blast

lemma Clear_inv: "store_inv s \<Longrightarrow> store_inv (snd (Clear io s))"
  using store_inv_filter [of s "\<lambda>f. io_left io (fst f)"] store_inv_used [of s]
    store_inv_empty [of "s\<lparr>st_files := []\<rparr>"] store_inv_empty [of "s\<lparr>st_files := [], st_used := 0\<rparr>"]
  by (auto simp: Clear_def Let_def store_ok_def store_inv_def [of s])

lemma Clear_exact: "fst (Clear io s) = Inr r \<Longrightarrow> store_exact (snd (Clear io s))"
  by (auto simp: Clear_def Let_def store_exact_def total_size_def split: if_splits)

lemma New_inv:
  assumes "New io root key [] = Inr s"
  shows "store_inv s" "store_exact s" "st_files s = []"
  using assms
  by (auto simp: New_def scanUsed_def store_inv_def store_sound_def store_ok_def store_exact_def
      total_size_def split: if_splits)

subsection \<open>The store as a map from digests to contents\<close>

text \<open>
  The contract a node relies on: contents are found under their own digest and nowhere
  else, an insertion or a deletion touches one digest, and the invariant is kept.
\<close>

locale content_store =
  fixes get :: "'s \<Rightarrow> string \<Rightarrow> bytes option"
    and ins :: "bytes \<Rightarrow> 's \<Rightarrow> 's"
    and del :: "string \<Rightarrow> 's \<Rightarrow> 's"
    and inv :: "'s \<Rightarrow> bool"
    and key :: "string \<Rightarrow> string"
  assumes inv_ins: "inv s \<Longrightarrow> inv (ins d s)"
    and inv_del: "inv s \<Longrightarrow> inv (del h s)"
    and get_ins: "inv s \<Longrightarrow> get (ins d s) h = (if key h = key (hashData d) then Some d else get s h)"
    and get_del: "inv s \<Longrightarrow> get (del h s) h' = (if key h' = key h then None else get s h')"
    and get_sound: "inv s \<Longrightarrow> get s h = Some d \<Longrightarrow> key h = key (hashData d)"
begin

text \<open>An insertion (\<open>Inl\<close>) or a deletion (\<open>Inr\<close>), on the store and on a plain map.\<close>

definition step :: "bytes + string \<Rightarrow> 's \<Rightarrow> 's" where
  "step op s = (case op of Inl d \<Rightarrow> ins d s | Inr h \<Rightarrow> del h s)"

definition spec_step :: "bytes + string \<Rightarrow> (string \<rightharpoonup> bytes) \<Rightarrow> (string \<rightharpoonup> bytes)" where
  "spec_step op m = (case op of Inl d \<Rightarrow> m(key (hashData d) \<mapsto> d) | Inr h \<Rightarrow> m(key h := None))"

lemma step_simulates:
  assumes "inv s" and "\<forall>h. get s h = m (key h)"
  shows "inv (step op s)" "\<forall>h. get (step op s) h = spec_step op m (key h)"
  using assms by (auto simp: step_def spec_step_def inv_ins inv_del get_ins get_del split: sum.split)

lemma run_simulates:
  "inv s \<Longrightarrow> \<forall>h. get s h = m (key h) \<Longrightarrow>
     inv (fold step ops s) \<and> (\<forall>h. get (fold step ops s) h = fold spec_step ops m (key h))"
proof (induction ops arbitrary: s m)
  case (Cons op ops)
  from Cons.IH [OF step_simulates [OF Cons.prems]] show ?case by simp
qed simp

lemma ins_idem: "inv s \<Longrightarrow> get (ins d (ins d s)) h = get (ins d s) h"
  by (simp add: get_ins inv_ins)

lemma ins_absorbs:
  "inv s \<Longrightarrow> get s (hashData d) = Some d \<Longrightarrow> key h = key (hashData d) \<longrightarrow> get s h = Some d \<Longrightarrow>
     get (ins d s) h = get s h"
  by (simp add: get_ins)

end

definition blob :: "Store \<Rightarrow> string \<Rightarrow> bytes option" where
  "blob s h = (case Open (healthy (\<lambda>_. 0)) s h of Inr d \<Rightarrow> Some d | Inl _ \<Rightarrow> None)"

lemma blob_alt:
  "blob s h = (case Path s h of Inl _ \<Rightarrow> None
     | Inr p \<Rightarrow> (case map_of (st_files s) p of None \<Rightarrow> None | Some c \<Rightarrow> stored (st_aead s) c))"
  by (auto simp: blob_def Open_def stored_def split: sum.split option.split)

lemma blob_digest:
  assumes "digest h = digest h'"
  shows "blob s h = blob s h'"
proof (cases "Path s h")
  case (Inr p)
  then have "Path s h' = Inr p" by (rule Path_digest_cong [OF assms])
  with Inr show ?thesis by (simp add: blob_alt)
next
  case (Inl e)
  then have "Path s h' \<noteq> Inr q" for q
    using Path_digest_cong [OF assms [symmetric], of s q] by auto
  then obtain e' where "Path s h' = Inl e'" by (cases "Path s h'") blast+
  with Inl show ?thesis by (simp add: blob_alt)
qed

lemma Open_blob: "Open io s h = Inr d \<Longrightarrow> blob s h = Some d"
  by (auto simp: blob_alt Open_def stored_def split: sum.splits option.splits if_splits)

lemma blob_Open: "blob s h = Some d \<Longrightarrow> io_ok io 0 \<Longrightarrow> io_ok io 1 \<Longrightarrow> Open io s h = Inr d"
  by (auto simp: blob_alt Open_def stored_def split: sum.splits option.splits if_splits)

lemma blob_chunk_files:
  "blob s h = (case Path s h of Inl _ \<Rightarrow> None
     | Inr p \<Rightarrow> (case map_of (chunk_files (st_files s)) p of None \<Rightarrow> None
                | Some c \<Rightarrow> stored (st_aead s) c))"
  by (simp add: blob_alt map_of_chunk_files Path_chunk_suffix split: sum.split)

lemma same_chunks_blob: "same_chunks s s' \<Longrightarrow> blob s' h = blob s h"
  using Path_cong [of s' s] by (simp add: blob_chunk_files same_chunks_def split: sum.split option.split)

lemma put_effect_blob:
  assumes "store_inv s" and "Path s (hashData d) = Inr p" and "stored (st_aead s) c = Some d"
  shows "blob (put_effect s p c d) h = (if digest h = digest (hashData d) then Some d else blob s h)"
proof -
  note fields = put_effect_fields [OF assms(1,2)]
  have "Path (put_effect s p c d) h = Path s h" by (rule Path_cong) (rule fields(1))
  moreover have "digest h = digest (hashData d) \<longleftrightarrow> Path s h = Inr p"
    using Path_digest_cong [of "hashData d" h s p] Path_inj [of s h p "hashData d"] assms(2) by auto
  ultimately show ?thesis
    using assms(3) by (auto simp: blob_chunk_files fields map_of_fs_remove
        split: sum.split option.split)
qed

lemma Put_blob:
  assumes "store_inv s" and "Put io s h r = (Inr n, s')"
  shows "blob s' h' = (if digest h' = digest h then Some (rd_bytes r) else blob s h')"
proof -
  have "store_ok s" using assms(1) by (simp add: store_inv_def)
  from Put_Inr [OF assms(2) this] show ?thesis
  proof cases
    case (1 p c)
    with put_effect_blob [OF assms(1), of "rd_bytes r" p c h'] show ?thesis by simp
  qed
qed

lemma Delete_blob:
  assumes "fst (Delete io s h) = Inr ()"
  shows "blob (snd (Delete io s h)) h' = (if digest h' = digest h then None else blob s h')"
proof (cases "Path s h")
  case (Inl e)
  with assms show ?thesis by (simp add: Delete_def)
next
  case (Inr p)
  have same: "digest h' = digest h \<longleftrightarrow> Path s h' = Inr p"
    using Path_digest_cong [of h h' s p] Path_inj [of s h' p h] Inr by auto
  show ?thesis
  proof (cases "map_of (st_files s) p")
    case None
    then have "snd (Delete io s h) = s" using Inr by (simp add: Delete_def)
    with None same show ?thesis by (auto simp: blob_alt)
  next
    case (Some c)
    then have files: "st_files (snd (Delete io s h)) = fs_remove p (st_files s)"
      and env: "st_root (snd (Delete io s h)) = st_root s" "st_aead (snd (Delete io s h)) = st_aead s"
      using assms Inr by (auto simp: Delete_def addUsed_def Let_def split: if_splits)
    from same show ?thesis
      by (auto simp: blob_alt files env(2) Path_cong [OF env(1)] map_of_fs_remove
          split: sum.split option.split)
  qed
qed

lemma blob_sound:
  assumes "store_inv s" and "blob s h = Some d"
  shows "digest h = digest (hashData d)"
proof -
  from assms(2) obtain p c where p: "Path s h = Inr p" "map_of (chunk_files (st_files s)) p = Some c"
    "stored (st_aead s) c = Some d"
    by (auto simp: blob_chunk_files split: sum.splits option.splits)
  from map_of_SomeD [OF p(2)] assms(1) obtain d' where
    "stored (st_aead s) c = Some d'" "Path s (hashData d') = Inr p"
    by (auto simp: store_inv_def store_sound_def)
  then show ?thesis using Path_inj [OF p(1), of "hashData d"] p(3) by simp
qed

abbreviation insert_chunk :: "(nat \<Rightarrow> byte) \<Rightarrow> bytes \<Rightarrow> Store \<Rightarrow> Store" where
  "insert_chunk rnd d s \<equiv> snd (Put (healthy rnd) s (hashData d) \<lparr>rd_bytes = d, rd_end = EOF\<rparr>)"

abbreviation delete_chunk :: "(nat \<Rightarrow> byte) \<Rightarrow> string \<Rightarrow> Store \<Rightarrow> Store" where
  "delete_chunk rnd h s \<equiv> snd (Delete (healthy rnd) s h)"

lemma Delete_healthy_fst: "fst (Delete (healthy rnd) s h) = Inr () \<or> blob s h = None \<and> snd (Delete (healthy rnd) s h) = s"
  by (auto simp: Delete_def blob_alt split: sum.split option.split)

interpretation disk: content_store blob "insert_chunk rnd" "delete_chunk rnd" store_inv digest for rnd
proof unfold_locales
  fix s d h h'
  assume inv: "store_inv s"
  show "store_inv (insert_chunk rnd d s)" by (rule Put_inv(1) [OF inv])
  show "store_inv (delete_chunk rnd h s)" by (rule Delete_inv(1) [OF inv])
  obtain s' where "Put (healthy rnd) s (hashData d) \<lparr>rd_bytes = d, rd_end = EOF\<rparr> = (Inr (int (length d)), s')"
    using Put_accepts [of "healthy rnd" s d] by auto
  from Put_blob [OF inv this] this
  show "blob (insert_chunk rnd d s) h = (if digest h = digest (hashData d) then Some d else blob s h)"
    by simp
  show "blob (delete_chunk rnd h s) h' = (if digest h' = digest h then None else blob s h')"
    using Delete_healthy_fst [of rnd s h] Delete_blob [of "healthy rnd" s h h'] blob_digest [of h' h s]
    by auto
qed (rule blob_sound)

subsection \<open>Runs of a store\<close>

text \<open>The state-changing operations a node issues, each with the outcomes of its system calls.\<close>

datatype store_op = OpPut io_env string reader | OpDelete io_env string | OpClear io_env

fun store_step :: "store_op \<Rightarrow> Store \<Rightarrow> Store" where
  "store_step (OpPut io h r) s = snd (Put io s h r)"
| "store_step (OpDelete io h) s = snd (Delete io s h)"
| "store_step (OpClear io) s = snd (Clear io s)"

lemma store_step_inv: "store_inv s \<Longrightarrow> store_inv (store_step op s)"
  by (cases op) (simp_all add: Put_inv Delete_inv Clear_inv)

lemma store_run_inv: "store_inv s \<Longrightarrow> store_inv (fold store_step ops s)"
  by (induction ops arbitrary: s) (simp_all add: store_step_inv)

lemma New_run_inv: "New io root key [] = Inr s \<Longrightarrow> store_inv (fold store_step ops s)"
  by (rule store_run_inv) (rule New_inv)

lemma New_healthy:
  "New (healthy rnd) root [] [] = Inr \<lparr>st_root = root, st_aead = None, st_used = 0, st_files = []\<rparr>"
  "length key = 32 \<Longrightarrow> New (healthy rnd) root key [] =
     Inr \<lparr>st_root = root, st_aead = Some (gcm key), st_used = 0, st_files = []\<rparr>"
  by (auto simp: New_def scanUsed_def total_size_def)

subsection \<open>Properties\<close>

text \<open>
  C10: a store opened on an empty directory and driven by any sequence of uploads, deletions
  and wipes, with any of their system calls failing anywhere, never serves bytes under a
  name that is not their SHA-256, and its usage counter never falls below the bytes of
  chunk data on disk.
\<close>

theorem store_integrity:
  assumes "New io root key [] = Inr s0" and "s = fold store_step ops s0"
  shows "(\<forall>io' h d. Open io' s h = Inr d \<longrightarrow> digest h = hex_encode (sha256 d)) \<and>
    total_size (chunk_files (st_files s)) \<le> Used s"
proof -
  have inv: "store_inv s" unfolding assms(2) by (rule New_run_inv [OF assms(1)])
  have "digest h = hex_encode (sha256 d)" if "Open io' s h = Inr d" for io' h d
    using blob_sound [OF inv Open_blob [OF that]] by simp
  with inv show ?thesis by (auto simp: store_inv_def Used_def)
qed

theorem store_integrity_witness:
  "let s0 = \<lparr>st_root = ''/srv'', st_aead = Some (gcm (replicate 32 7)), st_used = 0, st_files = []\<rparr>;
       s = fold store_step [OpPut (healthy (\<lambda>_. 1)) (hashData [1, 2]) \<lparr>rd_bytes = [1, 2], rd_end = EOF\<rparr>] s0
   in Open (healthy (\<lambda>_. 0)) s (hashData [1, 2]) = Inr [1, 2] \<and>
      digest (hashData [1, 2]) = hex_encode (sha256 [1, 2]) \<and>
      total_size (chunk_files (st_files s)) \<le> Used s"
proof -
  let ?s0 = "\<lparr>st_root = ''/srv'', st_aead = Some (gcm (replicate 32 7)), st_used = 0, st_files = []\<rparr>"
  let ?ops = "[OpPut (healthy (\<lambda>_. 1)) (hashData [1, 2]) \<lparr>rd_bytes = [1, 2], rd_end = EOF\<rparr>]"
  have new: "New (healthy (\<lambda>_. 0)) ''/srv'' (replicate 32 7) [] = Inr ?s0"
    by (simp add: New_healthy)
  have "blob (fold store_step ?ops ?s0) (hashData [1, 2]) = Some [1, 2]"
    using disk.get_ins [OF New_inv(1) [OF new], of "\<lambda>_. 1" "[1, 2]" "hashData [1, 2]"] by simp
  then have "Open (healthy (\<lambda>_. 0)) (fold store_step ?ops ?s0) (hashData [1, 2]) = Inr [1, 2]"
    by (rule blob_Open) simp_all
  with store_integrity [OF new refl, of ?ops] show ?thesis
    unfolding Let_def by blast
qed

text \<open>
  C25: uploading a chunk under its own hash and reading it back returns it, encrypted or not,
  and leaves every other chunk as it was.
\<close>

theorem put_open_roundtrip:
  assumes "store_inv s" and "\<And>k. io_ok io k" and "\<And>k. io_ok io' k"
  shows "\<exists>s'. Put io s (hashData d) \<lparr>rd_bytes = d, rd_end = EOF\<rparr> = (Inr (int (length d)), s') \<and>
    Open io' s' (hashData d) = Inr d \<and>
    (\<forall>h. digest h \<noteq> hex_encode (sha256 d) \<longrightarrow> blob s' h = blob s h)"
proof -
  obtain s' where put: "Put io s (hashData d) \<lparr>rd_bytes = d, rd_end = EOF\<rparr> = (Inr (int (length d)), s')"
    using Put_accepts [OF assms(2)] by blast
  note blob = Put_blob [OF assms(1) put]
  have "Open io' s' (hashData d) = Inr d"
    by (rule blob_Open) (simp_all add: blob assms(3))
  with put blob show ?thesis by auto
qed

theorem put_open_roundtrip_witness:
  "\<exists>s'. Put (healthy (\<lambda>_. 0)) \<lparr>st_root = ''/srv'', st_aead = None, st_used = 0, st_files = []\<rparr>
       (hashData [9]) \<lparr>rd_bytes = [9], rd_end = EOF\<rparr> = (Inr 1, s') \<and>
     Open (healthy (\<lambda>_. 0)) s' (hashData [9]) = Inr [9]"
  using put_open_roundtrip [of "\<lparr>st_root = ''/srv'', st_aead = None, st_used = 0, st_files = []\<rparr>"
      "healthy (\<lambda>_. 0)" "healthy (\<lambda>_. 0)" "[9]"] New_inv(1) [OF New_healthy(1), of "''/srv''"]
  by auto

text \<open>
  C26: a failed upload is invisible. Whichever step of it fails, every chunk reads as before
  and the usage counter stands.
\<close>

theorem failed_put_is_invisible:
  assumes "Put io s h r = (Inl e, s')"
  shows "blob s' h' = blob s h' \<and> Used s' = Used s"
  using Put_Inl [OF assms] same_chunks_blob [of s s'] by (simp add: same_chunks_def Used_def)

theorem failed_put_is_invisible_witness:
  "let s = \<lparr>st_root = ''/srv'', st_aead = None, st_used = 0, st_files = []\<rparr>
   in blob (snd (Put (healthy (\<lambda>_. 0)) s ''zz'' \<lparr>rd_bytes = [9], rd_end = EOF\<rparr>)) (hashData [9]) =
        blob s (hashData [9])"
  using failed_put_is_invisible [of "healthy (\<lambda>_. 0)"
      "\<lparr>st_root = ''/srv'', st_aead = None, st_used = 0, st_files = []\<rparr>" "''zz''"
      "\<lparr>rd_bytes = [9], rd_end = EOF\<rparr>" "InvalidHash ''zz''"
      "\<lparr>st_root = ''/srv'', st_aead = None, st_used = 0, st_files = []\<rparr>" "hashData [9]"]
  by (simp add: Put_def putPlain_def Path_def TrimPrefix_def HasPrefix_def from_hex_def Let_def)

text \<open>
  C24: seen through reads, a store that executes uploads and deletions behaves as a plain map
  from digests to contents: each upload binds its content's digest, each deletion unbinds
  the digest of the given name, whatever prefix or cipher is in use.
\<close>

theorem store_refines_map:
  assumes "New io root key [] = Inr s0"
  shows "blob (fold (\<lambda>op s. case op of Inl d \<Rightarrow> insert_chunk rnd d s | Inr h \<Rightarrow> delete_chunk rnd h s) ops s0) h =
    fold (\<lambda>op m. case op of Inl d \<Rightarrow> m(digest (hashData d) \<mapsto> d) | Inr h \<Rightarrow> m(digest h := None)) ops Map.empty
      (digest h)"
proof -
  have "\<forall>h. blob s0 h = Map.empty (digest h)"
    using New_inv(3) [OF assms] by (simp add: blob_alt split: sum.split)
  from disk.run_simulates [OF New_inv(1) [OF assms] this, of rnd ops] show ?thesis
    by (simp add: disk.step_def [abs_def] disk.spec_step_def [abs_def] del: digest_hashData)
qed

theorem store_refines_map_witness:
  "blob (fold (\<lambda>op s. case op of Inl d \<Rightarrow> insert_chunk (\<lambda>_. 0) d s | Inr h \<Rightarrow> delete_chunk (\<lambda>_. 0) h s)
      [Inl [1], Inr (hashData [1])] \<lparr>st_root = ''/srv'', st_aead = None, st_used = 0, st_files = []\<rparr>)
    (hashData [1]) = None"
  using store_refines_map [OF New_healthy(1), of "\<lambda>_. 0" "[Inl [1], Inr (hashData [1])]" "''/srv''"
      "hashData [1]"]
  by simp

end
