(* ===== verification/Node.thy ===== *)
theory Node
  imports ChunkStore Auth
begin

text \<open>
  A storage node (\<^verbatim>\<open>cmd/backup-node/main.go\<close>): its chunk store, the capacity it reserves and
  the token it expects. The handlers are the closures \<^verbatim>\<open>putChunk\<close>, \<^verbatim>\<open>getChunk\<close>, \<^verbatim>\<open>deleteChunk\<close>
  and \<^verbatim>\<open>clearStorage\<close>, dispatched by the \<^verbatim>\<open>http.ServeMux\<close> patterns of \<^verbatim>\<open>main\<close> behind the
  token middleware. The patterns have no wildcard named \<^verbatim>\<open>*\<close>, so \<^verbatim>\<open>PathValue("*")\<close> is empty
  and the hash is the path behind \<^verbatim>\<open>/chunks/\<close>.
\<close>

record Node =
  nd_store :: Store
  nd_capacity :: int
  nd_token :: string

text \<open>A request body: the announced length (\<open>-1\<close> when unknown) and the bytes.\<close>

record node_body =
  nb_contentLength :: int
  nb_reader :: reader

datatype node_reply =
    NodeError string
  | StoreError store_error
  | Unauthorized
  | ChunkStored string int
  | ChunkData bytes
  | NodeRedirect string
  | NodeStatus string
  | StorageCleared int int

type_synonym node_handler = "(node_body, node_reply, Node) handler"

definition nodeRegisterRequest :: "Store \<Rightarrow> string \<Rightarrow> string \<Rightarrow> int \<Rightarrow> NodeRegisterRequest" where
  "nodeRegisterRequest store nodeID publicAddr capacity =
     (let used = Used store;
          free = capacity - used;
          free = (if free < 0 then 0 else free)
      in \<lparr>rr_id = nodeID, rr_address = publicAddr, rr_capacity = capacity, rr_free = free\<rparr>)"

definition chunk_path_hash :: "string \<Rightarrow> string" where
  "chunk_path_hash path = drop (length ''/chunks/'') path"

definition putChunk :: "io_env \<Rightarrow> node_handler" where
  "putChunk io r n =
     (let hash = chunk_path_hash (rq_path r);
          contentLength = nb_contentLength (rq_body r)
      in if contentLength > 0 \<and> wrap64 (Used (nd_store n) + contentLength) > nd_capacity n
         then (respond StatusInsufficientStorage (NodeError ''not enough reserved storage capacity''), n)
         else case Put io (nd_store n) hash (nb_reader (rq_body r)) of
             (Inl e, s) \<Rightarrow> (respond StatusBadRequest (StoreError e), n\<lparr>nd_store := s\<rparr>)
           | (Inr sz, s) \<Rightarrow> (respond StatusCreated (ChunkStored hash sz), n\<lparr>nd_store := s\<rparr>))"

text \<open>
  Errors while the body is being sent are dropped (\<^verbatim>\<open>_, _ = io.Copy(w, f)\<close>): an unencrypted
  file whose reading fails half way (call 2) is a short body under status 200.
\<close>

definition getChunk :: "io_env \<Rightarrow> node_handler" where
  "getChunk io r n =
     (let hash = chunk_path_hash (rq_path r) in
      case Open io (nd_store n) hash of
        Inl NotExist \<Rightarrow> (respond StatusNotFound (NodeError ''chunk not found''), n)
      | Inl e \<Rightarrow> (respond StatusBadRequest (StoreError e), n)
      | Inr d \<Rightarrow>
          (respond StatusOK
             (ChunkData (if \<not> Encrypted (nd_store n) \<and> \<not> io_ok io 2 then take (io_short io) d else d)), n))"

definition deleteChunk :: "io_env \<Rightarrow> node_handler" where
  "deleteChunk io r n =
     (let hash = chunk_path_hash (rq_path r) in
      case Delete io (nd_store n) hash of
        (Inl e, s) \<Rightarrow> (respond StatusBadRequest (StoreError e), n\<lparr>nd_store := s\<rparr>)
      | (Inr _, s) \<Rightarrow> (respond StatusOK (NodeStatus ''deleted''), n\<lparr>nd_store := s\<rparr>))"

definition clearStorage :: "io_env \<Rightarrow> node_handler" where
  "clearStorage io r n =
     (if query_get (rq_query r) ''confirm'' \<noteq> ''delete-all-chunks''
      then (respond StatusBadRequest (NodeError ''confirm=delete-all-chunks is required''), n)
      else case Clear io (nd_store n) of
          (Inl e, s) \<Rightarrow> (respond StatusInternalServerError (StoreError e), n\<lparr>nd_store := s\<rparr>)
        | (Inr (files, bytes), s) \<Rightarrow>
            (respond StatusOK (StorageCleared files bytes), n\<lparr>nd_store := s\<rparr>))"

text \<open>
  A \<^verbatim>\<open>GET\<close> pattern also serves \<^verbatim>\<open>HEAD\<close>; a path that lacks only the final slash of a pattern is
  redirected; a path with a pattern for other methods only is answered with 405.
\<close>

definition node_mux :: "io_env \<Rightarrow> node_handler" where
  "node_mux io r n =
     (let m = rq_method r; path = rq_path r; get = (m = ''GET'' \<or> m = ''HEAD'') in
      if path = ''/health'' then
        (if get then (respond StatusOK (NodeStatus ''ok''), n)
         else (respond StatusMethodNotAllowed (NodeError ''Method Not Allowed''), n))
      else if HasPrefix path ''/chunks/'' then
        (if m = ''PUT'' then putChunk io r n
         else if get then getChunk io r n
         else if m = ''DELETE'' then deleteChunk io r n
         else (respond StatusMethodNotAllowed (NodeError ''Method Not Allowed''), n))
      else if path = ''/chunks'' then
        (if m = ''PUT'' \<or> get \<or> m = ''DELETE'' then (respond StatusMovedPermanently (NodeRedirect ''/chunks/''), n)
         else (respond StatusMethodNotAllowed (NodeError ''Method Not Allowed''), n))
      else if path = ''/storage'' then
        (if m = ''DELETE'' then clearStorage io r n
         else (respond StatusMethodNotAllowed (NodeError ''Method Not Allowed''), n))
      else (respond StatusNotFound (NodeError ''404 page not found''), n))"

definition node_public :: "'b Request \<Rightarrow> bool" where
  "node_public r \<longleftrightarrow> rq_method r = ''GET'' \<and> rq_path r = ''/health''"

definition node_handler :: "io_env \<Rightarrow> node_handler" where
  "node_handler io r n = Middleware (nd_token n) (Some node_public) Unauthorized (node_mux io) r n"

subsection \<open>The node keeps its store well formed\<close>

definition node_inv :: "Node \<Rightarrow> bool" where
  "node_inv n \<longleftrightarrow> store_inv (nd_store n)"

lemma putChunk_state:
  "snd (putChunk io r n) =
     (if nb_contentLength (rq_body r) > 0 \<and>
         wrap64 (Used (nd_store n) + nb_contentLength (rq_body r)) > nd_capacity n then n
      else n\<lparr>nd_store := snd (Put io (nd_store n) (chunk_path_hash (rq_path r)) (nb_reader (rq_body r)))\<rparr>)"
  by (auto simp: putChunk_def Let_def split: prod.split sum.split)

lemma getChunk_state [simp]: "snd (getChunk io r n) = n"
  by (auto simp: getChunk_def Let_def split: sum.split store_error.split)

lemma deleteChunk_state:
  "snd (deleteChunk io r n) = n\<lparr>nd_store := snd (Delete io (nd_store n) (chunk_path_hash (rq_path r)))\<rparr>"
  by (auto simp: deleteChunk_def Let_def split: prod.split sum.split)

lemma clearStorage_state:
  "snd (clearStorage io r n) =
     (if query_get (rq_query r) ''confirm'' \<noteq> ''delete-all-chunks'' then n
      else n\<lparr>nd_store := snd (Clear io (nd_store n))\<rparr>)"
  by (auto simp: clearStorage_def split: prod.split sum.split)

lemmas node_states = putChunk_state deleteChunk_state clearStorage_state

lemma node_handlers_inv:
  assumes "node_inv n"
  shows "node_inv (snd (putChunk io r n))" "node_inv (snd (deleteChunk io r n))"
    "node_inv (snd (clearStorage io r n))"
  using assms by (simp_all add: node_states node_inv_def Put_inv Delete_inv Clear_inv)

lemma node_mux_inv: "node_inv n \<Longrightarrow> node_inv (snd (node_mux io r n))"
  by (simp add: node_mux_def Let_def node_handlers_inv)

lemma node_handler_inv: "node_inv n \<Longrightarrow> node_inv (snd (node_handler io r n))"
  by (simp add: node_handler_def Middleware_def node_mux_inv split: option.split)

lemma node_handler_env:
  "nd_capacity (snd (node_handler io r n)) = nd_capacity n"
  "nd_token (snd (node_handler io r n)) = nd_token n"
  by (simp_all add: node_handler_def Middleware_def node_mux_def node_states Let_def
      split: option.split)

end
