(* ===== verification/Rounding.thy ===== *)
theory Rounding
  imports Complex_Main
begin

text \<open>
  Go's \<^verbatim>\<open>float64\<close> as far as the program computes with it: the value is the rational number it stands for, and
  each operation rounds its exact result to 53 significant bits, to the nearest and in a tie to the even one.
  The numbers involved are sizes, quotients of sizes and percentages, so they stay far away from both
  ends of the range of exponents. \<^verbatim>\<open>%.0f\<close> and \<^verbatim>\<open>%.1f\<close> round the exact value in the same way.
\<close>

definition round_even :: "rat \<Rightarrow> int" where
  "round_even q =
     (let n = \<lfloor>q\<rfloor>; r = q - of_int n in
      if r < 1 / 2 then n else if r > 1 / 2 then n + 1 else if even n then n else n + 1)"

function bit_count :: "int \<Rightarrow> nat" where
  "bit_count n = (if n \<le> 0 then 0 else Suc (bit_count (n div 2)))"
  by pat_completeness auto
termination
  by (relation "measure nat") auto

declare bit_count.simps [simp del]

definition pow2 :: "int \<Rightarrow> rat" where
  "pow2 e = (if 0 \<le> e then 2 ^ nat e else 1 / 2 ^ nat (- e))"

text \<open>The exponent that leaves 53 bits before the point.\<close>

definition exponent53 :: "rat \<Rightarrow> int" where
  "exponent53 q =
     (case quotient_of q of (n, d) \<Rightarrow>
        let e = int (bit_count n) - int (bit_count d) - 53
        in if 2 ^ 53 * pow2 e \<le> q then e + 1 else e)"

definition round64 :: "rat \<Rightarrow> rat" where
  "round64 q =
     (if q = 0 then 0
      else if q < 0 then - (of_int (round_even (- q / pow2 (exponent53 (- q)))) * pow2 (exponent53 (- q)))
      else of_int (round_even (q / pow2 (exponent53 q))) * pow2 (exponent53 q))"

text \<open>\<^verbatim>\<open>float64(n)\<close> of an \<^verbatim>\<open>int64\<close>\<close>

definition to_float64 :: "int \<Rightarrow> rat" where
  "to_float64 n = round64 (of_int n)"

subsection \<open>What rounding does\<close>

lemma round_even_int [simp]: "round_even (of_int n) = n"
  by (simp add: round_even_def Let_def)

lemma round_even_near: "\<bar>of_int (round_even q) - q\<bar> \<le> 1 / 2"
proof -
  define r where "r = q - of_int \<lfloor>q\<rfloor>"
  have "0 \<le> r" "r < 1" unfolding r_def by linarith+
  moreover have "q = of_int \<lfloor>q\<rfloor> + r" by (simp add: r_def)
  ultimately show ?thesis unfolding round_even_def Let_def r_def [symmetric] by (auto simp: abs_if)
qed

lemma round_even_mono:
  assumes "p \<le> q" shows "round_even p \<le> round_even q"
proof (cases "\<lfloor>p\<rfloor> = \<lfloor>q\<rfloor>")
  case True
  with assms show ?thesis by (auto simp: round_even_def Let_def)
next
  case False
  with floor_mono [OF assms] have "\<lfloor>p\<rfloor> + 1 \<le> \<lfloor>q\<rfloor>" by simp
  then show ?thesis by (auto simp: round_even_def Let_def)
qed

lemma pow2_pos [simp]: "0 < pow2 e"
  by (simp add: pow2_def)

lemma pow2_nat: "pow2 (int k) = 2 ^ k"
  by (simp add: pow2_def)

lemma pow2_add: "pow2 (a + b) = pow2 a * pow2 b"
proof -
  have "pow2 e = 2 powi e" for e by (simp add: pow2_def power_int_def field_simps)
  then show ?thesis by (simp add: power_int_add)
qed

lemma bit_count_bounds: "0 < n \<Longrightarrow> 2 ^ (bit_count n - 1) \<le> n \<and> n < 2 ^ bit_count n \<and> 0 < bit_count n"
proof (induction n rule: bit_count.induct)
  case (1 n)
  show ?case
  proof (cases "n div 2 \<le> 0")
    case True
    then have "n = 1" using 1(2) by simp
    then show ?thesis by (simp add: bit_count.simps)
  next
    case False
    then have "0 < n div 2" by simp
    with 1(1,2) have ih: "2 ^ (bit_count (n div 2) - 1) \<le> n div 2" "n div 2 < 2 ^ bit_count (n div 2)" "0 < bit_count (n div 2)"
      by auto
    then obtain k where k: "bit_count (n div 2) = Suc k" by (cases "bit_count (n div 2)") auto
    from 1(2) have "bit_count n = Suc (Suc k)" using k by (simp add: bit_count.simps [of n])
    moreover have "2 * 2 ^ k \<le> n" "n < 4 * 2 ^ k" using ih(1,2) k by auto
    ultimately show ?thesis by simp
  qed
qed

text \<open>The scaled value has 53 bits before the point.\<close>

lemma exponent53:
  assumes "0 < q"
  shows "2 ^ 52 * pow2 (exponent53 q) \<le> q" and "q < 2 ^ 53 * pow2 (exponent53 q)"
proof -
  obtain n d where nd: "quotient_of q = (n, d)" by (cases "quotient_of q")
  then have q: "q = of_int n / of_int d" and d: "0 < d" by (auto dest: quotient_of_div quotient_of_denom_pos)
  with assms have n: "0 < n" by (simp add: zero_less_divide_iff)
  define a where "a = bit_count n"
  define b where "b = bit_count d"
  have a: "2 ^ (a - 1) \<le> n" "n < 2 ^ a" "0 < a" and b: "2 ^ (b - 1) \<le> d" "d < 2 ^ b" "0 < b"
    using bit_count_bounds [of n] bit_count_bounds [of d] n d by (simp_all add: a_def b_def)
  have p: "2 ^ k = 2 * (2 ^ (k - 1) :: rat)" if "0 < k" for k using that by (cases k) simp_all
  have N: "2 ^ a \<le> 2 * (of_int n :: rat)" "of_int n < (2 ^ a :: rat)"
  proof -
    have "(of_int (2 ^ (a - 1)) :: rat) \<le> of_int n" "(of_int n :: rat) < of_int (2 ^ a)"
      using a(1,2) by (simp_all only: of_int_le_iff of_int_less_iff)
    with p [OF a(3)] show "2 ^ a \<le> 2 * (of_int n :: rat)" "of_int n < (2 ^ a :: rat)" by simp_all
  qed
  have D: "2 ^ b \<le> 2 * (of_int d :: rat)" "of_int d < (2 ^ b :: rat)"
  proof -
    have "(of_int (2 ^ (b - 1)) :: rat) \<le> of_int d" "(of_int d :: rat) < of_int (2 ^ b)"
      using b(1,2) by (simp_all only: of_int_le_iff of_int_less_iff)
    with p [OF b(3)] show "2 ^ b \<le> 2 * (of_int d :: rat)" "of_int d < (2 ^ b :: rat)" by simp_all
  qed
  define e where "e = int a - int b - 53"
  have e: "pow2 e * 2 ^ 53 * 2 ^ b = 2 ^ a"
  proof -
    have "pow2 e * pow2 53 * pow2 (int b) = pow2 (int a)" by (simp add: e_def flip: pow2_add)
    then show ?thesis using pow2_nat [of 53] by (simp add: pow2_nat)
  qed
  define t where "t = pow2 e * 2 ^ 53"
  have e: "t * 2 ^ b = 2 ^ a" and t: "0 < t" using e by (simp_all add: t_def)
  have "t * of_int d \<le> t * 2 ^ b" "t * 2 ^ b \<le> t * (2 * of_int d)" using D t by simp_all
  moreover have "t * of_int d < t * 2 ^ b" using D t by simp
  ultimately have "t * of_int d \<le> 2 * of_int n" "of_int n < 2 * t * of_int d" using N e by linarith+
  then have lo: "2 ^ 53 * pow2 e \<le> 2 * q" and hi: "q < 2 * (2 ^ 53 * pow2 e)"
    using d by (simp_all add: q t_def field_simps)
  have x: "exponent53 q = (if 2 ^ 53 * pow2 e \<le> q then e + 1 else e)"
    by (simp add: exponent53_def nd Let_def e_def a_def b_def)
  show "2 ^ 52 * pow2 (exponent53 q) \<le> q" "q < 2 ^ 53 * pow2 (exponent53 q)"
    using lo hi pow2_add [of e 1] by (auto simp: x pow2_def [of 1])
qed


lemma round64_pos:
  "0 < q \<Longrightarrow> round64 q = of_int (round_even (q / pow2 (exponent53 q))) * pow2 (exponent53 q)"
  by (simp add: round64_def)

text \<open>The error is at most one part in \<open>2\<^sup>5\<^sup>3\<close>, and whole numbers of up to 53 bits are kept.\<close>

lemma round64_error:
  assumes "0 \<le> q" shows "\<bar>round64 q - q\<bar> \<le> q / 2 ^ 53"
proof (cases "q = 0")
  case False
  with assms have q: "0 < q" by simp
  let ?p = "pow2 (exponent53 q)"
  have p: "0 < ?p" by simp
  have "round64 q - q = (of_int (round_even (q / ?p)) - q / ?p) * ?p" using less_imp_neq [OF p] by (simp add: round64_pos [OF q] left_diff_distrib)
  then have "\<bar>round64 q - q\<bar> = \<bar>of_int (round_even (q / ?p)) - q / ?p\<bar> * ?p" by (simp add: abs_mult abs_of_pos [OF p])
  also have "\<dots> \<le> 1 / 2 * ?p" by (rule mult_right_mono [OF round_even_near]) (simp add: less_imp_le)
  also have "\<dots> \<le> q / 2 ^ 53" using exponent53(1) [OF q] by simp
  finally show ?thesis .
qed (simp add: round64_def)

lemma round64_nonneg [simp]: "0 \<le> q \<Longrightarrow> 0 \<le> round64 q"
proof -
  assume q: "0 \<le> q"
  then have "q / 2 ^ 53 \<le> q" by simp
  with round64_error [OF q] show ?thesis by linarith
qed

lemma to_float64_small:
  assumes "0 \<le> n" and "n < 2 ^ 53" shows "to_float64 n = of_int n"
proof (cases "n = 0")
  case False
  with assms have q: "0 < (of_int n :: rat)" by simp
  let ?e = "exponent53 (of_int n)"
  have "2 ^ 52 * pow2 ?e \<le> (of_int n :: rat)" by (rule exponent53(1) [OF q])
  moreover have "(of_int n :: rat) < 2 ^ 53" using assms(2) by (metis of_int_less_iff of_int_numeral of_int_power)
  ultimately have "pow2 ?e < 2" by simp
  have "?e \<le> 0"
  proof (rule ccontr)
    assume "\<not> ?e \<le> 0"
    then have "pow2 ?e = 2 * 2 ^ (nat ?e - 1)" by (simp add: pow2_def power_eq_if)
    moreover have "1 \<le> (2 :: rat) ^ (nat ?e - 1)" by (rule one_le_power) simp
    ultimately show False using \<open>pow2 ?e < 2\<close> by linarith
  qed
  then obtain k where k: "?e = - int k" by (metis nonpos_int_cases)
  then have "of_int n / pow2 ?e = (of_int (n * 2 ^ k) :: rat)" by (simp add: pow2_def)
  then have "round_even (of_int n / pow2 ?e) = n * 2 ^ k" by (simp only: round_even_int)
  then show ?thesis using q k by (simp add: to_float64_def round64_pos pow2_def)
qed (simp add: to_float64_def round64_def)

subsection \<open>Printing\<close>

text \<open>\<^verbatim>\<open>%.0f\<close> and \<^verbatim>\<open>%.1f\<close> of a value that is not negative, given how a whole number is written\<close>

definition format0 :: "(int \<Rightarrow> string) \<Rightarrow> rat \<Rightarrow> string" where
  "format0 itoa q = itoa (round_even q)"

definition format1 :: "(int \<Rightarrow> string) \<Rightarrow> rat \<Rightarrow> string" where
  "format1 itoa q = (let t = round_even (q * 10) in itoa (t div 10) @ ''.'' @ itoa (t mod 10))"

end
