(* ===== verification/Tables.thy ===== *)
theory Tables
  imports Protocol Rounding
begin

text \<open>
  The metadata database of the server (the schema in \<^verbatim>\<open>internal/server/state.go\<close>): four
  tables as lists of rows, in insertion order. A \<^verbatim>\<open>State\<close> method issues its statements in
  a fixed order; an \<open>engine\<close> says for each of them, by number, whether SQLite executes it,
  so every \<^verbatim>\<open>err != nil\<close> branch is a branch of the model. A violated key makes a statement
  fail as well. A transaction that does not commit leaves the tables as they were. Every
  method reads the clock once; it is an argument in nanoseconds, and a timestamp column
  holds the whole second (\<^verbatim>\<open>time.RFC3339\<close>).
\<close>

type_synonym engine = "nat \<Rightarrow> bool"
type_synonym nanos = int

record FileRow =
  fr_id :: string
  fr_name :: string
  fr_backupName :: string
  fr_version :: int
  fr_retention :: int
  fr_size :: int
  fr_chunkSize :: int
  fr_replication :: int
  fr_dedupNew :: int
  fr_dedupReused :: int
  fr_createdAt :: seconds

record ChunkRow =
  ck_fileID :: string
  ck_index :: int
  ck_hash :: string
  ck_size :: int

record LocRow =
  lo_hash :: string
  lo_nodeID :: string
  lo_size :: int
  lo_verifiedAt :: seconds

record Db =
  db_nodes :: "NodeInfo list"
  db_files :: "FileRow list"
  db_fileChunks :: "ChunkRow list"
  db_locations :: "LocRow list"

definition emptyDb :: Db where
  "emptyDb = \<lparr>db_nodes = [], db_files = [], db_fileChunks = [], db_locations = []\<rparr>"

text \<open>\<^verbatim>\<open>time.Now().UTC().Format(time.RFC3339)\<close>, and the oldest timestamp that counts as alive.\<close>

definition nodeOfflineAfter :: nanos where
  "nodeOfflineAfter = 45 * 10 ^ 9"

definition rfc3339 :: "nanos \<Rightarrow> seconds" where
  "rfc3339 now = now div 10 ^ 9"

definition cutoff :: "nanos \<Rightarrow> seconds" where
  "cutoff now = rfc3339 (now - nodeOfflineAfter)"

definition withDerivedStatus :: "nanos \<Rightarrow> NodeInfo \<Rightarrow> NodeInfo" where
  "withDerivedStatus now node =
     (if now - ni_lastSeen node * 10 ^ 9 > nodeOfflineAfter then node\<lparr>ni_status := ''offline''\<rparr> else node)"

definition onlineNodes :: "NodeInfo list \<Rightarrow> NodeInfo list" where
  "onlineNodes nodes = filter (\<lambda>n. ni_status n = ''online'') nodes"

definition normalizedReplication :: "int \<Rightarrow> int" where
  "normalizedReplication replication = (if replication \<le> 0 then 3 else replication)"

definition normalizedRetention :: "int \<Rightarrow> int" where
  "normalizedRetention retention = (if retention < 0 then 0 else retention)"

definition dedupRatio :: "int \<Rightarrow> int \<Rightarrow> rat" where
  "dedupRatio reusedBytes totalBytes =
     (if reusedBytes \<le> 0 \<or> totalBytes \<le> 0 then 0
      else round64 (to_float64 reusedBytes / to_float64 totalBytes))"

lemma withDerivedStatus_sel [simp]:
  "ni_id (withDerivedStatus now n) = ni_id n" "ni_address (withDerivedStatus now n) = ni_address n"
  "ni_capacity (withDerivedStatus now n) = ni_capacity n" "ni_free (withDerivedStatus now n) = ni_free n"
  "ni_lastSeen (withDerivedStatus now n) = ni_lastSeen n"
  by (simp_all add: withDerivedStatus_def)

lemma normalizedReplication_pos [simp]: "0 < normalizedReplication r"
  by (simp add: normalizedReplication_def)

lemma normalizedRetention_nonneg [simp]: "0 \<le> normalizedRetention r"
  by (simp add: normalizedRetention_def)

text \<open>
  The two notions of a live node. SQL compares texts of whole seconds, the derived status
  compares nanoseconds: a node the status calls online is alive for SQL, and the converse
  fails only in the second in which the limit is reached.
\<close>

definition alive :: "nanos \<Rightarrow> NodeInfo \<Rightarrow> bool" where
  "alive now n \<longleftrightarrow> cutoff now \<le> ni_lastSeen n"

lemma online_alive:
  "ni_status (withDerivedStatus now n) = ''online'' \<Longrightarrow> alive now n"
  by (auto simp: alive_def withDerivedStatus_def cutoff_def rfc3339_def nodeOfflineAfter_def split: if_splits)

lemma alive_online:
  "alive now n \<Longrightarrow> ni_status n = ''online'' \<Longrightarrow> now mod 10 ^ 9 = 0 \<Longrightarrow>
     ni_status (withDerivedStatus now n) = ''online''"
  by (auto simp: alive_def withDerivedStatus_def cutoff_def rfc3339_def nodeOfflineAfter_def)

subsection \<open>Well-formed tables\<close>

text \<open>
  The primary keys, the two foreign keys, the ranges \<^verbatim>\<open>CreateFile\<close> normalises to, and what
  the program adds to the schema: within a backup name no version is used twice.
\<close>

definition keys_ok :: "Db \<Rightarrow> bool" where
  "keys_ok db \<longleftrightarrow>
     distinct (map ni_id (db_nodes db)) \<and>
     distinct (map fr_id (db_files db)) \<and>
     distinct (map (\<lambda>c. (ck_fileID c, ck_index c)) (db_fileChunks db)) \<and>
     distinct (map (\<lambda>l. (lo_hash l, lo_nodeID l)) (db_locations db))"

definition refs_ok :: "Db \<Rightarrow> bool" where
  "refs_ok db \<longleftrightarrow>
     (\<forall>c \<in> set (db_fileChunks db). ck_fileID c \<in> fr_id ` set (db_files db)) \<and>
     (\<forall>l \<in> set (db_locations db). lo_nodeID l \<in> ni_id ` set (db_nodes db))"

definition files_ok :: "Db \<Rightarrow> bool" where
  "files_ok db \<longleftrightarrow>
     (\<forall>f \<in> set (db_files db). 0 < fr_replication f \<and> 0 \<le> fr_retention f \<and> 1 \<le> fr_version f) \<and>
     distinct (map (\<lambda>f. (fr_backupName f, fr_version f)) (db_files db))"

definition nodes_ok :: "Db \<Rightarrow> bool" where
  "nodes_ok db \<longleftrightarrow> (\<forall>n \<in> set (db_nodes db). ni_status n = ''online'')"

definition db_wf :: "Db \<Rightarrow> bool" where
  "db_wf db \<longleftrightarrow> keys_ok db \<and> refs_ok db \<and> files_ok db \<and> nodes_ok db"

lemmas wf_defs = db_wf_def keys_ok_def refs_ok_def files_ok_def nodes_ok_def

lemma db_wf_empty: "db_wf emptyDb"
  by (simp add: wf_defs emptyDb_def)

lemma distinct_map_filter: "distinct (map f xs) \<Longrightarrow> distinct (map f (filter P xs))"
  by (induction xs) auto

subsection \<open>An example\<close>

text \<open>A small database: two versions of one backup that share a chunk, and two nodes.\<close>

definition demo_node :: "string \<Rightarrow> int \<Rightarrow> NodeInfo" where
  "demo_node nid free = \<lparr>ni_id = nid, ni_address = ''http://'' @ nid, ni_capacity = 100,
     ni_free = free, ni_lastSeen = 1000, ni_status = ''online''\<rparr>"

definition demo_file :: "string \<Rightarrow> int \<Rightarrow> FileRow" where
  "demo_file fid version = \<lparr>fr_id = fid, fr_name = ''disk'', fr_backupName = ''disk'',
     fr_version = version, fr_retention = 1, fr_size = 2, fr_chunkSize = 1, fr_replication = 2,
     fr_dedupNew = 2, fr_dedupReused = 0, fr_createdAt = 900 + version\<rparr>"

definition demo_chunk :: "string \<Rightarrow> int \<Rightarrow> string \<Rightarrow> ChunkRow" where
  "demo_chunk fid i hash = \<lparr>ck_fileID = fid, ck_index = i, ck_hash = hash, ck_size = 1\<rparr>"

definition demo_db :: Db where
  "demo_db = \<lparr>db_nodes = [demo_node ''n1'' 50, demo_node ''n2'' 80],
     db_files = [demo_file ''f1'' 1, demo_file ''f2'' 2],
     db_fileChunks = [demo_chunk ''f1'' 0 ''a'', demo_chunk ''f1'' 1 ''b'',
       demo_chunk ''f2'' 0 ''b'', demo_chunk ''f2'' 1 ''c''],
     db_locations = [\<lparr>lo_hash = ''a'', lo_nodeID = ''n1'', lo_size = 1, lo_verifiedAt = 900\<rparr>,
       \<lparr>lo_hash = ''b'', lo_nodeID = ''n2'', lo_size = 1, lo_verifiedAt = 900\<rparr>]\<rparr>"

lemma demo_wf: "db_wf demo_db"
  by (simp add: wf_defs demo_db_def demo_node_def demo_file_def demo_chunk_def)

end
