(* ===== verification/NodeMeta.thy ===== *)
theory NodeMeta
  imports Tables
begin

text \<open>
  The \<^verbatim>\<open>State\<close> methods on nodes and chunk locations (\<^verbatim>\<open>internal/server/state.go\<close>):
  registration, removal, placement of a chunk, confirmation and removal of a copy.
\<close>

subsection \<open>Nodes\<close>

definition RegisterNode :: "engine \<Rightarrow> nanos \<Rightarrow> NodeRegisterRequest \<Rightarrow> Db \<Rightarrow> NodeInfo \<times> Db" where
  "RegisterNode eng now req db =
     (let node = \<lparr>ni_id = rr_id req, ni_address = rr_address req, ni_capacity = rr_capacity req,
                  ni_free = rr_free req, ni_lastSeen = rfc3339 now, ni_status = ''online''\<rparr>;
          nodes = (if \<exists>n \<in> set (db_nodes db). ni_id n = ni_id node
                   then map (\<lambda>n. if ni_id n = ni_id node then node else n) (db_nodes db)
                   else db_nodes db @ [node])
      in (node, if eng 0 then db\<lparr>db_nodes := nodes\<rparr> else db))"

definition Nodes :: "engine \<Rightarrow> nanos \<Rightarrow> Db \<Rightarrow> NodeInfo list" where
  "Nodes eng now db =
     (if \<not> eng 0 then []
      else map (withDerivedStatus now) (sort_by (\<lambda>a b. ni_id a < ni_id b) (db_nodes db)))"

text \<open>The Go pair of a node and a \<^verbatim>\<open>bool\<close> is an option.\<close>

definition NodeByID :: "engine \<Rightarrow> nanos \<Rightarrow> Db \<Rightarrow> string \<Rightarrow> NodeInfo option" where
  "NodeByID eng now db nid =
     (if \<not> eng 0 then None
      else map_option (withDerivedStatus now) (find (\<lambda>n. ni_id n = nid) (db_nodes db)))"

text \<open>Statements: 0 the lookup, 1 \<^verbatim>\<open>BEGIN\<close>, 2 and 3 the deletions, 4 \<^verbatim>\<open>COMMIT\<close>.\<close>

definition DeleteNode :: "engine \<Rightarrow> nanos \<Rightarrow> string \<Rightarrow> Db \<Rightarrow> (NodeInfo \<times> int) option \<times> Db" where
  "DeleteNode eng now nid db =
     (case NodeByID eng now db nid of
        None \<Rightarrow> (None, db)
      | Some node \<Rightarrow>
          if \<not> eng 1 then (None, db)
          else if \<not> eng 2 then (None, db)
          else
            let removed = filter (\<lambda>l. lo_nodeID l = nid) (db_locations db);
                tx = db\<lparr>db_locations := filter (\<lambda>l. lo_nodeID l \<noteq> nid) (db_locations db)\<rparr>
            in if \<not> eng 3 then (None, db)
               else let tx = tx\<lparr>db_nodes := filter (\<lambda>n. ni_id n \<noteq> nid) (db_nodes tx)\<rparr>
               in if \<not> eng 4 then (None, db)
                  else (Some (node, int (length removed)), tx))"

subsection \<open>Placement\<close>

text \<open>The order of the SQL query, and the order of the \<^verbatim>\<open>sort.Slice\<close> after it.\<close>

definition free_less :: "NodeInfo \<Rightarrow> NodeInfo \<Rightarrow> bool" where
  "free_less a b = (if ni_free a \<noteq> ni_free b then ni_free a > ni_free b else ni_id a < ni_id b)"

definition spread_less :: "(string \<Rightarrow> int) \<Rightarrow> NodeInfo \<Rightarrow> NodeInfo \<Rightarrow> bool" where
  "spread_less selectedCounts a b =
     (let leftCount = selectedCounts (ni_id a); rightCount = selectedCounts (ni_id b) in
      if leftCount \<noteq> rightCount then leftCount < rightCount
      else if ni_free a \<noteq> ni_free b then ni_free a > ni_free b
      else ni_id a < ni_id b)"

definition plan_eligible :: "nanos \<Rightarrow> Db \<Rightarrow> string \<Rightarrow> int \<Rightarrow> NodeInfo \<Rightarrow> bool" where
  "plan_eligible now db hash sz n \<longleftrightarrow>
     cutoff now \<le> ni_lastSeen n \<and> sz \<le> ni_free n \<and>
     ni_id n \<notin> set (map lo_nodeID (filter (\<lambda>l. lo_hash l = hash) (db_locations db)))"

text \<open>A nil map of counts is the map that is 0 everywhere.\<close>

definition PlanChunkSpread ::
  "engine \<Rightarrow> nanos \<Rightarrow> Db \<Rightarrow> string \<Rightarrow> int \<Rightarrow> int \<Rightarrow> (string \<Rightarrow> int) \<Rightarrow> NodeInfo list" where
  "PlanChunkSpread eng now db hash sz replication selectedCounts =
     (let replication = (if replication \<le> 0 then 3 else replication) in
      if \<not> eng 0 then []
      else
        let rows = sort_by free_less (filter (plan_eligible now db hash sz) (db_nodes db));
            nodes = sort_by (spread_less selectedCounts) (map (withDerivedStatus now) rows)
        in if int (length nodes) > replication then take (nat replication) nodes else nodes)"

definition PlanChunk :: "engine \<Rightarrow> nanos \<Rightarrow> Db \<Rightarrow> string \<Rightarrow> int \<Rightarrow> int \<Rightarrow> NodeInfo list" where
  "PlanChunk eng now db hash sz replication = PlanChunkSpread eng now db hash sz replication (\<lambda>_. 0)"

subsection \<open>Copies\<close>

text \<open>Statements: 0 the count, 1 \<^verbatim>\<open>INSERT OR IGNORE\<close>, 2 the update of the node (its error is dropped).\<close>

definition take_space :: "int \<Rightarrow> seconds \<Rightarrow> NodeInfo \<Rightarrow> NodeInfo" where
  "take_space sz t n =
     n\<lparr>ni_free := (if ni_free n - sz < 0 then 0 else ni_free n - sz), ni_lastSeen := t, ni_status := ''online''\<rparr>"

definition ConfirmChunk :: "engine \<Rightarrow> nanos \<Rightarrow> string \<Rightarrow> int \<Rightarrow> string \<Rightarrow> Db \<Rightarrow> unit result \<times> Db" where
  "ConfirmChunk eng now hash sz nodeID db =
     (if \<not> eng 0 then (Inl ''count nodes'', db)
      else if \<not> (\<exists>n \<in> set (db_nodes db). ni_id n = nodeID) then (Inl ''unknown node'', db)
      else if \<not> eng 1 then (Inl ''insert location'', db)
      else if \<exists>l \<in> set (db_locations db). lo_hash l = hash \<and> lo_nodeID l = nodeID then (Inr (), db)
      else
        let now = rfc3339 now;
            row = \<lparr>lo_hash = hash, lo_nodeID = nodeID, lo_size = sz, lo_verifiedAt = now\<rparr>;
            db = db\<lparr>db_locations := db_locations db @ [row]\<rparr>
        in (Inr (),
            if eng 2
            then db\<lparr>db_nodes := map (\<lambda>n. if ni_id n = nodeID then take_space sz now n else n) (db_nodes db)\<rparr>
            else db))"

definition ChunkLocations :: "engine \<Rightarrow> nanos \<Rightarrow> Db \<Rightarrow> string \<Rightarrow> NodeInfo list" where
  "ChunkLocations eng now db hash =
     (if \<not> eng 0 then []
      else map (withDerivedStatus now)
        (sort_by (\<lambda>a b. ni_id a < ni_id b)
          (concat (map (\<lambda>l. filter (\<lambda>n. ni_id n = lo_nodeID l) (db_nodes db))
            (filter (\<lambda>l. lo_hash l = hash) (db_locations db))))))"

definition LocationsSnapshot :: "(string \<Rightarrow> engine) \<Rightarrow> nanos \<Rightarrow> Db \<Rightarrow> string list \<Rightarrow> string \<Rightarrow> NodeInfo list" where
  "LocationsSnapshot eng now db hashes hash =
     (if hash \<in> set hashes then ChunkLocations (eng hash) now db hash else [])"

text \<open>
  Statements: 0 reads the size (an error leaves 0), 1 deletes the location, 2 gives the space
  back (its error is dropped). When statement 1 fails, \<^verbatim>\<open>Exec\<close> returns a nil result and the
  call of \<^verbatim>\<open>RowsAffected\<close> on it panics: the outcome is \<open>None\<close>.
\<close>

definition give_space :: "int \<Rightarrow> NodeInfo \<Rightarrow> NodeInfo" where
  "give_space sz n =
     n\<lparr>ni_free := (if ni_free n + sz > ni_capacity n then ni_capacity n else ni_free n + sz)\<rparr>"

definition RemoveChunkLocation :: "engine \<Rightarrow> string \<Rightarrow> string \<Rightarrow> Db \<Rightarrow> Db option" where
  "RemoveChunkLocation eng hash nodeID db =
     (let row = find (\<lambda>l. lo_hash l = hash \<and> lo_nodeID l = nodeID) (db_locations db);
          sz = (if \<not> eng 0 then 0 else case row of None \<Rightarrow> 0 | Some l \<Rightarrow> lo_size l)
      in if \<not> eng 1 then None
         else
           let db' = db\<lparr>db_locations :=
                 filter (\<lambda>l. \<not> (lo_hash l = hash \<and> lo_nodeID l = nodeID)) (db_locations db)\<rparr>
           in Some (if row \<noteq> None \<and> sz > 0 \<and> eng 2
                    then db'\<lparr>db_nodes := map (\<lambda>n. if ni_id n = nodeID then give_space sz n else n) (db_nodes db')\<rparr>
                    else db'))"

subsection \<open>The orders\<close>

interpretation free: less_order free_less
  by unfold_locales (auto simp: free_less_def split: if_splits)

interpretation spread: less_order "spread_less counts" for counts
  by unfold_locales (auto simp: spread_less_def Let_def split: if_splits)

interpretation by_id: less_order "\<lambda>a b. ni_id a < ni_id (b :: NodeInfo)"
  by unfold_locales auto

lemma spread_less_total: "ni_id a \<noteq> ni_id b \<Longrightarrow> spread_less c a b \<or> spread_less c b a"
  by (auto simp: spread_less_def Let_def)

subsection \<open>Which nodes hold a chunk\<close>

definition holders :: "Db \<Rightarrow> string \<Rightarrow> string set" where
  "holders db hash = lo_nodeID ` {l \<in> set (db_locations db). lo_hash l = hash}"

lemma set_ChunkLocations:
  "eng 0 \<Longrightarrow> set (ChunkLocations eng now db hash) =
     withDerivedStatus now ` {n \<in> set (db_nodes db). ni_id n \<in> holders db hash}"
  by (auto simp: ChunkLocations_def holders_def image_iff)

lemma join_ids_subset:
  "set (map ni_id (concat (map (\<lambda>l. filter (\<lambda>n. ni_id n = lo_nodeID l) ns) ls))) \<subseteq> lo_nodeID ` set ls"
  by auto

lemma distinct_join_ids:
  "distinct (map ni_id ns) \<Longrightarrow> distinct (map lo_nodeID ls) \<Longrightarrow>
     distinct (map ni_id (concat (map (\<lambda>l. filter (\<lambda>n. ni_id n = lo_nodeID l) ns) ls)))"
proof (induction ls)
  case (Cons l ls)
  have "lo_nodeID l \<notin> lo_nodeID ` set ls" using Cons.prems(2) by simp
  with Cons join_ids_subset [of ns ls] show ?case
    by (auto simp: distinct_map_filter)
qed simp

lemma distinct_hash_locations:
  "distinct (map (\<lambda>l. (lo_hash l, lo_nodeID l)) ls) \<Longrightarrow>
     distinct (map lo_nodeID (filter (\<lambda>l. lo_hash l = hash) ls))"
  by (induction ls) (auto simp: image_iff)

lemma distinct_ChunkLocations:
  "keys_ok db \<Longrightarrow> distinct (map ni_id (ChunkLocations eng now db hash))"
  by (simp add: ChunkLocations_def o_def distinct_join_ids distinct_hash_locations keys_ok_def)

subsection \<open>Placement\<close>

lemma PlanChunkSpread_take:
  "eng 0 \<Longrightarrow> PlanChunkSpread eng now db h sz r c =
     take (nat (normalizedReplication r))
       (sort_by (spread_less c) (map (withDerivedStatus now)
          (sort_by free_less (filter (plan_eligible now db h sz) (db_nodes db)))))"
  by (simp add: PlanChunkSpread_def normalizedReplication_def Let_def)

lemma PlanChunkSpread_subset:
  "set (PlanChunkSpread eng now db h sz r c) \<subseteq>
     withDerivedStatus now ` {n \<in> set (db_nodes db). plan_eligible now db h sz n}"
  by (cases "eng 0")
    (auto simp: PlanChunkSpread_take dest!: in_set_takeD, simp add: PlanChunkSpread_def Let_def)

lemma length_PlanChunkSpread:
  "eng 0 \<Longrightarrow> length (PlanChunkSpread eng now db h sz r c) =
     min (nat (normalizedReplication r)) (length (filter (plan_eligible now db h sz) (db_nodes db)))"
  by (simp add: PlanChunkSpread_take)

lemma distinct_PlanChunkSpread:
  "keys_ok db \<Longrightarrow> distinct (map ni_id (PlanChunkSpread eng now db h sz r c))"
  by (cases "eng 0")
    (simp_all add: PlanChunkSpread_take keys_ok_def distinct_map_filter o_def flip: take_map,
     simp add: PlanChunkSpread_def Let_def)

subsection \<open>The operations keep the tables well formed\<close>

lemma RegisterNode_db:
  "snd (RegisterNode eng now req db) = db \<or>
     (\<exists>ns. snd (RegisterNode eng now req db) = db\<lparr>db_nodes := ns\<rparr> \<and>
        (\<forall>n \<in> set ns. ni_status n = ''online'' \<or> n \<in> set (db_nodes db)) \<and>
        (map ni_id ns = map ni_id (db_nodes db) \<or>
         rr_id req \<notin> ni_id ` set (db_nodes db) \<and> map ni_id ns = map ni_id (db_nodes db) @ [rr_id req]))"
proof (cases "eng 0")
  case True
  let ?node = "\<lparr>ni_id = rr_id req, ni_address = rr_address req, ni_capacity = rr_capacity req,
     ni_free = rr_free req, ni_lastSeen = rfc3339 now, ni_status = ''online''\<rparr>"
  let ?new = "map (\<lambda>n. if ni_id n = rr_id req then ?node else n) (db_nodes db)"
  show ?thesis
  proof (cases "\<exists>n \<in> set (db_nodes db). ni_id n = rr_id req")
    case found: True
    have "map ni_id ?new = map ni_id (db_nodes db)" by simp
    moreover have "\<forall>n \<in> set ?new. ni_status n = ''online'' \<or> n \<in> set (db_nodes db)" by auto
    moreover have "snd (RegisterNode eng now req db) = db\<lparr>db_nodes := ?new\<rparr>"
      using True found by (simp add: RegisterNode_def Let_def)
    ultimately show ?thesis by blast
  next
    case False
    then have "snd (RegisterNode eng now req db) = db\<lparr>db_nodes := db_nodes db @ [?node]\<rparr>"
      using True by (simp add: RegisterNode_def Let_def)
    moreover have "rr_id req \<notin> ni_id ` set (db_nodes db)" using False by auto
    ultimately show ?thesis by (intro disjI2 exI [of _ "db_nodes db @ [?node]"]) auto
  qed
qed (simp add: RegisterNode_def Let_def)

lemma wf_change_nodes:
  assumes "db_wf db" and "map ni_id ns = map ni_id (db_nodes db)"
    and "\<forall>n \<in> set ns. ni_status n = ''online''"
  shows "db_wf (db\<lparr>db_nodes := ns\<rparr>)"
proof -
  have "ni_id ` set ns = ni_id ` set (db_nodes db)"
    using assms(2) by (metis set_map)
  with assms show ?thesis by (simp add: wf_defs)
qed

lemma RegisterNode_wf [wf_intros]:
  assumes "db_wf db"
  shows "db_wf (snd (RegisterNode eng now req db))"
  using RegisterNode_db [of eng now req db]
proof (elim disjE exE conjE)
  fix ns
  assume eq: "snd (RegisterNode eng now req db) = db\<lparr>db_nodes := ns\<rparr>"
    and st: "\<forall>n \<in> set ns. ni_status n = ''online'' \<or> n \<in> set (db_nodes db)"
  have on: "\<forall>n \<in> set ns. ni_status n = ''online''" using st assms by (auto simp: wf_defs)
  show ?thesis if "map ni_id ns = map ni_id (db_nodes db)"
    unfolding eq by (rule wf_change_nodes [OF assms that on])
  show ?thesis if new: "rr_id req \<notin> ni_id ` set (db_nodes db)"
    and ids: "map ni_id ns = map ni_id (db_nodes db) @ [rr_id req]"
  proof -
    have "ni_id ` set ns = insert (rr_id req) (ni_id ` set (db_nodes db))"
      using ids by (metis list.set(1) list.set(2) set_append set_map sup_bot_right Un_insert_right)
    with assms new ids on show ?thesis unfolding eq by (simp add: wf_defs)
  qed
qed (simp add: assms)

lemma DeleteNode_db:
  "snd (DeleteNode eng now nid db) = db \<or>
     snd (DeleteNode eng now nid db) =
       db\<lparr>db_locations := filter (\<lambda>l. lo_nodeID l \<noteq> nid) (db_locations db),
          db_nodes := filter (\<lambda>n. ni_id n \<noteq> nid) (db_nodes db)\<rparr>"
  by (auto simp: DeleteNode_def Let_def split: option.split)

lemma image_filter_id:
  "x \<in> ni_id ` {n \<in> A. ni_id n \<noteq> nid} \<longleftrightarrow> x \<in> ni_id ` A \<and> x \<noteq> nid"
  by auto

lemma DeleteNode_wf [wf_intros]:
  assumes "db_wf db"
  shows "db_wf (snd (DeleteNode eng now nid db))"
  using DeleteNode_db [of eng now nid db] assms
  by (auto simp: wf_defs distinct_map_filter image_filter_id)

lemma ConfirmChunk_cases:
  obtains "snd (ConfirmChunk eng now hash sz nid db) = db"
  | ns row where "snd (ConfirmChunk eng now hash sz nid db) =
       db\<lparr>db_locations := db_locations db @ [row], db_nodes := ns\<rparr>"
     "lo_hash row = hash" "lo_nodeID row = nid" "lo_size row = sz"
     "nid \<in> ni_id ` set (db_nodes db)" "nid \<notin> holders db hash"
     "map ni_id ns = map ni_id (db_nodes db)"
     "\<forall>n \<in> set ns. ni_status n = ''online'' \<or> n \<in> set (db_nodes db)"
proof (cases "snd (ConfirmChunk eng now hash sz nid db) = db")
  case False
  show ?thesis
  proof (rule that(2))
    let ?t = "rfc3339 now"
    let ?row = "\<lparr>lo_hash = hash, lo_nodeID = nid, lo_size = sz, lo_verifiedAt = ?t\<rparr>"
    let ?ns = "if eng 2 then map (\<lambda>n. if ni_id n = nid then take_space sz ?t n else n) (db_nodes db) else db_nodes db"
    show "snd (ConfirmChunk eng now hash sz nid db) =
        db\<lparr>db_locations := db_locations db @ [?row], db_nodes := ?ns\<rparr>"
      "nid \<in> ni_id ` set (db_nodes db)" "nid \<notin> holders db hash"
      using False by (auto simp: ConfirmChunk_def holders_def Let_def split: if_splits)
    show "map ni_id ?ns = map ni_id (db_nodes db)"
      by (auto simp: take_space_def)
    show "\<forall>n \<in> set ?ns. ni_status n = ''online'' \<or> n \<in> set (db_nodes db)"
      by (auto simp: take_space_def)
  qed simp_all
qed

lemma ConfirmChunk_wf [wf_intros]:
  assumes "db_wf db"
  shows "db_wf (snd (ConfirmChunk eng now hash sz nid db))"
proof (cases rule: ConfirmChunk_cases [of eng now hash sz nid db])
  case (2 ns row)
  have "db_wf (db\<lparr>db_nodes := ns\<rparr>)"
    by (rule wf_change_nodes) (use assms 2 in \<open>auto simp: wf_defs\<close>)
  moreover have "ni_id ` set ns = ni_id ` set (db_nodes db)"
    using 2 by (metis set_map)
  ultimately show ?thesis
    using 2 by (auto simp: wf_defs holders_def)
qed (simp add: assms)

lemma RemoveChunkLocation_cases:
  assumes "RemoveChunkLocation eng hash nid db = Some db'"
  obtains ns where "db' = db\<lparr>db_locations :=
      filter (\<lambda>l. \<not> (lo_hash l = hash \<and> lo_nodeID l = nid)) (db_locations db), db_nodes := ns\<rparr>"
    "map ni_id ns = map ni_id (db_nodes db)" "map ni_status ns = map ni_status (db_nodes db)"
    "map ni_lastSeen ns = map ni_lastSeen (db_nodes db)"
    "map ni_address ns = map ni_address (db_nodes db)"
proof -
  define row where "row = find (\<lambda>l. lo_hash l = hash \<and> lo_nodeID l = nid) (db_locations db)"
  define sz where "sz = (if \<not> eng 0 then 0 else case row of None \<Rightarrow> 0 | Some l \<Rightarrow> lo_size l)"
  define db1 where "db1 = db\<lparr>db_locations :=
      filter (\<lambda>l. \<not> (lo_hash l = hash \<and> lo_nodeID l = nid)) (db_locations db)\<rparr>"
  let ?given = "map (\<lambda>n. if ni_id n = nid then give_space sz n else n) (db_nodes db)"
  have "db' = db1 \<or> db' = db1\<lparr>db_nodes := ?given\<rparr>"
    using assms unfolding RemoveChunkLocation_def Let_def row_def [symmetric] sz_def [symmetric] db1_def [symmetric]
    by (auto simp: db1_def split: if_splits)
  moreover have "db1 = db1\<lparr>db_nodes := db_nodes db\<rparr>" by (simp add: db1_def)
  ultimately show ?thesis
  proof (elim disjE)
    assume "db' = db1" "db1 = db1\<lparr>db_nodes := db_nodes db\<rparr>"
    then show ?thesis by (intro that [of "db_nodes db"]) (simp_all add: db1_def)
  next
    assume "db' = db1\<lparr>db_nodes := ?given\<rparr>"
    then show ?thesis by (intro that [of ?given]) (simp_all add: db1_def give_space_def)
  qed
qed

lemma map_eq_ball: "map f xs = map f ys \<Longrightarrow> (\<forall>x\<in>set xs. P (f x)) = (\<forall>y\<in>set ys. P (f y))"
  by (metis (no_types, lifting) image_iff set_map)

lemma RemoveChunkLocation_wf [wf_intros]:
  assumes "db_wf db" and "RemoveChunkLocation eng hash nid db = Some db'"
  shows "db_wf db'"
  using assms(2)
proof (cases rule: RemoveChunkLocation_cases)
  case (1 ns)
  have "db_wf (db\<lparr>db_nodes := ns\<rparr>)"
    by (rule wf_change_nodes)
      (use assms 1 map_eq_ball [OF 1(3), of "\<lambda>s. s = ''online''"] in \<open>simp_all add: wf_defs\<close>)
  then show ?thesis
    unfolding 1(1) by (auto simp: wf_defs distinct_map_filter)
qed

text \<open>
  C17: placement. With the tables well formed and the query executed, a plan names distinct
  nodes, as many as asked for or all there are; each is alive, has room for the chunk and holds
  no copy of it; and no such node left out ranks before a chosen one, by the number of chunks
  already planned for it, then by more free space, then by id.
\<close>

theorem plan_is_best:
  assumes "db_wf db" and "eng 0"
  shows "let plan = PlanChunkSpread eng now db h sz r counts;
             fit = {n \<in> set (db_nodes db). alive now n \<and> sz \<le> ni_free n \<and> ni_id n \<notin> holders db h}
         in distinct (map ni_id plan) \<and>
            length plan = min (nat (normalizedReplication r)) (card fit) \<and>
            set plan \<subseteq> withDerivedStatus now ` fit \<and>
            (\<forall>m \<in> fit. ni_id m \<notin> ni_id ` set plan \<longrightarrow> (\<forall>n \<in> set plan.
               counts (ni_id n) < counts (ni_id m) \<or>
               counts (ni_id n) = counts (ni_id m) \<and>
                 (ni_free m < ni_free n \<or> ni_free m = ni_free n \<and> ni_id n < ni_id m)))"
proof -
  define fit where "fit = {n \<in> set (db_nodes db). alive now n \<and> sz \<le> ni_free n \<and> ni_id n \<notin> holders db h}"
  define plan where "plan = PlanChunkSpread eng now db h sz r counts"
  have keys: "keys_ok db" using assms(1) by (simp add: db_wf_def)
  have el: "plan_eligible now db h sz n \<longleftrightarrow> alive now n \<and> sz \<le> ni_free n \<and> ni_id n \<notin> holders db h" for n
    by (auto simp: plan_eligible_def alive_def holders_def)
  then have fit: "fit = set (filter (plan_eligible now db h sz) (db_nodes db))"
    by (auto simp: fit_def)
  have dist: "distinct (filter (plan_eligible now db h sz) (db_nodes db))"
    using keys by (auto simp: keys_ok_def distinct_map)
  have "length plan = min (nat (normalizedReplication r)) (card fit)"
    unfolding plan_def fit length_PlanChunkSpread [where h = h and eng = eng, OF assms(2)] by (simp only: distinct_card [OF dist])
  moreover have "distinct (map ni_id plan)"
    unfolding plan_def by (rule distinct_PlanChunkSpread [OF keys])
  moreover have "set plan \<subseteq> withDerivedStatus now ` fit"
    using PlanChunkSpread_subset [of eng now db h sz r counts] unfolding plan_def fit by auto
  moreover have "counts (ni_id n) < counts (ni_id m) \<or> counts (ni_id n) = counts (ni_id m) \<and>
      (ni_free m < ni_free n \<or> ni_free m = ni_free n \<and> ni_id n < ni_id m)"
    if m: "m \<in> fit" "ni_id m \<notin> ni_id ` set plan" and n: "n \<in> set plan" for m n
  proof -
    let ?m = "withDerivedStatus now m"
    have "?m \<notin> set plan" using m(2) by (metis image_eqI withDerivedStatus_sel(1))
    with m n have "\<not> spread_less counts ?m n"
      unfolding plan_def PlanChunkSpread_take [of eng, OF assms(2)]
      by (intro spread.take_sort_by_best) (auto simp: fit)
    moreover have "ni_id m \<noteq> ni_id n" using m(2) n by force
    ultimately show ?thesis by (auto simp: spread_less_def Let_def split: if_splits)
  qed
  ultimately show ?thesis unfolding plan_def [symmetric] fit_def [symmetric] Let_def by blast
qed

lemma plan_is_best_witness:
  "length (PlanChunkSpread (\<lambda>_. True) (1000 * 10 ^ 9) demo_db ''a'' 60 2 (\<lambda>_. 0)) = 1"
proof -
  have "{n \<in> set (db_nodes demo_db). alive (1000 * 10 ^ 9) n \<and> 60 \<le> ni_free n \<and> ni_id n \<notin> holders demo_db ''a''} =
      {demo_node ''n2'' 80}"
    by (auto simp: demo_db_def demo_node_def alive_def cutoff_def rfc3339_def nodeOfflineAfter_def holders_def)
  with plan_is_best [OF demo_wf, of "\<lambda>_. True" "1000 * 10 ^ 9" "''a''" 60 2 "\<lambda>_. 0"]
  show ?thesis by (simp add: Let_def normalizedReplication_def)
qed

lemma holders_iff:
  "x \<in> holders db h \<longleftrightarrow> (\<exists>l \<in> set (db_locations db). lo_hash l = h \<and> lo_nodeID l = x)"
  by (auto simp: holders_def)

lemma holders_snoc:
  "holders (db\<lparr>db_locations := db_locations db @ [row], db_nodes := ns\<rparr>) h =
     (if lo_hash row = h then insert (lo_nodeID row) (holders db h) else holders db h)"
  by (auto simp: holders_def)

text \<open>
  C21: confirming a copy and removing it again balances the books. A confirmation of a new copy
  makes the node a holder and takes the size from its free space once, however often it is
  repeated; removing the copy gives the same locations and the same free space as before.
\<close>

theorem confirm_remove_balanced:
  assumes "\<And>i. eng i" and "n \<in> set (db_nodes db)" and "ni_id n \<notin> holders db h"
    and "0 < sz" and "\<forall>m \<in> set (db_nodes db). ni_id m = ni_id n \<longrightarrow> sz \<le> ni_free m \<and> ni_free m \<le> ni_capacity m"
    and "ConfirmChunk eng now h sz (ni_id n) db = (res, db1)"
  shows "res = Inr () \<and> holders db1 h = insert (ni_id n) (holders db h) \<and>
    map ni_free (db_nodes db1) =
      map (\<lambda>m. if ni_id m = ni_id n then ni_free m - sz else ni_free m) (db_nodes db) \<and>
    ConfirmChunk eng now' h sz' (ni_id n) db1 = (Inr (), db1) \<and>
    (\<exists>db2. RemoveChunkLocation eng h (ni_id n) db1 = Some db2 \<and>
       db_locations db2 = db_locations db \<and> map ni_free (db_nodes db2) = map ni_free (db_nodes db))"
proof -
  let ?t = "rfc3339 now" and ?id = "ni_id n"
  let ?row = "\<lparr>lo_hash = h, lo_nodeID = ?id, lo_size = sz, lo_verifiedAt = ?t\<rparr>"
  let ?ns = "map (\<lambda>m. if ni_id m = ?id then take_space sz ?t m else m) (db_nodes db)"
  have no: "\<forall>l \<in> set (db_locations db). \<not> (lo_hash l = h \<and> lo_nodeID l = ?id)"
    using assms(3) unfolding holders_iff by blast
  then have no': "\<not> (\<exists>l \<in> set (db_locations db). lo_hash l = h \<and> lo_nodeID l = ?id)" by blast
  have ex: "\<exists>m \<in> set (db_nodes db). ni_id m = ?id" using assms(2) by blast
  have db1: "res = Inr ()" "db1 = db\<lparr>db_locations := db_locations db @ [?row], db_nodes := ?ns\<rparr>"
    using assms(1,6) no' by (simp_all add: ConfirmChunk_def Let_def ex)
  have free: "map ni_free ?ns = map (\<lambda>m. if ni_id m = ?id then ni_free m - sz else ni_free m) (db_nodes db)"
    using assms(5) by (auto simp: take_space_def)
  have "find (\<lambda>l. lo_hash l = h \<and> lo_nodeID l = ?id) (xs @ [?row]) = Some ?row"
    if "\<forall>l \<in> set xs. \<not> (lo_hash l = h \<and> lo_nodeID l = ?id)" for xs
    using that by (induction xs) auto
  from this [OF no] have f: "find (\<lambda>l. lo_hash l = h \<and> lo_nodeID l = ?id) (db_locations db1) = Some ?row"
    by (simp add: db1)
  have locs: "filter (\<lambda>l. \<not> (lo_hash l = h \<and> lo_nodeID l = ?id)) (db_locations db1) = db_locations db"
    using no by (simp add: db1 filter_id_conv)
  have given: "ni_free (give_space sz (take_space sz ?t m)) = ni_free m"
    if "m \<in> set (db_nodes db)" "ni_id m = ?id" for m
    using assms(4,5) that by (auto simp: give_space_def take_space_def)
  have removed: "\<exists>db2. RemoveChunkLocation eng h ?id db1 = Some db2 \<and>
      db_locations db2 = db_locations db \<and> map ni_free (db_nodes db2) = map ni_free (db_nodes db)"
    using assms(1,4) locs given by (simp add: RemoveChunkLocation_def f Let_def) (simp add: db1 take_space_def)
  have "map ni_id (db_nodes db1) = map ni_id (db_nodes db)"
    by (simp add: db1 take_space_def)
  then have "\<exists>m \<in> set (db_nodes db1). ni_id m = ?id"
    using ex by (metis (mono_tags, lifting) image_iff list.set_map)
  moreover have "\<exists>l \<in> set (db_locations db1). lo_hash l = h \<and> lo_nodeID l = ?id"
    by (simp add: db1)
  ultimately have again: "ConfirmChunk eng now' h sz' ?id db1 = (Inr (), db1)"
    using assms(1) by (simp add: ConfirmChunk_def)
  have "holders db1 h = insert ?id (holders db h)"
    by (simp add: db1 holders_snoc)
  then show ?thesis using db1 free removed again by simp
qed

lemma confirm_remove_balanced_witness:
  "\<exists>db1. ConfirmChunk (\<lambda>_. True) 0 ''z'' 7 ''n1'' demo_db = (Inr (), db1) \<and>
     map ni_free (db_nodes db1) = [43, 80]"
proof -
  obtain res db1 where run: "ConfirmChunk (\<lambda>_. True) 0 ''z'' 7 (ni_id (demo_node ''n1'' 50)) demo_db = (res, db1)"
    by (metis prod.exhaust)
  have "demo_node ''n1'' 50 \<in> set (db_nodes demo_db)" "ni_id (demo_node ''n1'' 50) \<notin> holders demo_db ''z''"
    "\<forall>m \<in> set (db_nodes demo_db). ni_id m = ni_id (demo_node ''n1'' 50) \<longrightarrow> 7 \<le> ni_free m \<and> ni_free m \<le> ni_capacity m"
    by (auto simp: demo_db_def demo_node_def holders_def)
  from confirm_remove_balanced [OF _ this(1,2) _ this(3) run] run show ?thesis
    by (simp add: demo_db_def demo_node_def)
qed

end
