(* ===== verification/FileMeta.thy ===== *)
theory FileMeta
  imports NodeMeta
begin

text \<open>
  The \<^verbatim>\<open>State\<close> methods on manifests (\<^verbatim>\<open>internal/server/state.go\<close>): creation with version
  numbers, reading, replication, availability, deletion and retention. A rolled back
  transaction is the old database.
\<close>

definition later :: "nat \<Rightarrow> engine \<Rightarrow> engine" where
  "later k eng = (\<lambda>i. eng (k + i))"

definition ChunkInUse :: "engine \<Rightarrow> Db \<Rightarrow> string \<Rightarrow> bool" where
  "ChunkInUse eng db hash \<longleftrightarrow> eng 0 \<and> length (filter (\<lambda>c. ck_hash c = hash) (db_fileChunks db)) > 0"

subsection \<open>Creation\<close>

text \<open>Statements: 0 \<^verbatim>\<open>BEGIN\<close>, 1 the version, 2 the file, 3 and on the chunks, then \<^verbatim>\<open>COMMIT\<close>.\<close>

definition next_version :: "Db \<Rightarrow> string \<Rightarrow> int" where
  "next_version db backupName =
     (case map fr_version (filter (\<lambda>f. fr_backupName f = backupName) (db_files db)) of
        [] \<Rightarrow> 0
      | v # vs \<Rightarrow> fold max vs v) + 1"

fun insert_chunks :: "engine \<Rightarrow> nat \<Rightarrow> string \<Rightarrow> ChunkRef list \<Rightarrow> Db \<Rightarrow> Db result" where
  "insert_chunks eng k fileID [] tx = Inr tx"
| "insert_chunks eng k fileID (chunk # chunks) tx =
     (if \<not> eng k \<or> (\<exists>r \<in> set (db_fileChunks tx). ck_fileID r = fileID \<and> ck_index r = cr_index chunk)
      then Inl ''insert chunk''
      else insert_chunks eng (Suc k) fileID chunks
        (tx\<lparr>db_fileChunks := db_fileChunks tx @
           [\<lparr>ck_fileID = fileID, ck_index = cr_index chunk, ck_hash = cr_hash chunk, ck_size = cr_size chunk\<rparr>]\<rparr>))"

definition CreateFile ::
  "engine \<Rightarrow> nanos \<Rightarrow> string \<Rightarrow> string \<Rightarrow> CreateFileRequest \<Rightarrow> Db \<Rightarrow> FileManifest result \<times> Db" where
  "CreateFile eng now date uuid req db =
     (let fid = date @ ''-'' @ uuid;
          backupName = TrimSpace (cf_backupName req);
          backupName = (if backupName = [] then cf_name req else backupName);
          retention = normalizedRetention (cf_retention req);
          dedupNewBytes =
            (if cf_dedupNew req = 0 \<and> cf_dedupReused req = 0 \<and> cf_size req > 0
             then cf_size req else cf_dedupNew req);
          file = noFile\<lparr>fm_id := fid, fm_name := cf_name req, fm_backupName := backupName,
            fm_retention := retention, fm_size := cf_size req, fm_chunkSize := cf_chunkSize req,
            fm_replication := normalizedReplication (cf_replication req), fm_dedupNew := dedupNewBytes,
            fm_dedupReused := cf_dedupReused req, fm_chunks := cf_chunks req,
            fm_chunkCount := int (length (cf_chunks req)),
            fm_dedupRatio := dedupRatio (cf_dedupReused req) (cf_size req)\<rparr>
      in if \<not> eng 0 then (Inl ''begin transaction'', db)
         else
           let file = file\<lparr>fm_createdAt := rfc3339 now\<rparr> in
           if \<not> eng 1 then (Inl ''assign version'', db)
           else
             let file = file\<lparr>fm_version := next_version db backupName\<rparr> in
             if \<not> eng 2 \<or> (\<exists>r \<in> set (db_files db). fr_id r = fid) then (Inl ''insert file'', db)
             else
               let row = \<lparr>fr_id = fm_id file, fr_name = fm_name file, fr_backupName = fm_backupName file,
                     fr_version = fm_version file, fr_retention = fm_retention file, fr_size = fm_size file,
                     fr_chunkSize = fm_chunkSize file, fr_replication = fm_replication file,
                     fr_dedupNew = fm_dedupNew file, fr_dedupReused = fm_dedupReused file,
                     fr_createdAt = fm_createdAt file\<rparr>;
                   tx = db\<lparr>db_files := db_files db @ [row]\<rparr>
               in case insert_chunks eng 3 fid (fm_chunks file) tx of
                    Inl e \<Rightarrow> (Inl e, db)
                  | Inr tx \<Rightarrow>
                      if \<not> eng (3 + length (fm_chunks file)) then (Inl ''commit'', db)
                      else (Inr file, tx))"

subsection \<open>Reading\<close>

definition fileChunks :: "engine \<Rightarrow> Db \<Rightarrow> string \<Rightarrow> ChunkRef list" where
  "fileChunks eng db fileID =
     (if \<not> eng 0 then []
      else map (\<lambda>c. \<lparr>cr_index = ck_index c, cr_hash = ck_hash c, cr_size = ck_size c\<rparr>)
        (sort_by (\<lambda>a b. ck_index a < ck_index b) (filter (\<lambda>c. ck_fileID c = fileID) (db_fileChunks db))))"

definition scanFile :: "FileRow \<Rightarrow> FileManifest" where
  "scanFile r = \<lparr>fm_id = fr_id r, fm_name = fr_name r, fm_backupName = fr_backupName r,
     fm_version = fr_version r, fm_retention = fr_retention r, fm_createdAt = fr_createdAt r,
     fm_size = fr_size r, fm_chunkSize = fr_chunkSize r, fm_replication = fr_replication r,
     fm_dedupNew = fr_dedupNew r, fm_dedupReused = fr_dedupReused r,
     fm_dedupRatio = dedupRatio (fr_dedupReused r) (fr_size r), fm_chunkCount = 0, fm_chunks = [],
     fm_retentionDeleted = []\<rparr>"

text \<open>Statements: 0 the row, 1 its chunks.\<close>

definition FileByID :: "engine \<Rightarrow> Db \<Rightarrow> string \<Rightarrow> FileManifest option" where
  "FileByID eng db fid =
     (if \<not> eng 0 then None
      else case find (\<lambda>r. fr_id r = fid) (db_files db) of
        None \<Rightarrow> None
      | Some r \<Rightarrow>
          let chunks = fileChunks (later 1 eng) db fid in
          Some ((scanFile r)\<lparr>fm_chunks := chunks, fm_chunkCount := int (length chunks)\<rparr>))"

definition UpdateFileReplication ::
  "engine \<Rightarrow> string \<Rightarrow> int \<Rightarrow> Db \<Rightarrow> FileManifest option \<times> Db" where
  "UpdateFileReplication eng fid replication db =
     (let replication = normalizedReplication replication in
      if \<not> eng 0 then (None, db)
      else if \<not> (\<exists>r \<in> set (db_files db). fr_id r = fid) then (None, db)
      else
        let db = db\<lparr>db_files := map (\<lambda>r. if fr_id r = fid then r\<lparr>fr_replication := replication\<rparr> else r)
              (db_files db)\<rparr>
        in (FileByID (later 1 eng) db fid, db))"

definition chunk_status :: "int \<Rightarrow> int \<Rightarrow> string" where
  "chunk_status active replication =
     (if active = 0 then ''missing''
      else if active < replication then ''degraded''
      else if active > replication then ''extra''
      else ''healthy'')"

fun availability_rows :: "engine \<Rightarrow> nat \<Rightarrow> nanos \<Rightarrow> Db \<Rightarrow> int \<Rightarrow> ChunkRef list \<Rightarrow> ChunkAvailability list" where
  "availability_rows eng k now db replication [] = []"
| "availability_rows eng k now db replication (chunk # chunks) =
     (let locations = ChunkLocations (later k eng) now db (cr_hash chunk);
          active = int (length (onlineNodes locations))
      in \<lparr>ca_index = cr_index chunk, ca_hash = cr_hash chunk, ca_size = cr_size chunk,
          ca_desired = replication, ca_active = active, ca_total = int (length locations),
          ca_status = chunk_status active replication, ca_locations = locations\<rparr>
         # availability_rows eng (Suc k) now db replication chunks)"

definition FileAvailabilityOf :: "engine \<Rightarrow> nanos \<Rightarrow> Db \<Rightarrow> string \<Rightarrow> FileAvailability option" where
  "FileAvailabilityOf eng now db fid =
     (case FileByID eng db fid of
        None \<Rightarrow> None
      | Some file \<Rightarrow>
          Some \<lparr>fa_fileID = fm_id file, fa_name = fm_name file, fa_backupName = fm_backupName file,
            fa_version = fm_version file, fa_retention = fm_retention file,
            fa_createdAt = fm_createdAt file, fa_size = fm_size file, fa_chunkSize = fm_chunkSize file,
            fa_replication = fm_replication file, fa_dedupNew = fm_dedupNew file,
            fa_dedupReused = fm_dedupReused file, fa_dedupRatio = fm_dedupRatio file,
            fa_chunks = availability_rows eng 2 now db (fm_replication file) (fm_chunks file)\<rparr>)"

text \<open>\<^verbatim>\<open>ORDER BY backup_name, version DESC, created_at DESC, id DESC\<close>\<close>

definition newer :: "FileRow \<Rightarrow> FileRow \<Rightarrow> bool" where
  "newer a b =
     (if fr_version a \<noteq> fr_version b then fr_version a > fr_version b
      else if fr_createdAt a \<noteq> fr_createdAt b then fr_createdAt a > fr_createdAt b
      else fr_id a > fr_id b)"

definition files_less :: "FileRow \<Rightarrow> FileRow \<Rightarrow> bool" where
  "files_less a b =
     (if fr_backupName a \<noteq> fr_backupName b then fr_backupName a < fr_backupName b else newer a b)"

definition chunkCounts :: "engine \<Rightarrow> Db \<Rightarrow> string \<Rightarrow> int" where
  "chunkCounts eng db fid =
     (if \<not> eng 0 then 0 else int (length (filter (\<lambda>c. ck_fileID c = fid) (db_fileChunks db))))"

definition Files :: "engine \<Rightarrow> Db \<Rightarrow> FileManifest list" where
  "Files eng db =
     (if \<not> eng 0 then []
      else
        let files = map scanFile (sort_by files_less (db_files db));
            counts = chunkCounts (later 1 eng) db
        in map (\<lambda>f. f\<lparr>fm_chunkCount := counts (fm_id f)\<rparr>) files)"

subsection \<open>Deletion and retention\<close>

text \<open>\<^verbatim>\<open>DELETE FROM files WHERE id = ?\<close>, with \<^verbatim>\<open>ON DELETE CASCADE\<close> to the chunk rows.\<close>

definition delete_row :: "string \<Rightarrow> Db \<Rightarrow> Db" where
  "delete_row fid db = db\<lparr>db_files := filter (\<lambda>r. fr_id r \<noteq> fid) (db_files db),
     db_fileChunks := filter (\<lambda>c. ck_fileID c \<noteq> fid) (db_fileChunks db)\<rparr>"

text \<open>
  The loop over the chunks of the deleted manifests: a hash is looked up once. The result
  holds the unused hashes and the number of the next statement.
\<close>

fun unused_hashes ::
  "engine \<Rightarrow> nat \<Rightarrow> Db \<Rightarrow> string list \<Rightarrow> string list \<Rightarrow> string list \<Rightarrow> (string list \<times> nat) option" where
  "unused_hashes eng k tx seen unused [] = Some (unused, k)"
| "unused_hashes eng k tx seen unused (hash # hashes) =
     (if hash \<in> set seen then unused_hashes eng k tx seen unused hashes
      else if \<not> eng k then None
      else if length (filter (\<lambda>c. ck_hash c = hash) (db_fileChunks tx)) = 0
      then unused_hashes eng (Suc k) tx (hash # seen) (unused @ [hash]) hashes
      else unused_hashes eng (Suc k) tx (hash # seen) unused hashes)"

text \<open>Statements: 0 and 1 the manifest, 2 \<^verbatim>\<open>BEGIN\<close>, 3 the deletion, 4 and on the counts, then \<^verbatim>\<open>COMMIT\<close>.\<close>

definition DeleteFile :: "engine \<Rightarrow> string \<Rightarrow> Db \<Rightarrow> (FileManifest \<times> string list) option \<times> Db" where
  "DeleteFile eng fid db =
     (case FileByID eng db fid of
        None \<Rightarrow> (None, db)
      | Some file \<Rightarrow>
          if \<not> eng 2 then (None, db)
          else if \<not> eng 3 then (None, db)
          else
            let tx = delete_row fid db in
            case unused_hashes eng 4 tx [] [] (map cr_hash (fm_chunks file)) of
              None \<Rightarrow> (None, db)
            | Some (unused, k) \<Rightarrow> if \<not> eng k then (None, db) else (Some (file, unused), tx))"

fun read_files :: "engine \<Rightarrow> nat \<Rightarrow> Db \<Rightarrow> string list \<Rightarrow> FileManifest list" where
  "read_files eng k db [] = []"
| "read_files eng k db (fid # ids) =
     (case FileByID (later k eng) db fid of
        None \<Rightarrow> read_files eng (k + 2) db ids
      | Some file \<Rightarrow> file # read_files eng (k + 2) db ids)"

fun delete_rows :: "engine \<Rightarrow> nat \<Rightarrow> string list \<Rightarrow> Db \<Rightarrow> Db option" where
  "delete_rows eng k [] tx = Some tx"
| "delete_rows eng k (fid # ids) tx =
     (if \<not> eng k then None else delete_rows eng (Suc k) ids (delete_row fid tx))"

text \<open>
  Statements: 0 the ids beyond the newest \<open>keep\<close>, then two per manifest, \<^verbatim>\<open>BEGIN\<close>, one deletion
  per id, the counts and \<^verbatim>\<open>COMMIT\<close>.
\<close>

definition ApplyRetention :: "engine \<Rightarrow> string \<Rightarrow> int \<Rightarrow> Db \<Rightarrow> (FileManifest list \<times> string list) \<times> Db" where
  "ApplyRetention eng backupName keep db =
     (let backupName = TrimSpace backupName;
          keep = normalizedRetention keep
      in if backupName = [] \<or> keep \<le> 0 then (([], []), db)
         else if \<not> eng 0 then (([], []), db)
         else
           let ids = map fr_id (drop (nat keep)
                 (sort_by newer (filter (\<lambda>r. fr_backupName r = backupName) (db_files db))))
           in if length ids = 0 then (([], []), db)
              else
                let deleted = read_files eng 1 db ids;
                    k = 1 + 2 * length ids
                in if \<not> eng k then (([], []), db)
                   else case delete_rows eng (Suc k) ids db of
                     None \<Rightarrow> (([], []), db)
                   | Some tx \<Rightarrow>
                       case unused_hashes eng (Suc k + length ids) tx [] []
                           (concat (map (\<lambda>file. map cr_hash (fm_chunks file)) deleted)) of
                         None \<Rightarrow> (([], []), db)
                       | Some (unused, k) \<Rightarrow>
                           if \<not> eng k then (([], []), db) else ((deleted, unused), tx))"

subsection \<open>Creation\<close>

definition chunk_row :: "string \<Rightarrow> ChunkRef \<Rightarrow> ChunkRow" where
  "chunk_row fileID c =
     \<lparr>ck_fileID = fileID, ck_index = cr_index c, ck_hash = cr_hash c, ck_size = cr_size c\<rparr>"

lemma chunk_row_sel [simp]:
  "ck_fileID (chunk_row f c) = f" "ck_index (chunk_row f c) = cr_index c"
  "ck_hash (chunk_row f c) = cr_hash c" "ck_size (chunk_row f c) = cr_size c"
  by (simp_all add: chunk_row_def)

lemma insert_chunks_Inr:
  "insert_chunks eng k fid cs tx = Inr tx' \<Longrightarrow>
     tx' = tx\<lparr>db_fileChunks := db_fileChunks tx @ map (chunk_row fid) cs\<rparr>"
  by (induction eng k fid cs tx rule: insert_chunks.induct)
    (auto simp: chunk_row_def [symmetric] split: if_splits)

lemma insert_chunks_distinct:
  "insert_chunks eng k fid cs tx = Inr tx' \<Longrightarrow>
     distinct (map (\<lambda>c. (ck_fileID c, ck_index c)) (db_fileChunks tx)) \<Longrightarrow>
     distinct (map (\<lambda>c. (ck_fileID c, ck_index c)) (db_fileChunks tx'))"
proof (induction eng k fid cs tx rule: insert_chunks.induct)
  case (2 eng k fid c cs tx)
  have ok: "eng k" and fresh: "\<not> (\<exists>r \<in> set (db_fileChunks tx). ck_fileID r = fid \<and> ck_index r = cr_index c)"
    using "2.prems" by (auto split: if_splits)
  have "(fid, cr_index c) \<notin> (\<lambda>c. (ck_fileID c, ck_index c)) ` set (db_fileChunks tx)"
    using fresh by auto
  with "2.prems" ok fresh show ?case
    by (intro "2.IH") auto
qed simp

lemma insert_chunks_ok:
  "(\<And>i. eng i) \<Longrightarrow> distinct (map cr_index cs) \<Longrightarrow>
     (\<forall>r \<in> set (db_fileChunks tx). ck_fileID r = fid \<longrightarrow> ck_index r \<notin> cr_index ` set cs) \<Longrightarrow>
     insert_chunks eng k fid cs tx = Inr (tx\<lparr>db_fileChunks := db_fileChunks tx @ map (chunk_row fid) cs\<rparr>)"
  by (induction cs arbitrary: k tx) (auto simp: chunk_row_def [symmetric])

lemma fold_max: "fold max vs (v :: int) = Max (insert v (set vs))"
  by (simp add: Max.set_eq_fold [symmetric])

lemma next_version_gt:
  assumes "r \<in> set (db_files db)"
  shows "fr_version r < next_version db (fr_backupName r)"
proof -
  let ?vs = "map fr_version (filter (\<lambda>f. fr_backupName f = fr_backupName r) (db_files db))"
  have mem: "fr_version r \<in> set ?vs" using assms by auto
  then obtain v vs where vs: "?vs = v # vs" by (cases ?vs) auto
  then have "fr_version r \<le> Max (insert v (set vs))" using mem by (intro Max_ge) (auto simp del: set_map)
  with vs show ?thesis by (simp add: next_version_def fold_max)
qed

lemma next_version_pos: "files_ok db \<Longrightarrow> 1 \<le> next_version db name"
proof (cases "filter (\<lambda>f. fr_backupName f = name) (db_files db)")
  case (Cons f fs)
  assume ok: "files_ok db"
  have "f \<in> set (db_files db)" "fr_backupName f = name"
    using filter_set [of "\<lambda>f. fr_backupName f = name" "db_files db"] unfolding Cons by auto
  with next_version_gt [of f db] ok show ?thesis by (fastforce simp: files_ok_def)
qed (simp add: next_version_def)

lemma CreateFile_cases:
  obtains (failed) e where "CreateFile eng now date uuid req db = (Inl e, db)"
  | (created) row m where "CreateFile eng now date uuid req db =
        (Inr m, db\<lparr>db_files := db_files db @ [row],
                   db_fileChunks := db_fileChunks db @ map (chunk_row (fr_id row)) (cf_chunks req)\<rparr>)"
      "m = (scanFile row)\<lparr>fm_chunks := cf_chunks req, fm_chunkCount := int (length (cf_chunks req))\<rparr>"
      "fr_id row = date @ ''-'' @ uuid" "fr_id row \<notin> fr_id ` set (db_files db)"
      "fr_backupName row = (if TrimSpace (cf_backupName req) = [] then cf_name req else TrimSpace (cf_backupName req))"
      "fr_version row = next_version db (fr_backupName row)"
      "fr_replication row = normalizedReplication (cf_replication req)"
      "fr_retention row = normalizedRetention (cf_retention req)"
      "fr_name row = cf_name req" "fr_size row = cf_size req"
      "keys_ok db \<Longrightarrow> distinct (map (\<lambda>c. (ck_fileID c, ck_index c))
         (db_fileChunks db @ map (chunk_row (fr_id row)) (cf_chunks req)))"
proof (cases "\<exists>e. CreateFile eng now date uuid req db = (Inl e, db)")
  case False
  let ?bn = "if TrimSpace (cf_backupName req) = [] then cf_name req else TrimSpace (cf_backupName req)"
  let ?row = "\<lparr>fr_id = date @ ''-'' @ uuid, fr_name = cf_name req, fr_backupName = ?bn,
     fr_version = next_version db ?bn, fr_retention = normalizedRetention (cf_retention req),
     fr_size = cf_size req, fr_chunkSize = cf_chunkSize req,
     fr_replication = normalizedReplication (cf_replication req),
     fr_dedupNew = (if cf_dedupNew req = 0 \<and> cf_dedupReused req = 0 \<and> cf_size req > 0
             then cf_size req else cf_dedupNew req), fr_dedupReused = cf_dedupReused req,
     fr_createdAt = rfc3339 now\<rparr>"
  let ?m = "(scanFile ?row)\<lparr>fm_chunks := cf_chunks req, fm_chunkCount := int (length (cf_chunks req))\<rparr>"
  have "\<not> (\<exists>r \<in> set (db_files db). fr_id r = date @ ''-'' @ uuid)"
    using False by (rule contrapos_nn) (cases "eng 0"; cases "eng 1"; simp add: CreateFile_def Let_def)
  then have fresh: "fr_id ?row \<notin> fr_id ` set (db_files db)" by auto
  obtain tx where ins: "insert_chunks eng 3 (date @ ''-'' @ uuid) (cf_chunks req)
      (db\<lparr>db_files := db_files db @ [?row]\<rparr>) = Inr tx"
    and res: "CreateFile eng now date uuid req db = (Inr ?m, tx)"
  proof (cases "insert_chunks eng 3 (date @ ''-'' @ uuid) (cf_chunks req) (db\<lparr>db_files := db_files db @ [?row]\<rparr>)")
    case (Inl e)
    with False show ?thesis
      by (simp add: CreateFile_def Let_def noFile_def scanFile_def split: if_splits)
  next
    case (Inr tx)
    with False show ?thesis
      by (intro that [of tx]) (simp_all add: CreateFile_def Let_def noFile_def scanFile_def split: if_splits)
  qed
  have tx: "tx = db\<lparr>db_files := db_files db @ [?row],
      db_fileChunks := db_fileChunks db @ map (chunk_row (fr_id ?row)) (cf_chunks req)\<rparr>"
    using insert_chunks_Inr [OF ins] by simp
  show ?thesis
    by (rule created [of ?m ?row])
      (use res tx fresh insert_chunks_distinct [OF ins] in \<open>simp_all add: keys_ok_def\<close>)
qed (use failed in blast)

lemma fresh_no_chunks:
  "db_wf db \<Longrightarrow> fid \<notin> fr_id ` set (db_files db) \<Longrightarrow> c \<in> set (db_fileChunks db) \<Longrightarrow> ck_fileID c \<noteq> fid"
  unfolding db_wf_def refs_ok_def by blast

lemma CreateFile_wf [wf_intros]:
  assumes "db_wf db"
  shows "db_wf (snd (CreateFile eng now date uuid req db))"
proof (cases rule: CreateFile_cases [of eng now date uuid req db])
  case (created row m)
  have keys: "keys_ok db" and files: "files_ok db" using assms by (simp_all add: db_wf_def)
  have "(fr_backupName row, fr_version row) \<notin> (\<lambda>f. (fr_backupName f, fr_version f)) ` set (db_files db)"
    using next_version_gt [of _ db] created(6) by fastforce
  with assms created(2-10) created(11) [OF keys] next_version_pos [OF files] show ?thesis
    unfolding created(1) by (auto simp: wf_defs)
qed (simp add: assms)

text \<open>With every statement executed, the only failures are a used id and a repeated index.\<close>

lemma CreateFile_ok:
  assumes "\<And>i. eng i" and "db_wf db" and "distinct (map cr_index (cf_chunks req))"
    and "date @ ''-'' @ uuid \<notin> fr_id ` set (db_files db)"
  obtains m where "fst (CreateFile eng now date uuid req db) = Inr m"
proof -
  have "\<not> (\<exists>r \<in> set (db_files db). fr_id r = date @ ''-'' @ uuid)" using assms(4) by (simp add: notin_image)
  moreover have "\<forall>c \<in> set (db_fileChunks db). ck_fileID c \<noteq> date @ ''-'' @ uuid"
    using fresh_no_chunks [OF assms(2,4)] by blast
  ultimately show ?thesis
    using assms(1,3) that by (simp add: CreateFile_def Let_def insert_chunks_ok)
qed

subsection \<open>Reading\<close>

interpretation by_index: less_order "\<lambda>a b. ck_index a < ck_index b"
  by unfold_locales auto

interpretation newer: less_order newer
  by unfold_locales (auto simp: newer_def split: if_splits)

interpretation files_order: less_order files_less
  by unfold_locales (auto simp: files_less_def newer_def split: if_splits)

definition file_hashes :: "Db \<Rightarrow> string \<Rightarrow> string set" where
  "file_hashes db fid = ck_hash ` {c \<in> set (db_fileChunks db). ck_fileID c = fid}"

definition used_hashes :: "Db \<Rightarrow> string set" where
  "used_hashes db = ck_hash ` set (db_fileChunks db)"

lemma ChunkInUse_iff: "eng 0 \<Longrightarrow> ChunkInUse eng db h \<longleftrightarrow> h \<in> used_hashes db"
  by (auto simp: ChunkInUse_def used_hashes_def filter_empty_conv)

lemma fileChunks_hashes:
  "cr_hash ` set (fileChunks eng db fid) = (if eng 0 then file_hashes db fid else {})"
  by (auto simp: fileChunks_def file_hashes_def image_iff)

lemma FileByID_Some:
  assumes "FileByID eng db fid = Some m"
  obtains r where "r \<in> set (db_files db)" "fr_id r = fid" "eng 0"
    "m = (scanFile r)\<lparr>fm_chunks := fileChunks (later 1 eng) db fid,
       fm_chunkCount := int (length (fileChunks (later 1 eng) db fid))\<rparr>"
  using assms by (auto simp: FileByID_def Let_def split: if_splits option.splits dest: find_SomeD)

lemma FileByID_id [simp]: "FileByID eng db fid = Some m \<Longrightarrow> fm_id m = fid"
  by (auto elim: FileByID_Some simp: scanFile_def)

lemma FileByID_hashes:
  "FileByID eng db fid = Some m \<Longrightarrow>
     cr_hash ` set (fm_chunks m) = (if eng 1 then file_hashes db fid else {})"
  by (erule FileByID_Some) (simp add: fileChunks_hashes later_def)

lemma FileByID_found:
  assumes "keys_ok db" and "r \<in> set (db_files db)" and "eng 0"
  shows "FileByID eng db (fr_id r) =
    Some ((scanFile r)\<lparr>fm_chunks := fileChunks (later 1 eng) db (fr_id r),
       fm_chunkCount := int (length (fileChunks (later 1 eng) db (fr_id r)))\<rparr>)"
  using assms find_key_distinct [of fr_id "db_files db" r]
  by (simp add: FileByID_def keys_ok_def Let_def)

lemma sort_by_sorted:
  assumes "sorted_wrt (\<lambda>a b. \<not> lt b a) xs" and "less_order lt"
    and "\<And>a b. a \<in> set xs \<Longrightarrow> b \<in> set xs \<Longrightarrow> a \<noteq> b \<Longrightarrow> lt a b \<or> lt b a"
  shows "sort_by lt xs = xs"
  by (rule less_order.sort_by_unique [OF assms(2) refl assms(1) assms(3)])

lemma chunk_ref_eta [simp]: "\<lparr>cr_index = cr_index c, cr_hash = cr_hash c, cr_size = cr_size c\<rparr> = c"
  by simp

text \<open>A manifest whose chunk indices increase is read back as it was stored.\<close>

lemma CreateFile_FileByID:
  assumes "db_wf db" and "CreateFile eng now date uuid req db = (Inr m, db')"
    and "sorted_wrt (<) (map cr_index (cf_chunks req))" and "\<And>i. eng' i"
  shows "FileByID eng' db' (fm_id m) = Some m"
proof (cases rule: CreateFile_cases [of eng now date uuid req db])
  case (failed e)
  with assms(2) show ?thesis by simp
next
  case (created row m')
  have m: "m' = m" and db': "db' = db\<lparr>db_files := db_files db @ [row],
      db_fileChunks := db_fileChunks db @ map (chunk_row (fr_id row)) (cf_chunks req)\<rparr>"
    using created(1) assms(2) by simp_all
  have none: "filter (\<lambda>c. ck_fileID c = fr_id row) (db_fileChunks db) = []"
    using fresh_no_chunks [OF assms(1) created(4)] by (simp add: filter_empty_conv)
  have srt: "sort_by (\<lambda>a b. ck_index a < ck_index b) (map (chunk_row (fr_id row)) (cf_chunks req)) =
      map (chunk_row (fr_id row)) (cf_chunks req)" (is "_ = ?rows")
  proof (rule sort_by_sorted)
    have idx: "map ck_index ?rows = map cr_index (cf_chunks req)" by simp
    have inc: "sorted_wrt (\<lambda>a b. ck_index a < ck_index b) ?rows"
      using assms(3) by (simp add: sorted_wrt_map)
    then show "sorted_wrt (\<lambda>a b. \<not> ck_index b < ck_index a) ?rows"
      by (rule sorted_wrt_mono_rel [rotated]) auto
    show "less_order (\<lambda>a b. ck_index a < ck_index b)" by unfold_locales auto
    fix a b assume ab: "a \<in> set ?rows" "b \<in> set ?rows" "a \<noteq> b"
    have "distinct (map ck_index ?rows)"
      unfolding idx using assms(3) by (simp add: strict_sorted_iff)
    then have "inj_on ck_index (set ?rows)" by (simp only: distinct_map)
    with ab have "ck_index a \<noteq> ck_index b" by (meson inj_onD)
    then show "ck_index a < ck_index b \<or> ck_index b < ck_index a" by auto
  qed
  have chunks: "fileChunks (later 1 eng') db' (fr_id row) = cf_chunks req"
    using assms(4) by (simp add: fileChunks_def later_def db' none srt o_def filter_map)
  have "keys_ok db'" using CreateFile_wf [OF assms(1), of eng now date uuid req] assms(2)
    by (simp add: db_wf_def)
  from FileByID_found [OF this, of row eng'] assms(4) show ?thesis
    using chunks created(2) m by (simp add: db' scanFile_def)
qed

subsection \<open>Deletion and retention\<close>

text \<open>In a strictly sorted list the elements from position \<open>k\<close> on are those with \<open>k\<close> before them.\<close>

lemma drop_sorted_iff:
  assumes srt: "sorted_wrt R xs" and d: "distinct xs" and asym: "\<And>x y. R x y \<Longrightarrow> \<not> R y x"
  shows "x \<in> set (drop k xs) \<longleftrightarrow> x \<in> set xs \<and> k \<le> card {y \<in> set xs. R y x}"
proof (cases "x \<in> set xs")
  case True
  then obtain i where i: "i < length xs" "xs ! i = x" by (auto simp: in_set_conv_nth)
  have "{y \<in> set xs. R y x} = set (take i xs)"
  proof (rule set_eqI)
    fix y
    have "R (xs ! j) x \<longleftrightarrow> j < i" if "j < length xs" for j
    proof (cases j i rule: linorder_cases)
      case greater
      with srt i that have "R x (xs ! j)" by (auto simp: sorted_wrt_iff_nth_less)
      with greater asym show ?thesis by auto
    qed (use srt i asym in \<open>auto simp: sorted_wrt_iff_nth_less\<close>)
    then show "y \<in> {y \<in> set xs. R y x} \<longleftrightarrow> y \<in> set (take i xs)"
      using i(1) by (auto simp: in_set_conv_nth) (metis less_trans)
  qed
  then have c: "card {y \<in> set xs. R y x} = i"
    using i(1) d by (simp add: distinct_card)
  have "x \<in> set (drop k xs) \<longleftrightarrow> k \<le> i"
  proof
    assume "x \<in> set (drop k xs)"
    then obtain j where "j < length xs - k" "xs ! (k + j) = x" by (auto simp: in_set_conv_nth)
    with i d have "k + j = i" by (auto simp: nth_eq_iff_index_eq)
    then show "k \<le> i" by simp
  next
    assume "k \<le> i"
    with i have "drop k xs ! (i - k) = x" "i - k < length (drop k xs)" by auto
    then show "x \<in> set (drop k xs)" by (metis nth_mem)
  qed
  with True c show ?thesis by simp
qed (auto dest: in_set_dropD)

text \<open>The rows retention drops: those with at least \<open>keep\<close> higher versions of the same backup.\<close>

definition superseded :: "string \<Rightarrow> nat \<Rightarrow> Db \<Rightarrow> string set" where
  "superseded name keep db =
     fr_id ` {r \<in> set (db_files db). fr_backupName r = name \<and>
       keep \<le> card {r' \<in> set (db_files db). fr_backupName r' = name \<and> fr_version r < fr_version r'}}"

lemma distinct_versions:
  "distinct (map (\<lambda>f. (fr_backupName f, fr_version f)) fs) \<Longrightarrow>
     distinct (map fr_version (filter (\<lambda>r. fr_backupName r = name) fs))"
  by (induction fs) (auto simp: image_iff)

lemma sorted_newer:
  fixes name
  assumes "files_ok db"
  defines "rows \<equiv> sort_by newer (filter (\<lambda>r. fr_backupName r = name) (db_files db))"
  shows "sorted_wrt (\<lambda>a b. fr_version b < fr_version a) rows" and "distinct rows"
proof -
  have d: "distinct (map fr_version rows)"
    using assms distinct_versions [of "db_files db" name] by (simp add: files_ok_def)
  then show "distinct rows" by (simp add: distinct_map)
  show "sorted_wrt (\<lambda>a b. fr_version b < fr_version a) rows"
    unfolding sorted_wrt_iff_nth_less
  proof (intro allI impI)
    fix i j assume ij: "i < j" "j < length rows"
    then have "\<not> newer (rows ! j) (rows ! i)"
      using newer.sorted_sort_by [of "filter (\<lambda>r. fr_backupName r = name) (db_files db)"]
      by (simp add: rows_def sorted_wrt_iff_nth_less)
    moreover have "fr_version (rows ! i) \<noteq> fr_version (rows ! j)"
      using d ij by (auto simp: distinct_conv_nth)
    ultimately show "fr_version (rows ! j) < fr_version (rows ! i)"
      by (auto simp: newer_def)
  qed
qed

lemma set_superseded:
  assumes "files_ok db"
  shows "fr_id ` set (drop k (sort_by newer (filter (\<lambda>r. fr_backupName r = name) (db_files db)))) =
    superseded name k db"
  unfolding superseded_def
  by (rule arg_cong [where f = "image fr_id"])
    (rule set_eqI, simp add: drop_sorted_iff [OF sorted_newer [OF assms]] conj_ac)

lemma read_files_ids:
  "set (map fm_id (read_files eng k db ids)) \<subseteq> set ids"
  by (induction eng k db ids rule: read_files.induct) (auto split: option.splits)

lemma read_files_all:
  "(\<And>i. eng i) \<Longrightarrow> keys_ok db \<Longrightarrow> set ids \<subseteq> fr_id ` set (db_files db) \<Longrightarrow>
     map fm_id (read_files eng k db ids) = ids"
proof (induction eng k db ids rule: read_files.induct)
  case (2 eng k db fid ids)
  then obtain r where "r \<in> set (db_files db)" "fr_id r = fid" by auto
  with "2.prems" FileByID_found [of db r "later k eng"] obtain m
    where m: "FileByID (later k eng) db fid = Some m" by (auto simp: later_def)
  have "map fm_id (read_files eng (k + 2) db ids) = ids"
    by (rule "2.IH"(2) [OF m]) (use "2.prems" in auto)
  then show ?case by (simp add: m FileByID_id [OF m])
qed simp

lemma read_files_mem:
  "m \<in> set (read_files eng k db ids) \<Longrightarrow> \<exists>j. FileByID (later j eng) db (fm_id m) = Some m"
  by (induction eng k db ids rule: read_files.induct) (auto split: option.splits)

lemma delete_rows_Some:
  "delete_rows eng k ids tx = Some tx' \<Longrightarrow>
     tx' = tx\<lparr>db_files := filter (\<lambda>r. fr_id r \<notin> set ids) (db_files tx),
       db_fileChunks := filter (\<lambda>c. ck_fileID c \<notin> set ids) (db_fileChunks tx)\<rparr>"
  by (induction eng k ids tx rule: delete_rows.induct)
    (auto simp: delete_row_def conj_commute split: if_splits intro!: filter_cong)

lemma delete_rows_ok: "(\<And>i. eng i) \<Longrightarrow> \<exists>tx'. delete_rows eng k ids tx = Some tx'"
  by (induction ids arbitrary: k tx) auto

lemma unused_hashes_Some:
  "unused_hashes eng k tx seen unused hs = Some (unused', k') \<Longrightarrow>
     set unused' = set unused \<union> {h \<in> set hs. h \<notin> set seen \<and> h \<notin> used_hashes tx}"
  by (induction eng k tx seen unused hs rule: unused_hashes.induct)
    (auto simp: used_hashes_def filter_empty_conv split: if_splits)

lemma unused_hashes_distinct:
  "unused_hashes eng k tx seen unused hs = Some (unused', k') \<Longrightarrow>
     distinct unused \<Longrightarrow> set unused \<subseteq> set seen \<Longrightarrow> distinct unused'"
  by (induction eng k tx seen unused hs rule: unused_hashes.induct) (auto split: if_splits)

lemma unused_hashes_ok: "(\<And>i. eng i) \<Longrightarrow> \<exists>r. unused_hashes eng k tx seen unused hs = Some r"
  by (induction hs arbitrary: k seen unused) auto

definition drop_files :: "string set \<Rightarrow> Db \<Rightarrow> Db" where
  "drop_files ids db = db\<lparr>db_files := filter (\<lambda>r. fr_id r \<notin> ids) (db_files db),
     db_fileChunks := filter (\<lambda>c. ck_fileID c \<notin> ids) (db_fileChunks db)\<rparr>"

lemma drop_files_sel [simp]:
  "db_nodes (drop_files ids db) = db_nodes db" "db_locations (drop_files ids db) = db_locations db"
  "db_files (drop_files ids db) = filter (\<lambda>r. fr_id r \<notin> ids) (db_files db)"
  "db_fileChunks (drop_files ids db) = filter (\<lambda>c. ck_fileID c \<notin> ids) (db_fileChunks db)"
  by (simp_all add: drop_files_def)

lemma drop_files_empty [simp]: "drop_files {} db = db"
  by (simp add: drop_files_def)

lemma drop_files_wf [wf_intros]: "db_wf db \<Longrightarrow> db_wf (drop_files ids db)"
  by (auto simp: wf_defs distinct_map_filter image_iff) (metis image_iff)

lemma used_hashes_drop_files:
  "h \<in> used_hashes (drop_files ids db) \<longleftrightarrow>
     (\<exists>c \<in> set (db_fileChunks db). ck_fileID c \<notin> ids \<and> ck_hash c = h)"
  by (auto simp: used_hashes_def)

text \<open>A hash of a dropped manifest is reported unused when no other manifest needs it.\<close>

lemma DeleteFile_cases:
  obtains (refused) "DeleteFile eng fid db = (None, db)"
  | (deleted) m unused where "DeleteFile eng fid db = (Some (m, unused), drop_files {fid} db)"
      "FileByID eng db fid = Some m" "distinct unused"
      "set unused = cr_hash ` set (fm_chunks m) - used_hashes (drop_files {fid} db)"
proof (cases "fst (DeleteFile eng fid db)")
  case None
  then show ?thesis
    by (intro refused) (auto simp: DeleteFile_def Let_def prod_eq_iff split: option.splits if_splits prod.splits)
next
  case (Some r)
  then obtain m unused k where m: "FileByID eng db fid = Some m"
    and u: "unused_hashes eng 4 (delete_row fid db) [] [] (map cr_hash (fm_chunks m)) = Some (unused, k)"
    and res: "DeleteFile eng fid db = (Some (m, unused), delete_row fid db)"
    by (auto simp: DeleteFile_def Let_def split: option.splits if_splits)
  have tx: "delete_row fid db = drop_files {fid} db" by (simp add: delete_row_def drop_files_def)
  show ?thesis
    by (rule deleted [OF res [unfolded tx] m])
      (use unused_hashes_Some [OF u] unused_hashes_distinct [OF u] tx in auto)
qed

lemma DeleteFile_wf [wf_intros]: "db_wf db \<Longrightarrow> db_wf (snd (DeleteFile eng fid db))"
  by (cases rule: DeleteFile_cases [of eng fid db]) (simp_all add: drop_files_wf)

lemma ApplyRetention_cases:
  assumes "files_ok db"
  obtains (unchanged) "ApplyRetention eng name keep db = (([], []), db)"
  | (dropped) deleted unused where
      "ApplyRetention eng name keep db =
         ((deleted, unused), drop_files (superseded (TrimSpace name) (nat keep) db) db)"
      "0 < keep" "TrimSpace name \<noteq> []" "fm_id ` set deleted \<subseteq> superseded (TrimSpace name) (nat keep) db"
      "distinct unused"
      "set unused = cr_hash ` set (concat (map fm_chunks deleted)) -
         used_hashes (drop_files (superseded (TrimSpace name) (nat keep) db) db)"
      "\<And>m. m \<in> set deleted \<Longrightarrow> \<exists>j. FileByID (later j eng) db (fm_id m) = Some m"
      "(\<And>i. eng i) \<Longrightarrow> keys_ok db \<Longrightarrow> fm_id ` set deleted = superseded (TrimSpace name) (nat keep) db"
proof (cases "ApplyRetention eng name keep db = (([], []), db)")
  case False
  define rows where "rows = sort_by newer (filter (\<lambda>r. fr_backupName r = TrimSpace name) (db_files db))"
  define ids where "ids = map fr_id (drop (nat (normalizedRetention keep)) rows)"
  have guards: "TrimSpace name \<noteq> []" "0 < normalizedRetention keep"
    using False by (cases "TrimSpace name = []"; cases "normalizedRetention keep \<le> 0";
      simp add: ApplyRetention_def Let_def)+
  then have keep: "0 < keep" "nat (normalizedRetention keep) = nat keep"
    by (auto simp: normalizedRetention_def split: if_splits)
  have ids: "set ids = superseded (TrimSpace name) (nat keep) db"
    using set_superseded [OF assms] by (simp add: ids_def rows_def keep)
  let ?k = "1 + 2 * length ids"
  let ?deleted = "read_files eng 1 db ids"
  obtain tx unused k where del: "delete_rows eng (Suc ?k) ids db = Some tx"
    and u: "unused_hashes eng (Suc ?k + length ids) tx [] []
      (concat (map (\<lambda>m. map cr_hash (fm_chunks m)) ?deleted)) = Some (unused, k)"
    and res: "ApplyRetention eng name keep db = ((?deleted, unused), tx)"
    using False unfolding ApplyRetention_def Let_def rows_def [symmetric] ids_def [symmetric]
    by (auto split: if_splits option.splits)
  have tx: "tx = drop_files (superseded (TrimSpace name) (nat keep) db) db"
    using delete_rows_Some [OF del] by (simp add: drop_files_def ids)
  have sub: "set ids \<subseteq> fr_id ` set (db_files db)" unfolding ids by (auto simp: superseded_def)
  show ?thesis
  proof (rule dropped [OF res [unfolded tx] keep(1) guards(1)])
    show "fm_id ` set ?deleted \<subseteq> superseded (TrimSpace name) (nat keep) db"
      using read_files_ids [of eng 1 db ids] ids by simp
    show "distinct unused" using unused_hashes_distinct [OF u] by simp
    show "set unused = cr_hash ` set (concat (map fm_chunks ?deleted)) -
        used_hashes (drop_files (superseded (TrimSpace name) (nat keep) db) db)"
      using unused_hashes_Some [OF u] tx by (auto simp: image_iff)
    show "\<And>m. m \<in> set ?deleted \<Longrightarrow> \<exists>j. FileByID (later j eng) db (fm_id m) = Some m"
      by (rule read_files_mem)
    show "fm_id ` set ?deleted = superseded (TrimSpace name) (nat keep) db"
      if "\<And>i. eng i" "keys_ok db"
      using read_files_all [of eng db ids 1] that sub ids by (metis set_map)
  qed
qed (use unchanged in blast)

lemma ApplyRetention_wf [wf_intros]:
  "db_wf db \<Longrightarrow> db_wf (snd (ApplyRetention eng name keep db))"
  by (cases rule: ApplyRetention_cases [of db eng name keep])
    (simp_all add: drop_files_wf, simp add: db_wf_def)

lemma wf_change_files:
  assumes "db_wf db" and "map fr_id fs = map fr_id (db_files db)"
    and "map (\<lambda>f. (fr_backupName f, fr_version f)) fs = map (\<lambda>f. (fr_backupName f, fr_version f)) (db_files db)"
    and "\<forall>f \<in> set fs. 0 < fr_replication f \<and> 0 \<le> fr_retention f \<and> 1 \<le> fr_version f"
  shows "db_wf (db\<lparr>db_files := fs\<rparr>)"
proof -
  have "fr_id ` set fs = fr_id ` set (db_files db)"
    using assms(2) by (metis set_map)
  with assms show ?thesis by (simp add: wf_defs)
qed

lemma UpdateFileReplication_wf [wf_intros]:
  assumes "db_wf db"
  shows "db_wf (snd (UpdateFileReplication eng fid r db))"
proof -
  let ?fs = "map (\<lambda>f. if fr_id f = fid then f\<lparr>fr_replication := normalizedReplication r\<rparr> else f) (db_files db)"
  have "db_wf (db\<lparr>db_files := ?fs\<rparr>)"
    by (rule wf_change_files [OF assms]) (use assms in \<open>auto simp: wf_defs\<close>)
  then show ?thesis using assms by (simp add: UpdateFileReplication_def Let_def)
qed

lemma ApplyRetention_ok:
  assumes "\<And>i. eng i" and "TrimSpace name \<noteq> []" and "0 < keep" and "files_ok db"
  shows "snd (ApplyRetention eng name keep db) = drop_files (superseded (TrimSpace name) (nat keep) db) db"
proof -
  define rows where "rows = sort_by newer (filter (\<lambda>r. fr_backupName r = TrimSpace name) (db_files db))"
  define ids where "ids = map fr_id (drop (nat (normalizedRetention keep)) rows)"
  have keep: "normalizedRetention keep = keep" using assms(3) by (simp add: normalizedRetention_def)
  have ids: "set ids = superseded (TrimSpace name) (nat keep) db"
    using set_superseded [OF assms(4)] by (simp add: ids_def rows_def keep)
  let ?k = "1 + 2 * length ids"
  obtain tx where del: "delete_rows eng (Suc ?k) ids db = Some tx"
    using delete_rows_ok assms(1) by blast
  obtain u k where u: "unused_hashes eng (Suc ?k + length ids) tx [] []
      (concat (map (\<lambda>m. map cr_hash (fm_chunks m)) (read_files eng 1 db ids))) = Some (u, k)"
    using unused_hashes_ok assms(1) by (metis prod.exhaust)
  have tx: "tx = drop_files (superseded (TrimSpace name) (nat keep) db) db"
    using delete_rows_Some [OF del] by (simp add: drop_files_def ids)
  show ?thesis
  proof (cases "ids = []")
    case True
    then have "superseded (TrimSpace name) (nat keep) db = {}" using ids by simp
    with True assms show ?thesis
      unfolding ApplyRetention_def Let_def rows_def [symmetric] ids_def [symmetric] by (simp add: keep)
  next
    case False
    with assms(1-3) del u tx show ?thesis
      unfolding ApplyRetention_def Let_def rows_def [symmetric] ids_def [symmetric] by (simp add: keep)
  qed
qed

lemma FileByID_drop_other:
  "fid \<notin> ids \<Longrightarrow> FileByID eng (drop_files ids db) fid = FileByID eng db fid"
proof -
  assume fid: "fid \<notin> ids"
  have "find (\<lambda>r. fr_id r = fid) (filter (\<lambda>r. fr_id r \<notin> ids) xs) = find (\<lambda>r. fr_id r = fid) xs"
    for xs :: "FileRow list"
    by (induction xs) (use fid in auto)
  moreover have "filter (\<lambda>c. ck_fileID c = fid \<and> ck_fileID c \<notin> ids) xs = filter (\<lambda>c. ck_fileID c = fid) xs"
    for xs :: "ChunkRow list"
    by (rule filter_cong) (use fid in auto)
  moreover have "fileChunks e (drop_files ids db) fid = fileChunks e db fid" for e
    by (simp add: fileChunks_def calculation(2) conj_commute)
  ultimately show ?thesis by (simp add: FileByID_def split: option.split)
qed

lemma FileByID_add_other:
  "fr_id row \<noteq> fid \<Longrightarrow>
     FileByID eng (db\<lparr>db_files := db_files db @ [row],
       db_fileChunks := db_fileChunks db @ map (chunk_row (fr_id row)) cs\<rparr>) fid = FileByID eng db fid"
proof -
  assume ne: "fr_id row \<noteq> fid"
  have "find (\<lambda>r. fr_id r = fid) (xs @ [row]) = find (\<lambda>r. fr_id r = fid) xs" for xs :: "FileRow list"
    by (induction xs) (use ne in auto)
  moreover have "fileChunks e (db\<lparr>db_files := db_files db @ [row],
       db_fileChunks := db_fileChunks db @ map (chunk_row (fr_id row)) cs\<rparr>) fid = fileChunks e db fid" for e
    using ne by (simp add: fileChunks_def)
  ultimately show ?thesis by (simp add: FileByID_def split: option.split)
qed

text \<open>
  C14: \<^verbatim>\<open>CreateFile\<close> is atomic under every failure of the database: either it reports an error
  and no table has changed, or the manifest it returns is the one a later \<^verbatim>\<open>File\<close> reads, every
  other manifest reads as before, the version is higher than every version of the same backup,
  and the tables are well formed (unique ids and versions, no dangling chunk row).
\<close>

theorem create_file_atomic:
  assumes "db_wf db" and "sorted_wrt (<) (map cr_index (cf_chunks req))"
  shows "case CreateFile eng now date uuid req db of
      (Inl e, db') \<Rightarrow> db' = db
    | (Inr m, db') \<Rightarrow>
        db_wf db' \<and> FileByID (\<lambda>_. True) db' (fm_id m) = Some m \<and>
        (\<forall>fid. fid \<noteq> fm_id m \<longrightarrow> FileByID (\<lambda>_. True) db' fid = FileByID (\<lambda>_. True) db fid) \<and>
        (\<forall>r \<in> set (db_files db). fr_backupName r = fm_backupName m \<longrightarrow> fr_version r < fm_version m)"
proof (cases rule: CreateFile_cases [of eng now date uuid req db])
  case (created row m)
  have ids: "fm_id m = fr_id row" "fm_backupName m = fr_backupName row" "fm_version m = fr_version row"
    by (simp_all add: created(2) scanFile_def)
  have "\<forall>r \<in> set (db_files db). fr_backupName r = fr_backupName row \<longrightarrow> fr_version r < fr_version row"
    using next_version_gt [of _ db] unfolding created(6) by metis
  with CreateFile_wf [OF assms(1), of eng now date uuid req]
    CreateFile_FileByID [OF assms(1) created(1) assms(2), of "\<lambda>_. True"]
  show ?thesis unfolding created(1) by (simp add: ids FileByID_add_other)
qed simp

text \<open>
  C15: retention keeps exactly the newest versions. When the statements run, \<^verbatim>\<open>ApplyRetention\<close> of
  a positive \<open>keep\<close> leaves a manifest in place if and only if it belongs to another backup or
  fewer than \<open>keep\<close> versions of its own backup are newer; the manifests left read as before, and
  the hashes reported unused are those of dropped manifests that no manifest left needs.
\<close>

theorem retention_keeps_newest:
  assumes "db_wf db" and "\<And>i. eng i" and "TrimSpace name \<noteq> []" and "0 < keep"
    and "ApplyRetention eng name keep db = ((deleted, unused), db')"
  shows "db_wf db' \<and>
    (\<forall>r. r \<in> set (db_files db') \<longleftrightarrow> r \<in> set (db_files db) \<and>
       (fr_backupName r \<noteq> TrimSpace name \<or>
        card {r' \<in> set (db_files db). fr_backupName r' = TrimSpace name \<and> fr_version r < fr_version r'} < nat keep)) \<and>
    (\<forall>r \<in> set (db_files db'). FileByID (\<lambda>_. True) db' (fr_id r) = FileByID (\<lambda>_. True) db (fr_id r)) \<and>
    (\<forall>h. h \<in> set unused \<longleftrightarrow>
       (\<exists>r \<in> set (db_files db) - set (db_files db'). h \<in> file_hashes db (fr_id r)) \<and> h \<notin> used_hashes db')"
proof -
  have files: "files_ok db" and keys: "keys_ok db" and refs: "refs_ok db" using assms(1) by (simp_all add: db_wf_def)
  let ?ids = "superseded (TrimSpace name) (nat keep) db"
  have db': "db' = drop_files ?ids db"
    using ApplyRetention_ok [of eng, OF assms(2-4) files] assms(5) by simp
  have mem: "fr_id r \<in> ?ids \<longleftrightarrow> fr_backupName r = TrimSpace name \<and> nat keep \<le>
      card {r' \<in> set (db_files db). fr_backupName r' = TrimSpace name \<and> fr_version r < fr_version r'}"
    if r: "r \<in> set (db_files db)" for r
  proof -
    have inj: "\<And>r'. r' \<in> set (db_files db) \<Longrightarrow> fr_id r' = fr_id r \<Longrightarrow> r' = r"
      using keys r by (auto simp: keys_ok_def distinct_map inj_on_def)
    then show ?thesis using r by (auto simp: superseded_def image_iff)
  qed
  have "fr_id r \<notin> ?ids" if "r \<in> set (db_files db')" for r
    using that by (simp add: db')
  then have reads: "\<forall>r \<in> set (db_files db'). FileByID (\<lambda>_. True) db' (fr_id r) = FileByID (\<lambda>_. True) db (fr_id r)"
    by (simp add: db' FileByID_drop_other)
  have dropped: "fr_id ` (set (db_files db) - set (db_files db')) = ?ids"
    unfolding db' superseded_def by auto
  from files have "set unused = \<Union> (file_hashes db ` ?ids) - used_hashes db'"
  proof (cases rule: ApplyRetention_cases [of _ eng name keep])
    case unchanged
    then have "db' = db" "unused = []" using assms(5) by auto
    with dropped show ?thesis by auto
  next
    case (dropped deleted' unused')
    then have eq: "deleted' = deleted" "unused' = unused" using assms(5) by simp_all
    have "cr_hash ` set (fm_chunks m) = file_hashes db (fm_id m)" if "m \<in> set deleted" for m
    proof -
      from dropped(7) [of m] that obtain j where "FileByID (later j eng) db (fm_id m) = Some m"
        unfolding eq by blast
      from FileByID_hashes [OF this] assms(2) show ?thesis by (simp add: later_def)
    qed
    then have "cr_hash ` set (concat (map fm_chunks deleted)) = \<Union> (file_hashes db ` (fm_id ` set deleted))"
      by (simp add: image_UN)
    with dropped(6,8) keys assms(2) show ?thesis by (simp add: eq db')
  qed
  then have unused: "h \<in> set unused \<longleftrightarrow>
      (\<exists>r \<in> set (db_files db) - set (db_files db'). h \<in> file_hashes db (fr_id r)) \<and> h \<notin> used_hashes db'" for h
    unfolding dropped [symmetric] by auto
  have "db_wf db'" using ApplyRetention_wf [OF assms(1), of eng name keep] assms(5) by simp
  with reads unused mem show ?thesis by (auto simp: db')
qed

text \<open>
  C16: deletion of a manifest under every failure of the database. A refused deletion changes
  nothing. A successful one removes exactly that manifest; every hash it reports as unused
  belonged to it and is needed by no manifest left, so the bytes may be deleted on the nodes;
  and unless the query for its chunks failed, no such hash is left out.
\<close>

theorem delete_file_unused:
  assumes "db_wf db"
  shows "case DeleteFile eng fid db of
      (None, db') \<Rightarrow> db' = db
    | (Some (m, unused), db') \<Rightarrow>
        db_wf db' \<and> fm_id m = fid \<and> FileByID (\<lambda>_. True) db' fid = None \<and>
        (\<forall>other. other \<noteq> fid \<longrightarrow> FileByID (\<lambda>_. True) db' other = FileByID (\<lambda>_. True) db other) \<and>
        (\<forall>h. h \<in> set unused \<longleftrightarrow> eng 1 \<and> h \<in> file_hashes db fid \<and> h \<notin> used_hashes db')"
proof (cases rule: DeleteFile_cases [of eng fid db])
  case (deleted m unused)
  have "FileByID (\<lambda>_. True) (drop_files {fid} db) fid = None"
    by (auto simp: FileByID_def find_None_iff split: option.splits dest!: find_SomeD)
  moreover have "db_wf (drop_files {fid} db)" by (rule drop_files_wf [OF assms])
  moreover have "fm_id m = fid" using deleted(2) by (rule FileByID_id)
  moreover have "set unused = (if eng 1 then file_hashes db fid else {}) - used_hashes (drop_files {fid} db)"
    using deleted(4) FileByID_hashes [OF deleted(2)] by simp
  ultimately show ?thesis
    unfolding deleted(1) by (simp add: FileByID_drop_other)
qed simp

definition demo_request :: CreateFileRequest where
  "demo_request = \<lparr>cf_name = ''disk'', cf_backupName = [], cf_retention = 1, cf_size = 2,
     cf_chunkSize = 1, cf_replication = 0, cf_dedupNew = 2, cf_dedupReused = 0,
     cf_chunks = [\<lparr>cr_index = 0, cr_hash = ''b'', cr_size = 1\<rparr>,
       \<lparr>cr_index = 1, cr_hash = ''d'', cr_size = 1\<rparr>]\<rparr>"

lemma demo_create:
  "\<exists>m db'. CreateFile (\<lambda>_. True) 0 ''20260101'' ''u'' demo_request demo_db = (Inr m, db')"
proof -
  have "distinct (map cr_index (cf_chunks demo_request))" by (simp add: demo_request_def)
  moreover have "''20260101'' @ ''-'' @ ''u'' \<notin> fr_id ` set (db_files demo_db)"
    by (simp add: demo_db_def demo_file_def)
  ultimately obtain m where "fst (CreateFile (\<lambda>_. True) 0 ''20260101'' ''u'' demo_request demo_db) = Inr m"
    using CreateFile_ok [of "\<lambda>_. True", OF TrueI demo_wf] by blast
  then show ?thesis by (metis prod.collapse)
qed

lemma create_file_atomic_witness:
  "\<exists>m db'. CreateFile (\<lambda>_. True) 0 ''20260101'' ''u'' demo_request demo_db = (Inr m, db') \<and>
     db_wf db' \<and> FileByID (\<lambda>_. True) db' (fm_id m) = Some m"
proof -
  have "sorted_wrt (<) (map cr_index (cf_chunks demo_request))" by (simp add: demo_request_def)
  from create_file_atomic [OF demo_wf this, of "\<lambda>_. True" 0 "''20260101''" "''u''"] demo_create
  show ?thesis by auto
qed

lemma demo_trim: "TrimSpace ''disk'' = ''disk''"
  by (simp add: TrimSpace_visible visible_def)

lemma demo_retention:
  "snd (fst (ApplyRetention (\<lambda>_. True) ''disk'' 1 demo_db)) = [''a'']"
  "map fr_id (db_files (snd (ApplyRetention (\<lambda>_. True) ''disk'' 1 demo_db))) = [''f2'']"
  by (simp_all add: ApplyRetention_def demo_trim normalizedRetention_def demo_db_def demo_file_def
      demo_chunk_def newer_def FileByID_def later_def fileChunks_def delete_row_def scanFile_def Let_def)

lemma retention_keeps_newest_witness:
  "\<exists>deleted unused db'. ApplyRetention (\<lambda>_. True) ''disk'' 1 demo_db = ((deleted, unused), db') \<and>
     db_wf db' \<and> map fr_id (db_files db') = [''f2''] \<and> unused = [''a'']"
proof -
  obtain deleted unused db' where run: "ApplyRetention (\<lambda>_. True) ''disk'' 1 demo_db = ((deleted, unused), db')"
    by (metis prod.exhaust)
  have "TrimSpace ''disk'' \<noteq> []" by (simp add: demo_trim)
  with demo_retention show ?thesis
    using retention_keeps_newest [OF demo_wf _ _ _ run] run by simp
qed

lemma delete_file_unused_witness:
  "\<exists>m db'. DeleteFile (\<lambda>_. True) ''f1'' demo_db = (Some (m, [''a'']), db') \<and> db_wf db' \<and>
     ''a'' \<notin> used_hashes db'"
proof -
  have "map_option snd (fst (DeleteFile (\<lambda>_. True) ''f1'' demo_db)) = Some [''a'']"
    by code_simp
  then obtain m db' where "DeleteFile (\<lambda>_. True) ''f1'' demo_db = (Some (m, [''a'']), db')"
    by (cases "DeleteFile (\<lambda>_. True) ''f1'' demo_db") auto
  then show ?thesis using delete_file_unused [OF demo_wf, where eng = "\<lambda>_. True" and fid = "''f1''"] by auto
qed

end
