(* ===== verification/Tasks.thy ===== *)
theory Tasks
  imports FileMeta
begin

text \<open>
  The work lists of the background jobs (\<^verbatim>\<open>ReplicationTasks\<close>, \<^verbatim>\<open>PruneTasks\<close> and
  \<^verbatim>\<open>OrphanChunkTasks\<close> of \<^verbatim>\<open>internal/server/state.go\<close>): the aggregate queries over the four
  tables and the loops that complete their rows.
\<close>

record ReplicationTask =
  rt_hash :: string
  rt_size :: int
  rt_desired :: int
  rt_active :: int
  rt_missing :: int
  rt_sources :: "NodeInfo list"
  rt_candidates :: "NodeInfo list"

record PruneTask =
  pt_hash :: string
  pt_size :: int
  pt_desired :: int
  pt_active :: int
  pt_extra :: int
  pt_locations :: "NodeInfo list"

record OrphanChunkTask =
  ot_hash :: string
  ot_size :: int
  ot_node :: NodeInfo

subsection \<open>The common part of the two grouped queries\<close>

text \<open>\<^verbatim>\<open>file_chunks fc JOIN files f ON f.id = fc.file_id\<close>\<close>

definition chunks_of_files :: "Db \<Rightarrow> (ChunkRow \<times> FileRow) list" where
  "chunks_of_files db =
     concat (map (\<lambda>c. map (Pair c) (filter (\<lambda>f. fr_id f = ck_fileID c) (db_files db))) (db_fileChunks db))"

text \<open>\<^verbatim>\<open>COUNT(DISTINCT CASE WHEN n.last_seen >= cutoff THEN cl.node_id END)\<close> within a group\<close>

definition active_copies :: "nanos \<Rightarrow> Db \<Rightarrow> string \<Rightarrow> int" where
  "active_copies now db hash =
     int (length (remdups (map lo_nodeID (filter (\<lambda>l. lo_hash l = hash \<and>
       (\<exists>n \<in> set (db_nodes db). ni_id n = lo_nodeID l \<and> cutoff now \<le> ni_lastSeen n)) (db_locations db)))))"

definition max_of :: "int list \<Rightarrow> int" where
  "max_of xs = fold max (tl xs) (hd xs)"

record HashRow =
  hr_hash :: string
  hr_size :: int
  hr_desired :: int
  hr_active :: int

definition hash_rows :: "nanos \<Rightarrow> Db \<Rightarrow> HashRow list" where
  "hash_rows now db =
     (let joined = chunks_of_files db in
      map (\<lambda>hash. let group = filter (\<lambda>(c, f). ck_hash c = hash) joined in
             \<lparr>hr_hash = hash, hr_size = max_of (map (\<lambda>(c, f). ck_size c) group),
              hr_desired = max_of (map (\<lambda>(c, f). fr_replication f) group),
              hr_active = active_copies now db hash\<rparr>)
        (remdups (map (\<lambda>(c, f). ck_hash c) joined)))"

subsection \<open>Replication\<close>

text \<open>\<^verbatim>\<open>ORDER BY desired - active DESC, fc.hash\<close> and \<^verbatim>\<open>ORDER BY active - desired DESC, fc.hash\<close>\<close>

definition missing_less :: "HashRow \<Rightarrow> HashRow \<Rightarrow> bool" where
  "missing_less a b =
     (let ma = hr_desired a - hr_active a; mb = hr_desired b - hr_active b in
      if ma \<noteq> mb then ma > mb else hr_hash a < hr_hash b)"

definition extra_less :: "HashRow \<Rightarrow> HashRow \<Rightarrow> bool" where
  "extra_less a b =
     (let ea = hr_active a - hr_desired a; eb = hr_active b - hr_desired b in
      if ea \<noteq> eb then ea > eb else hr_hash a < hr_hash b)"

text \<open>Statements: 0 the query, then per task the locations and the candidates.\<close>

fun replication_tasks :: "engine \<Rightarrow> nat \<Rightarrow> nanos \<Rightarrow> Db \<Rightarrow> HashRow list \<Rightarrow> ReplicationTask list" where
  "replication_tasks eng k now db [] = []"
| "replication_tasks eng k now db (row # rows) =
     (let missing = hr_desired row - hr_active row in
      \<lparr>rt_hash = hr_hash row, rt_size = hr_size row, rt_desired = hr_desired row,
       rt_active = hr_active row, rt_missing = missing,
       rt_sources = onlineNodes (ChunkLocations (later k eng) now db (hr_hash row)),
       rt_candidates = PlanChunkSpread (later (k + 1) eng) now db (hr_hash row) (hr_size row) missing (\<lambda>_. 0)\<rparr>
      # replication_tasks eng (k + 2) now db rows)"

definition ReplicationTasks :: "engine \<Rightarrow> nanos \<Rightarrow> int \<Rightarrow> Db \<Rightarrow> ReplicationTask list" where
  "ReplicationTasks eng now limit db =
     (let limit = (if limit \<le> 0 then 100 else limit) in
      if \<not> eng 0 then []
      else replication_tasks eng 1 now db (take (nat limit)
        (sort_by missing_less (filter (\<lambda>r. hr_active r < hr_desired r) (hash_rows now db)))))"

subsection \<open>Pruning\<close>

definition prune_less :: "NodeInfo \<Rightarrow> NodeInfo \<Rightarrow> bool" where
  "prune_less a b =
     (if ni_free a \<noteq> ni_free b then ni_free a < ni_free b
      else if ni_lastSeen a \<noteq> ni_lastSeen b then ni_lastSeen a < ni_lastSeen b
      else ni_id a < ni_id b)"

fun prune_tasks :: "engine \<Rightarrow> nat \<Rightarrow> nanos \<Rightarrow> Db \<Rightarrow> HashRow list \<Rightarrow> PruneTask list" where
  "prune_tasks eng k now db [] = []"
| "prune_tasks eng k now db (row # rows) =
     \<lparr>pt_hash = hr_hash row, pt_size = hr_size row, pt_desired = hr_desired row,
      pt_active = hr_active row, pt_extra = hr_active row - hr_desired row,
      pt_locations = sort_by prune_less (onlineNodes (ChunkLocations (later k eng) now db (hr_hash row)))\<rparr>
     # prune_tasks eng (k + 1) now db rows"

definition PruneTasks :: "engine \<Rightarrow> nanos \<Rightarrow> int \<Rightarrow> Db \<Rightarrow> PruneTask list" where
  "PruneTasks eng now limit db =
     (let limit = (if limit \<le> 0 then 100 else limit) in
      if \<not> eng 0 then []
      else prune_tasks eng 1 now db (take (nat limit)
        (sort_by extra_less (filter (\<lambda>r. hr_active r > hr_desired r) (hash_rows now db)))))"

subsection \<open>Orphans\<close>

definition orphan_less :: "OrphanChunkTask \<Rightarrow> OrphanChunkTask \<Rightarrow> bool" where
  "orphan_less a b =
     (if ot_hash a \<noteq> ot_hash b then ot_hash a < ot_hash b else ni_id (ot_node a) < ni_id (ot_node b))"

definition orphan_rows :: "nanos \<Rightarrow> Db \<Rightarrow> OrphanChunkTask list" where
  "orphan_rows now db =
     concat (map (\<lambda>l. map (\<lambda>n. \<lparr>ot_hash = lo_hash l, ot_size = lo_size l, ot_node = n\<rparr>)
         (filter (\<lambda>n. ni_id n = lo_nodeID l \<and> cutoff now \<le> ni_lastSeen n) (db_nodes db)))
       (filter (\<lambda>l. \<not> (\<exists>c \<in> set (db_fileChunks db). ck_hash c = lo_hash l)) (db_locations db)))"

definition OrphanChunkTasks :: "engine \<Rightarrow> nanos \<Rightarrow> int \<Rightarrow> Db \<Rightarrow> OrphanChunkTask list" where
  "OrphanChunkTasks eng now limit db =
     (let limit = (if limit \<le> 0 then 100 else limit) in
      if \<not> eng 0 then []
      else map (\<lambda>t. t\<lparr>ot_node := withDerivedStatus now (ot_node t)\<rparr>)
        (take (nat limit) (sort_by orphan_less (orphan_rows now db))))"

subsection \<open>The orders\<close>

interpretation missing: less_order missing_less
  by unfold_locales (auto simp: missing_less_def Let_def split: if_splits)

interpretation extra: less_order extra_less
  by unfold_locales (auto simp: extra_less_def Let_def split: if_splits)

interpretation prune: less_order prune_less
  by unfold_locales (auto simp: prune_less_def split: if_splits)

interpretation orphan: less_order orphan_less
  by unfold_locales (auto simp: orphan_less_def split: if_splits)

subsection \<open>What the queries select\<close>

text \<open>The number of copies the manifests ask for: the highest replication among the files with the chunk.\<close>

definition wanted_by :: "Db \<Rightarrow> string \<Rightarrow> int set" where
  "wanted_by db h = {fr_replication f |f c. f \<in> set (db_files db) \<and> c \<in> set (db_fileChunks db) \<and>
     ck_fileID c = fr_id f \<and> ck_hash c = h}"

definition live_holders :: "nanos \<Rightarrow> Db \<Rightarrow> string \<Rightarrow> string set" where
  "live_holders now db h = {ni_id n |n. n \<in> set (db_nodes db) \<and> alive now n \<and> ni_id n \<in> holders db h}"

lemma active_copies_card: "active_copies now db h = int (card (live_holders now db h))"
proof -
  have "set (map lo_nodeID (filter (\<lambda>l. lo_hash l = h \<and>
       (\<exists>n \<in> set (db_nodes db). ni_id n = lo_nodeID l \<and> cutoff now \<le> ni_lastSeen n)) (db_locations db))) =
     live_holders now db h"
    by (auto simp: live_holders_def holders_iff alive_def image_iff) metis+
  then show ?thesis unfolding active_copies_def by (metis length_remdups_card_conv)
qed

lemma max_of_Max: "xs \<noteq> [] \<Longrightarrow> max_of xs = Max (set xs)"
  by (cases xs) (simp_all add: max_of_def fold_max)

lemma set_chunks_of_files:
  "(c, f) \<in> set (chunks_of_files db) \<longleftrightarrow>
     c \<in> set (db_fileChunks db) \<and> f \<in> set (db_files db) \<and> fr_id f = ck_fileID c"
  by (auto simp: chunks_of_files_def)

lemma hash_rows_hash:
  assumes "refs_ok db"
  shows "hr_hash ` set (hash_rows now db) = used_hashes db"
proof -
  have "h \<in> used_hashes db \<longleftrightarrow> (\<exists>c f. (c, f) \<in> set (chunks_of_files db) \<and> ck_hash c = h)" for h
    using assms by (fastforce simp: set_chunks_of_files used_hashes_def refs_ok_def)
  then show ?thesis
    by (force simp: hash_rows_def Let_def image_iff)
qed

lemma distinct_hash_rows: "distinct (map hr_hash (hash_rows now db))"
  by (simp add: hash_rows_def Let_def o_def)

lemma hash_rows_fields:
  assumes "r \<in> set (hash_rows now db)"
  shows "hr_desired r = Max (wanted_by db (hr_hash r))"
    and "hr_active r = int (card (live_holders now db (hr_hash r)))"
    and "wanted_by db (hr_hash r) \<noteq> {}"
proof -
  obtain c f where cf: "(c, f) \<in> set (chunks_of_files db)" "ck_hash c = hr_hash r"
    and r: "hr_desired r = max_of (map (\<lambda>(c, f). fr_replication f)
        (filter (\<lambda>(c, f). ck_hash c = hr_hash r) (chunks_of_files db)))"
      "hr_active r = active_copies now db (hr_hash r)"
    using assms by (auto simp: hash_rows_def Let_def)
  have "set (map (\<lambda>(c, f). fr_replication f) (filter (\<lambda>(c, f). ck_hash c = hr_hash r) (chunks_of_files db)))
      = wanted_by db (hr_hash r)"
    by (force simp: wanted_by_def set_chunks_of_files)
  moreover from cf have "filter (\<lambda>(c, f). ck_hash c = hr_hash r) (chunks_of_files db) \<noteq> []"
    by (auto simp: filter_empty_conv)
  ultimately show "hr_desired r = Max (wanted_by db (hr_hash r))"
    using r(1) by (simp only: max_of_Max map_is_Nil_conv not_False_eq_True)
  from cf show "wanted_by db (hr_hash r) \<noteq> {}"
    by (simp add: wanted_by_def set_chunks_of_files) metis
  show "hr_active r = int (card (live_holders now db (hr_hash r)))"
    using r(2) by (simp add: active_copies_card)
qed

lemma replication_tasks_hashes [simp]:
  "map rt_hash (replication_tasks eng k now db rows) = map hr_hash rows"
  by (induction eng k now db rows rule: replication_tasks.induct) (auto simp: Let_def)

lemma length_replication_tasks [simp]: "length (replication_tasks eng k now db rows) = length rows"
  by (metis length_map replication_tasks_hashes)

lemma replication_tasks_row:
  assumes "t \<in> set (replication_tasks eng k now db rows)"
  obtains r j where "r \<in> set rows" "rt_hash t = hr_hash r" "rt_missing t = hr_desired r - hr_active r"
    "rt_size t = hr_size r"
    "rt_sources t = onlineNodes (ChunkLocations (later j eng) now db (hr_hash r))"
    "rt_candidates t = PlanChunkSpread (later (j + 1) eng) now db (hr_hash r) (hr_size r) (rt_missing t) (\<lambda>_. 0)"
proof -
  from assms have "\<exists>r \<in> set rows. \<exists>j. rt_hash t = hr_hash r \<and> rt_missing t = hr_desired r - hr_active r \<and>
    rt_size t = hr_size r \<and>
    rt_sources t = onlineNodes (ChunkLocations (later j eng) now db (hr_hash r)) \<and>
    rt_candidates t = PlanChunkSpread (later (j + 1) eng) now db (hr_hash r) (hr_size r) (rt_missing t) (\<lambda>_. 0)"
    by (induction eng k now db rows rule: replication_tasks.induct) (auto simp: Let_def)
  then show ?thesis using that by blast
qed

lemma prune_tasks_hashes [simp]:
  "map pt_hash (prune_tasks eng k now db rows) = map hr_hash rows"
  by (induction eng k now db rows rule: prune_tasks.induct) auto

lemma prune_tasks_row:
  assumes "t \<in> set (prune_tasks eng k now db rows)"
  obtains r j where "r \<in> set rows" "pt_hash t = hr_hash r" "pt_extra t = hr_active r - hr_desired r"
    "pt_size t = hr_size r" "pt_desired t = hr_desired r"
    "pt_locations t = sort_by prune_less (onlineNodes (ChunkLocations (later j eng) now db (hr_hash r)))"
proof -
  from assms have "\<exists>r \<in> set rows. \<exists>j. pt_hash t = hr_hash r \<and> pt_extra t = hr_active r - hr_desired r \<and>
    pt_size t = hr_size r \<and> pt_desired t = hr_desired r \<and>
    pt_locations t = sort_by prune_less (onlineNodes (ChunkLocations (later j eng) now db (hr_hash r)))"
    by (induction eng k now db rows rule: prune_tasks.induct) (auto simp: Let_def)
  then show ?thesis using that by blast
qed

text \<open>The online holders of a chunk, as the derived status counts them.\<close>

definition online_holders :: "nanos \<Rightarrow> Db \<Rightarrow> string \<Rightarrow> NodeInfo set" where
  "online_holders now db h = {n \<in> withDerivedStatus now ` set (db_nodes db).
     ni_status n = ''online'' \<and> ni_id n \<in> holders db h}"

lemma set_online_locations:
  "eng 0 \<Longrightarrow> set (onlineNodes (ChunkLocations eng now db h)) = online_holders now db h"
  by (auto simp: onlineNodes_def set_ChunkLocations online_holders_def)

lemma online_locations_subset:
  "set (onlineNodes (ChunkLocations eng now db h)) \<subseteq> online_holders now db h"
  by (cases "eng 0") (auto simp: set_online_locations, simp add: onlineNodes_def ChunkLocations_def)

definition deficit :: "nanos \<Rightarrow> Db \<Rightarrow> string \<Rightarrow> int" where
  "deficit now db h = Max (wanted_by db h) - int (card (live_holders now db h))"

lemma selected_rows:
  fixes now :: nanos
  assumes "refs_ok db"
  defines "rows P \<equiv> filter (\<lambda>r. P (hr_desired r - hr_active r)) (hash_rows now db)"
  shows "hr_hash ` set (rows P) = {h \<in> used_hashes db. P (deficit now db h)}"
    and "distinct (map hr_hash (rows P))"
    and "r \<in> set (rows P) \<Longrightarrow> hr_desired r - hr_active r = deficit now db (hr_hash r)"
proof -
  have d: "hr_desired r - hr_active r = deficit now db (hr_hash r)" if "r \<in> set (hash_rows now db)" for r
    using hash_rows_fields [OF that] by (simp add: deficit_def)
  then show "r \<in> set (rows P) \<Longrightarrow> hr_desired r - hr_active r = deficit now db (hr_hash r)"
    by (simp add: rows_def)
  show "distinct (map hr_hash (rows P))"
    unfolding rows_def by (rule distinct_map_filter [OF distinct_hash_rows])
  have "hr_hash ` set (rows P) = {h \<in> hr_hash ` set (hash_rows now db). P (deficit now db h)}"
    using d by (force simp: rows_def)
  then show "hr_hash ` set (rows P) = {h \<in> used_hashes db. P (deficit now db h)}"
    by (simp add: hash_rows_hash [OF assms(1)])
qed

lemma distinct_map_take: "distinct (map f xs) \<Longrightarrow> distinct (map f (take n xs))"
  by (metis distinct_take take_map)

lemma replication_list:
  assumes "db_wf db" and "\<And>i. eng i"
  shows "let ts = ReplicationTasks eng now limit db;
             needy = {h \<in> used_hashes db. 0 < deficit now db h}
         in distinct (map rt_hash ts) \<and> rt_hash ` set ts \<subseteq> needy \<and>
            length ts = min (if limit \<le> 0 then 100 else nat limit) (card needy) \<and>
            (\<forall>t \<in> set ts. rt_missing t = deficit now db (rt_hash t) \<and>
               set (rt_sources t) = online_holders now db (rt_hash t) \<and>
               distinct (map ni_id (rt_candidates t)) \<and> int (length (rt_candidates t)) \<le> deficit now db (rt_hash t) \<and>
               (\<forall>n \<in> set (rt_candidates t). ni_id n \<notin> holders db (rt_hash t))) \<and>
            (\<forall>h \<in> needy. h \<notin> rt_hash ` set ts \<longrightarrow> (\<forall>t \<in> set ts. deficit now db h \<le> rt_missing t))"
proof -
  define needy where "needy = {h \<in> used_hashes db. 0 < deficit now db h}"
  define rows where "rows = filter (\<lambda>r. 0 < hr_desired r - hr_active r) (hash_rows now db)"
  define L where "L = (if limit \<le> 0 then 100 else nat limit)"
  define top where "top = take L (sort_by missing_less rows)"
  define ts where "ts = ReplicationTasks eng now limit db"
  have refs: "refs_ok db" and keys: "keys_ok db" using assms(1) by (simp_all add: db_wf_def)
  have sel: "hr_hash ` set rows = needy" "distinct (map hr_hash rows)"
    "\<And>r. r \<in> set rows \<Longrightarrow> hr_desired r - hr_active r = deficit now db (hr_hash r)"
    using selected_rows [OF refs, where now = now and P = "\<lambda>d. 0 < d"] unfolding rows_def needy_def by simp_all
  have ts: "ts = replication_tasks eng 1 now db top"
    using assms(2) by (simp add: ts_def ReplicationTasks_def top_def rows_def L_def)
  have top: "set top \<subseteq> set rows" unfolding top_def by (auto dest: in_set_takeD)
  have hashes: "map rt_hash ts = map hr_hash top" by (simp add: ts)
  have 1: "distinct (map rt_hash ts)"
    unfolding hashes top_def by (rule distinct_map_take) (simp add: sel(2))
  have img: "rt_hash ` set ts = hr_hash ` set top" by (metis hashes set_map)
  have "card needy = length rows"
    using distinct_card [OF sel(2)] by (simp add: sel(1))
  then have 2: "length ts = min L (card needy)" by (simp add: ts top_def min.commute)
  have 3: "rt_missing t = deficit now db (rt_hash t) \<and>
      set (rt_sources t) = online_holders now db (rt_hash t) \<and>
      distinct (map ni_id (rt_candidates t)) \<and> int (length (rt_candidates t)) \<le> deficit now db (rt_hash t) \<and>
      (\<forall>n \<in> set (rt_candidates t). ni_id n \<notin> holders db (rt_hash t))" if "t \<in> set ts" for t
    using that unfolding ts
  proof (cases rule: replication_tasks_row)
    case (1 r j)
    have miss: "rt_missing t = deficit now db (rt_hash t)" "0 < rt_missing t"
      using 1 top sel(3) by (auto simp: rows_def)
    have "int (length (rt_candidates t)) \<le> deficit now db (rt_hash t)"
      using length_PlanChunkSpread [of "later (j + 1) eng" now db "hr_hash r" "hr_size r" "rt_missing t" "\<lambda>_. 0"]
        assms(2) miss 1 by (simp add: later_def normalizedReplication_def)
    moreover have "\<forall>n \<in> set (rt_candidates t). ni_id n \<notin> holders db (rt_hash t)"
      using PlanChunkSpread_subset [of "later (j + 1) eng" now db "hr_hash r" "hr_size r" "rt_missing t" "\<lambda>_. 0"] 1
      by (auto simp: plan_eligible_def holders_def image_iff)
    ultimately show ?thesis
      using 1 miss distinct_PlanChunkSpread [OF keys] assms(2) by (simp add: set_online_locations later_def)
  qed
  have 4: "deficit now db h \<le> rt_missing t" if h: "h \<in> needy" "h \<notin> rt_hash ` set ts" and t: "t \<in> set ts" for h t
  proof -
    from h(1) obtain r where r: "r \<in> set rows" "hr_hash r = h" by (auto simp flip: sel(1))
    from t obtain r' where r': "r' \<in> set top" "rt_missing t = hr_desired r' - hr_active r'"
      unfolding ts by (auto elim: replication_tasks_row)
    have "r \<notin> set top" using r h(2) img by auto
    then have "\<not> missing_less r r'"
      using r' r unfolding top_def by (intro missing.take_sort_by_best)
    then show ?thesis using sel(3) [OF r(1)] r(2) r'(2) by (auto simp: missing_less_def Let_def split: if_splits)
  qed
  have "rt_hash ` set ts \<subseteq> needy" using top unfolding img by (auto simp flip: sel(1))
  with 1 2 3 4 show ?thesis
    unfolding Let_def ts_def [symmetric] needy_def [symmetric] L_def [symmetric] by (intro conjI ballI impI) simp_all
qed



subsection \<open>Pruning\<close>

lemma distinct_online_locations:
  "keys_ok db \<Longrightarrow> distinct (map ni_id (onlineNodes (ChunkLocations eng now db h)))"
  unfolding onlineNodes_def by (intro distinct_map_filter distinct_ChunkLocations)

lemma online_ids_live:
  "ni_id ` online_holders now db h \<subseteq> live_holders now db h"
  using online_alive by (auto simp: online_holders_def live_holders_def)

lemma online_ids_whole_second:
  assumes "nodes_ok db" and "now mod 10 ^ 9 = 0"
  shows "ni_id ` online_holders now db h = live_holders now db h"
proof (rule equalityI [OF online_ids_live subsetI])
  fix x assume "x \<in> live_holders now db h"
  then obtain n where n: "n \<in> set (db_nodes db)" "alive now n" "ni_id n \<in> holders db h" "x = ni_id n"
    by (auto simp: live_holders_def)
  then have "withDerivedStatus now n \<in> online_holders now db h"
    using assms alive_online by (auto simp: online_holders_def nodes_ok_def)
  then have "ni_id (withDerivedStatus now n) \<in> ni_id ` online_holders now db h" by (rule imageI)
  then show "x \<in> ni_id ` online_holders now db h" by (simp add: n(4))
qed

lemma finite_live_holders [simp]: "finite (live_holders now db h)"
  by (rule finite_subset [of _ "ni_id ` set (db_nodes db)"]) (auto simp: live_holders_def)

lemma prune_tasks_extra: "t \<in> set (prune_tasks eng k now db rows) \<Longrightarrow> pt_active t - pt_desired t = pt_extra t"
  by (induction eng k now db rows rule: prune_tasks.induct) auto

text \<open>The prune list, in the order of its making: at most one task for a chunk with surplus copies.\<close>

lemma prune_list:
  fixes now :: nanos and limit :: int
  assumes "db_wf db" and "\<And>i. eng i"
  defines "ts \<equiv> PruneTasks eng now limit db" and "many \<equiv> {h \<in> used_hashes db. deficit now db h < 0}"
  shows "distinct (map pt_hash ts)" "pt_hash ` set ts \<subseteq> many"
    "length ts = min (if limit \<le> 0 then 100 else nat limit) (card many)"
    "t \<in> set ts \<Longrightarrow> pt_extra t = - deficit now db (pt_hash t) \<and> pt_active t - pt_desired t = pt_extra t \<and>
       set (pt_locations t) = online_holders now db (pt_hash t) \<and> distinct (map ni_id (pt_locations t)) \<and>
       sorted_wrt (\<lambda>a b. ni_free a \<le> ni_free b) (pt_locations t)"
proof -
  have refs: "refs_ok db" and keys: "keys_ok db" using assms(1) by (simp_all add: db_wf_def)
  define rows where "rows = filter (\<lambda>r. hr_desired r - hr_active r < 0) (hash_rows now db)"
  define L where "L = (if limit \<le> 0 then 100 else nat limit)"
  define top where "top = take L (sort_by extra_less rows)"
  have sel: "hr_hash ` set rows = many" "distinct (map hr_hash rows)"
    "\<And>r. r \<in> set rows \<Longrightarrow> hr_desired r - hr_active r = deficit now db (hr_hash r)"
    using selected_rows [OF refs, where now = now and P = "\<lambda>d. d < 0"] unfolding rows_def many_def by simp_all
  have ts: "ts = prune_tasks eng 1 now db top"
    using assms(2) by (simp add: ts_def PruneTasks_def top_def rows_def L_def)
  have top: "set top \<subseteq> set rows" unfolding top_def by (auto dest: in_set_takeD)
  have hashes: "map pt_hash ts = map hr_hash top" by (simp add: ts)
  show "distinct (map pt_hash ts)" unfolding hashes top_def by (rule distinct_map_take) (simp add: sel(2))
  have "pt_hash ` set ts = hr_hash ` set top" by (metis hashes set_map)
  with top show "pt_hash ` set ts \<subseteq> many" by (auto simp flip: sel(1))
  have "card many = length rows" using distinct_card [OF sel(2)] by (simp add: sel(1))
  moreover have "length ts = length top" using arg_cong [OF hashes, of length] by simp
  ultimately have "length ts = min L (card many)" by (simp add: top_def min.commute)
  then show "length ts = min (if limit \<le> 0 then 100 else nat limit) (card many)" by (simp only: L_def)
  assume t: "t \<in> set ts"
  then have "t \<in> set (prune_tasks eng 1 now db top)" by (simp add: ts)
  then show "pt_extra t = - deficit now db (pt_hash t) \<and> pt_active t - pt_desired t = pt_extra t \<and>
      set (pt_locations t) = online_holders now db (pt_hash t) \<and> distinct (map ni_id (pt_locations t)) \<and>
      sorted_wrt (\<lambda>a b. ni_free a \<le> ni_free b) (pt_locations t)"
  proof (cases rule: prune_tasks_row)
    case (1 r j)
    then have "pt_extra t = - deficit now db (pt_hash t)" using sel(3) [of r] top by (force simp: 1(2,3))
    moreover have "pt_active t - pt_desired t = pt_extra t" using t by (simp add: ts prune_tasks_extra)
    moreover have "set (pt_locations t) = online_holders now db (pt_hash t)"
      using 1(2,6) assms(2) by (simp add: set_online_locations later_def)
    moreover have "distinct (map ni_id (pt_locations t))" using distinct_online_locations [OF keys] by (simp add: 1(6))
    moreover have "sorted_wrt (\<lambda>a b. ni_free a \<le> ni_free b) (pt_locations t)"
      unfolding 1(6) by (rule sorted_wrt_mono_rel [OF _ prune.sorted_sort_by])
        (auto simp: prune_less_def split: if_splits)
    ultimately show ?thesis by blast
  qed
qed


text \<open>One chunk wanted once and held by two nodes, the second seen later than the first.\<close>

definition demo_surplus :: Db where
  "demo_surplus = \<lparr>db_nodes = [demo_node ''n1'' 50, demo_node ''n2'' 80\<lparr>ni_lastSeen := 1010\<rparr>],
     db_files = [demo_file ''f1'' 1\<lparr>fr_replication := 1\<rparr>],
     db_fileChunks = [demo_chunk ''f1'' 0 ''b''],
     db_locations = [\<lparr>lo_hash = ''b'', lo_nodeID = ''n1'', lo_size = 1, lo_verifiedAt = 900\<rparr>,
       \<lparr>lo_hash = ''b'', lo_nodeID = ''n2'', lo_size = 1, lo_verifiedAt = 900\<rparr>]\<rparr>"

lemma demo_surplus_wf: "db_wf demo_surplus"
  by (simp add: wf_defs demo_surplus_def demo_node_def demo_file_def demo_chunk_def)

lemma demo_order: "(''n1'' < (''n2'' :: string)) = True" "(''n2'' < (''n1'' :: string)) = False"
  by code_simp+

lemmas tasks_eval = demo_order later_def PruneTasks_def hash_rows_def chunks_of_files_def max_of_def active_copies_def
  ChunkLocations_def onlineNodes_def withDerivedStatus_def cutoff_def rfc3339_def nodeOfflineAfter_def
  demo_surplus_def demo_node_def demo_file_def demo_chunk_def prune_less_def Let_def


text \<open>
  The gap between the two clocks is real. There are well-formed tables and a moment at which
  the prune list names as surplus the only copy on an online node: the query still counts the
  node that was last seen 45 seconds and one nanosecond ago, the status check does not.
\<close>

theorem prune_may_drop_last_online:
  "\<exists>db now t. db_wf db \<and> t \<in> set (PruneTasks (\<lambda>_. True) now 0 db) \<and> 0 < Max (wanted_by db (pt_hash t)) \<and>
     pt_locations t \<noteq> [] \<and> drop (nat (pt_extra t)) (pt_locations t) = []"
proof -
  let ?ts = "PruneTasks (\<lambda>_. True) (1045 * 10 ^ 9 + 1) 0 demo_surplus"
  have "map (\<lambda>t. (pt_hash t, pt_extra t, map ni_id (pt_locations t))) ?ts = [(''b'', 1, [''n2''])]"
    by (simp add: tasks_eval)
  then obtain t where t: "t \<in> set ?ts" "pt_hash t = ''b''" "pt_extra t = 1" "map ni_id (pt_locations t) = [''n2'']"
    by (cases ?ts) auto
  have "wanted_by demo_surplus ''b'' = {1}"
    by (auto simp: wanted_by_def demo_surplus_def demo_file_def demo_chunk_def)
  with t demo_surplus_wf show ?thesis
    by (intro exI [of _ demo_surplus] exI [of _ "1045 * 10 ^ 9 + 1"] exI [of _ t]) auto
qed

subsection \<open>Orphans\<close>

text \<open>
  C19: the orphan list is safe and complete. Whatever fails, it never names a chunk some manifest
  needs, and only copies the tables know on live nodes; when it is shorter than the limit and
  the query ran, every copy of an unneeded chunk on a live node is on it.
\<close>

theorem orphan_tasks_exact:
  "let ts = OrphanChunkTasks eng now limit db in
     (\<forall>t \<in> set ts. ot_hash t \<notin> used_hashes db \<and> ni_id (ot_node t) \<in> holders db (ot_hash t) \<and>
        alive now (ot_node t)) \<and>
     (eng 0 \<and> length ts < (if limit \<le> 0 then 100 else nat limit) \<longrightarrow>
        (\<forall>h. \<forall>n \<in> set (db_nodes db). h \<notin> used_hashes db \<and> ni_id n \<in> holders db h \<and> alive now n \<longrightarrow>
           (\<exists>t \<in> set ts. ot_hash t = h \<and> ni_id (ot_node t) = ni_id n)))"
proof -
  define L where "L = (if limit \<le> 0 then 100 else nat limit)"
  define ts where "ts = OrphanChunkTasks eng now limit db"
  have ts: "ts = (if eng 0 then map (\<lambda>t. t\<lparr>ot_node := withDerivedStatus now (ot_node t)\<rparr>)
      (take L (sort_by orphan_less (orphan_rows now db))) else [])"
    by (simp add: ts_def OrphanChunkTasks_def L_def)
  have rows: "t \<in> set (orphan_rows now db) \<longleftrightarrow> (\<exists>l \<in> set (db_locations db). \<exists>n \<in> set (db_nodes db).
      lo_hash l \<notin> used_hashes db \<and> ni_id n = lo_nodeID l \<and> alive now n \<and>
      t = \<lparr>ot_hash = lo_hash l, ot_size = lo_size l, ot_node = n\<rparr>)" for t
  proof -
    have "(\<exists>c \<in> set (db_fileChunks db). ck_hash c = h) \<longleftrightarrow> h \<in> used_hashes db" for h
      by (auto simp: used_hashes_def)
    then show ?thesis unfolding orphan_rows_def by (auto simp: alive_def image_iff)
  qed
  have "\<forall>t \<in> set ts. ot_hash t \<notin> used_hashes db \<and> ni_id (ot_node t) \<in> holders db (ot_hash t) \<and> alive now (ot_node t)"
    by (auto simp: ts rows holders_iff alive_def dest!: in_set_takeD) blast
  moreover have "\<exists>t \<in> set ts. ot_hash t = h \<and> ni_id (ot_node t) = ni_id n"
    if c: "eng 0" "length ts < L" and n: "n \<in> set (db_nodes db)" "h \<notin> used_hashes db"
      "ni_id n \<in> holders db h" "alive now n" for h n
  proof -
    from n(3) obtain l where l: "l \<in> set (db_locations db)" "lo_hash l = h" "lo_nodeID l = ni_id n"
      by (auto simp: holders_iff)
    have "take L (sort_by orphan_less (orphan_rows now db)) = sort_by orphan_less (orphan_rows now db)"
      using c by (simp add: ts)
    moreover have "\<lparr>ot_hash = h, ot_size = lo_size l, ot_node = n\<rparr> \<in> set (orphan_rows now db)"
      unfolding rows using l n by (intro bexI [of _ l] bexI [of _ n]) simp_all
    ultimately show ?thesis using c(1) by (force simp: ts)
  qed
  ultimately show ?thesis unfolding Let_def ts_def [symmetric] L_def [symmetric] by blast
qed

lemma orphan_tasks_exact_witness:
  "let t = hd (OrphanChunkTasks (\<lambda>_. True) (1000 * 10 ^ 9) 0 (demo_db\<lparr>db_fileChunks := []\<rparr>)) in
     ot_hash t = ''a'' \<and> alive (1000 * 10 ^ 9) (ot_node t)"
proof -
  let ?ts = "OrphanChunkTasks (\<lambda>_. True) (1000 * 10 ^ 9) 0 (demo_db\<lparr>db_fileChunks := []\<rparr>)"
  have "map ot_hash ?ts = [''a'', ''b'']" by code_simp
  then have "ot_hash (hd ?ts) = ''a''" "hd ?ts \<in> set ?ts" by (cases ?ts; simp)+
  with orphan_tasks_exact [of "\<lambda>_. True" "1000 * 10 ^ 9" 0 "demo_db\<lparr>db_fileChunks := []\<rparr>"]
  show ?thesis by (simp add: Let_def)
qed

end
