(* ===== verification/Network.thy ===== *)
theory Network
  imports Node Tasks Chunker
begin

text \<open>
  The deployed system as the server sees it: its database, the node processes behind their
  base URLs, and the token its HTTP client attaches. Every call that leaves the server's own
  memory, a \<^verbatim>\<open>State\<close> method or a request to a node, is a tick; an \<open>env\<close> says for each tick
  what the clock shows, which statements of the method run, what happens to the request on
  the wire, which system calls fail on the node that serves it, and whether a write to the
  client of a download succeeds. The requests are those of
  \<^verbatim>\<open>putChunk\<close>, \<^verbatim>\<open>deleteChunk\<close>, \<^verbatim>\<open>clearNodeStorage\<close> and \<^verbatim>\<open>fetchFromAny\<close> in
  \<^verbatim>\<open>internal/server/handlers.go\<close>, and they are answered by \<^term>\<open>node_handler\<close>. A hash is
  taken to be one segment of the URL path, as every \<^verbatim>\<open>sha256:\<close> hash is.
\<close>

text \<open>
  \<open>RequestCut k\<close>: the node received only \<open>k\<close> bytes of the body. \<open>BodyLost\<close>: the status line
  arrived and reading the response body failed.
\<close>

datatype delivery = Delivered | RequestLost | RequestCut nat | ResponseLost | BodyLost

record env =
  ev_now :: "nat \<Rightarrow> nanos"
  ev_eng :: "nat \<Rightarrow> engine"
  ev_net :: "nat \<Rightarrow> delivery"
  ev_io :: "nat \<Rightarrow> io_env"
  ev_client :: "nat \<Rightarrow> bool"

record World =
  w_db :: Db
  w_nodes :: "string \<Rightarrow> Node option"
  w_token :: string
  w_tick :: nat

definition tick :: "World \<Rightarrow> World" where
  "tick w = w\<lparr>w_tick := Suc (w_tick w)\<rparr>"

text \<open>A \<^verbatim>\<open>State\<close> method that reads, and one that writes.\<close>

definition ask :: "env \<Rightarrow> (engine \<Rightarrow> nanos \<Rightarrow> Db \<Rightarrow> 'a) \<Rightarrow> World \<Rightarrow> 'a \<times> World" where
  "ask e f w = (f (ev_eng e (w_tick w)) (ev_now e (w_tick w)) (w_db w), tick w)"

definition tell :: "env \<Rightarrow> (engine \<Rightarrow> nanos \<Rightarrow> Db \<Rightarrow> 'a \<times> Db) \<Rightarrow> World \<Rightarrow> 'a \<times> World" where
  "tell e f w =
     (case f (ev_eng e (w_tick w)) (ev_now e (w_tick w)) (w_db w) of
        (x, db) \<Rightarrow> (x, tick (w\<lparr>w_db := db\<rparr>)))"

text \<open>
  \<^verbatim>\<open>RemoveChunkLocation\<close> may panic: the result is then \<open>False\<close>. (In a handler the panic
  ends the request, in the scheduler the process.)
\<close>

definition removeLocation :: "env \<Rightarrow> string \<Rightarrow> string \<Rightarrow> World \<Rightarrow> bool \<times> World" where
  "removeLocation e hash nodeID w =
     (case RemoveChunkLocation (ev_eng e (w_tick w)) hash nodeID (w_db w) of
        None \<Rightarrow> (False, tick w)
      | Some db \<Rightarrow> (True, tick (w\<lparr>w_db := db\<rparr>)))"

subsection \<open>Requests to a node\<close>

definition cut_body :: "nat \<Rightarrow> node_body Request \<Rightarrow> node_body Request" where
  "cut_body k rq = rq\<lparr>rq_body := (rq_body rq)\<lparr>nb_reader :=
     \<lparr>rd_bytes = take k (rd_bytes (nb_reader (rq_body rq))), rd_end = ReadError ''unexpected EOF''\<rparr>\<rparr>\<rparr>"

text \<open>\<^verbatim>\<open>nodeHTTPClient.Do\<close>: \<open>None\<close> is a transport error; otherwise the response and whether its body can be read.\<close>

definition Do :: "env \<Rightarrow> string \<Rightarrow> node_body Request \<Rightarrow> World \<Rightarrow> (node_reply Response \<times> bool) option \<times> World" where
  "Do e nodeURL rq w =
     (let k = w_tick w; rq = RoundTrip (w_token w) rq in
      case w_nodes w nodeURL of
        None \<Rightarrow> (None, tick w)
      | Some n \<Rightarrow>
          (case ev_net e k of
             RequestLost \<Rightarrow> (None, tick w)
           | RequestCut j \<Rightarrow>
               (None, tick (w\<lparr>w_nodes := (w_nodes w)(nodeURL \<mapsto> snd (node_handler (ev_io e k) (cut_body j rq) n))\<rparr>))
           | ResponseLost \<Rightarrow>
               (None, tick (w\<lparr>w_nodes := (w_nodes w)(nodeURL \<mapsto> snd (node_handler (ev_io e k) rq n))\<rparr>))
           | d \<Rightarrow>
               (Some (fst (node_handler (ev_io e k) rq n), d \<noteq> BodyLost),
                tick (w\<lparr>w_nodes := (w_nodes w)(nodeURL \<mapsto> snd (node_handler (ev_io e k) rq n))\<rparr>))))"

definition node_request :: "string \<Rightarrow> string \<Rightarrow> bytes \<Rightarrow> node_body Request" where
  "node_request method path body =
     \<lparr>rq_method = method, rq_path = path, rq_query = [], rq_authorization = [],
      rq_body = \<lparr>nb_contentLength = int (length body), nb_reader = \<lparr>rd_bytes = body, rd_end = EOF\<rparr>\<rparr>\<rparr>"

definition send_putChunk :: "env \<Rightarrow> string \<Rightarrow> string \<Rightarrow> bytes \<Rightarrow> World \<Rightarrow> unit result \<times> World" where
  "send_putChunk e nodeURL hash data w =
     (case Do e nodeURL (node_request ''PUT'' (''/chunks/'' @ hash) data) w of
        (None, w) \<Rightarrow> (Inl ''request failed'', w)
      | (Some (rs, _), w) \<Rightarrow> (if rs_status rs \<ge> 300 then (Inl ''bad status'', w) else (Inr (), w)))"

definition send_deleteChunk :: "env \<Rightarrow> string \<Rightarrow> string \<Rightarrow> World \<Rightarrow> unit result \<times> World" where
  "send_deleteChunk e nodeURL hash w =
     (case Do e nodeURL (node_request ''DELETE'' (''/chunks/'' @ hash) []) w of
        (None, w) \<Rightarrow> (Inl ''request failed'', w)
      | (Some (rs, _), w) \<Rightarrow>
          (if rs_status rs = StatusNotFound then (Inr (), w)
           else if rs_status rs \<ge> 300 then (Inl ''bad status'', w)
           else (Inr (), w)))"

definition clearNodeStorage :: "env \<Rightarrow> string \<Rightarrow> World \<Rightarrow> unit result \<times> World" where
  "clearNodeStorage e nodeURL w =
     (case Do e nodeURL ((node_request ''DELETE'' ''/storage'' [])\<lparr>rq_query := [(''confirm'', ''delete-all-chunks'')]\<rparr>) w of
        (None, w) \<Rightarrow> (Inl ''request failed'', w)
      | (Some (rs, _), w) \<Rightarrow> (if rs_status rs \<ge> 300 then (Inl ''bad status'', w) else (Inr (), w)))"

text \<open>The bytes of a response: a chunk's data, or the JSON text of any other reply, whose content plays no role.\<close>

definition reply_bytes :: "node_reply \<Rightarrow> bytes" where
  "reply_bytes r = (case r of ChunkData d \<Rightarrow> d | _ \<Rightarrow> [])"

fun fetchFrom :: "env \<Rightarrow> string option \<Rightarrow> NodeInfo list \<Rightarrow> string \<Rightarrow> World \<Rightarrow> bytes result \<times> World" where
  "fetchFrom e lastErr [] hash w =
     (case lastErr of Some err \<Rightarrow> (Inl err, w) | None \<Rightarrow> (Inl (''no locations for '' @ hash), w))"
| "fetchFrom e lastErr (node # nodes) hash w =
     (case Do e (ni_address node) (node_request ''GET'' (''/chunks/'' @ hash) []) w of
        (None, w) \<Rightarrow> fetchFrom e (Some ''request failed'') nodes hash w
      | (Some (rs, readable), w) \<Rightarrow>
          (if rs_status rs \<ge> 300 then fetchFrom e (Some ''bad status'') nodes hash w
           else if \<not> readable then fetchFrom e (Some ''read failed'') nodes hash w
           else (Inr (reply_bytes (rs_body rs)), w)))"

definition fetchFromAny :: "env \<Rightarrow> NodeInfo list \<Rightarrow> string \<Rightarrow> World \<Rightarrow> bytes result \<times> World" where
  "fetchFromAny e nodes hash w = fetchFrom e None nodes hash w"

subsection \<open>What a call leaves unchanged\<close>

named_theorems world_simps \<open>which parts of the world a call leaves unchanged\<close>

lemma tick_sel [simp]:
  "w_db (tick w) = w_db w" "w_nodes (tick w) = w_nodes w" "w_token (tick w) = w_token w"
  "w_tick (tick w) = Suc (w_tick w)"
  by (simp_all add: tick_def)

lemma ask_world [simp]: "snd (ask e f w) = tick w"
  by (simp add: ask_def)

lemma tell_world [world_simps]:
  "w_nodes (snd (tell e f w)) = w_nodes w" "w_token (snd (tell e f w)) = w_token w"
  by (simp_all add: tell_def split: prod.split)

lemma tell_db:
  "w_db (snd (tell e f w)) = snd (f (ev_eng e (w_tick w)) (ev_now e (w_tick w)) (w_db w))"
  "fst (tell e f w) = fst (f (ev_eng e (w_tick w)) (ev_now e (w_tick w)) (w_db w))"
  by (simp_all add: tell_def split: prod.split)

lemma removeLocation_world [world_simps]:
  "w_nodes (snd (removeLocation e h n w)) = w_nodes w" "w_token (snd (removeLocation e h n w)) = w_token w"
  by (simp_all add: removeLocation_def split: option.split)

lemma Do_db [world_simps]:
  "w_db (snd (Do e a rq w)) = w_db w" "w_token (snd (Do e a rq w)) = w_token w"
  by (simp_all add: Do_def Let_def split: option.split delivery.split)

text \<open>A request changes at most the node it goes to, and only by that node's own handler.\<close>

lemma Do_nodes:
  "w_nodes (snd (Do e a rq w)) = w_nodes w \<or>
     (\<exists>n rq'. w_nodes w a = Some n \<and>
        w_nodes (snd (Do e a rq w)) = (w_nodes w)(a \<mapsto> snd (node_handler (ev_io e (w_tick w)) rq' n)))"
  by (auto simp: Do_def Let_def split: option.split delivery.split)

lemma Do_answer:
  assumes "fst (Do e a rq w) = Some (rs, readable)"
  obtains n where "w_nodes w a = Some n"
    "rs = fst (node_handler (ev_io e (w_tick w)) (RoundTrip (w_token w) rq) n)"
    "w_nodes (snd (Do e a rq w)) =
       (w_nodes w)(a \<mapsto> snd (node_handler (ev_io e (w_tick w)) (RoundTrip (w_token w) rq) n))"
  using assms by (auto simp: Do_def Let_def split: option.splits delivery.splits)

definition world_inv :: "World \<Rightarrow> bool" where
  "world_inv w \<longleftrightarrow> db_wf (w_db w) \<and> (\<forall>a n. w_nodes w a = Some n \<longrightarrow> node_inv n)"

lemma world_inv_tick [simp]: "world_inv (tick w) = world_inv w"
  by (simp add: world_inv_def)

lemma tell_inv [wf_intros]:
  "world_inv w \<Longrightarrow> (\<And>eng now. db_wf (snd (f eng now (w_db w)))) \<Longrightarrow> world_inv (snd (tell e f w))"
  by (simp add: world_inv_def world_simps tell_db)

lemma removeLocation_inv [wf_intros]: "world_inv w \<Longrightarrow> world_inv (snd (removeLocation e h n w))"
  by (auto simp: world_inv_def removeLocation_def RemoveChunkLocation_wf split: option.split)

lemma Do_inv [wf_intros]: "world_inv w \<Longrightarrow> world_inv (snd (Do e a rq w))"
  using Do_nodes [of e a rq w] by (auto simp: world_inv_def world_simps node_handler_inv split: if_splits)

lemma send_inv [wf_intros]:
  assumes "world_inv w"
  shows "world_inv (snd (send_putChunk e a h d w))" "world_inv (snd (send_deleteChunk e a h w))"
    "world_inv (snd (clearNodeStorage e a w))"
  using Do_inv [OF assms]
  by (auto simp: send_putChunk_def send_deleteChunk_def clearNodeStorage_def split: prod.split option.split)
    (metis snd_conv)+

lemma fetchFrom_inv: "world_inv w \<Longrightarrow> world_inv (snd (fetchFrom e err nodes h w))"
proof (induction nodes arbitrary: err w)
  case (Cons n nodes)
  from Do_inv [OF Cons.prems, of e "ni_address n" "node_request ''GET'' (''/chunks/'' @ h) []"]
  show ?case by (auto simp: Cons.IH split: prod.split option.split)
qed (simp split: option.split)

lemma fetchFromAny_inv [wf_intros]: "world_inv w \<Longrightarrow> world_inv (snd (fetchFromAny e nodes h w))"
  by (simp add: fetchFromAny_def fetchFrom_inv)

end
