(* ===== verification/Handlers.thy ===== *)
theory Handlers
  imports Network
begin

text \<open>
  The HTTP API of the server (\<^verbatim>\<open>internal/server/handlers.go\<close>): one definition per handler, on
  the \<open>World\<close>. The body of a request is given by what the standard library makes of it: the
  value \<^verbatim>\<open>json.Decode\<close> yields for each struct a handler asks for, and the parts the
  multipart reader delivers when the body is limited to so many bytes (0 is no limit). Request
  paths are clean ones, which the mux does not redirect.
\<close>

record Part =
  pa_formName :: string
  pa_fileName :: string
  pa_reader :: reader

record server_body =
  sb_register :: "NodeRegisterRequest result"
  sb_plan :: "ChunkPlanRequest result"
  sb_confirm :: "ChunkConfirmRequest result"
  sb_create :: "CreateFileRequest result"
  sb_replication :: "int result"
  sb_parts :: "int \<Rightarrow> (Part list \<times> stream_end) result"

text \<open>What a download has sent: the status (0 before the header), the declared length (\<open>-1\<close> for none), the body.\<close>

record Writer =
  wr_status :: int
  wr_declared :: int
  wr_body :: bytes

text \<open>\<open>RPanic\<close>: the handler panicked and \<^verbatim>\<open>net/http\<close> closed the connection.\<close>

datatype server_reply =
    RError string
  | RUnauthorized
  | RPanic
  | RRedirect string
  | RStatic string
  | RStatus string
  | RNode NodeInfo
  | RNodes "NodeInfo list"
  | RDeletedNode string int bool
  | RPlan string "NodeInfo list"
  | RLocations string "NodeInfo list"
  | RFiles "FileManifest list"
  | RManifest FileManifest
  | RAvailability FileAvailability
  | RDeletedFile string int "string list"
  | RDownload string Writer

type_synonym server_handler = "(server_body, server_reply, World) handler"

record Handler =
  hd_token :: string
  hd_maxUploadBytes :: int

subsection \<open>Query parameters\<close>

text \<open>\<^verbatim>\<open>strconv.ParseInt(raw, 10, 64)\<close>, which \<^verbatim>\<open>strconv.Atoi\<close> agrees with on a 64-bit machine\<close>

definition is_digit :: "char \<Rightarrow> bool" where
  "is_digit c \<longleftrightarrow> 48 \<le> (of_char c :: nat) \<and> (of_char c :: nat) \<le> 57"

definition digits_value :: "string \<Rightarrow> int" where
  "digits_value s = fold (\<lambda>c n. 10 * n + (of_char c - 48)) s 0"

definition parseInt :: "string \<Rightarrow> int option" where
  "parseInt s =
     (let (neg, ds) = (case s of
             [] \<Rightarrow> (False, [])
           | c # cs \<Rightarrow> if c = CHR ''-'' then (True, cs) else if c = CHR ''+'' then (False, cs) else (False, s));
          n = (if neg then - digits_value ds else digits_value ds)
      in if ds \<noteq> [] \<and> list_all is_digit ds \<and> int64 n then Some n else None)"

definition queryInt :: "(string \<times> string) list \<Rightarrow> string \<Rightarrow> int \<Rightarrow> int" where
  "queryInt q key fallback =
     (let raw = query_get q key in
      if raw = [] then fallback
      else case parseInt raw of None \<Rightarrow> fallback | Some value \<Rightarrow> value)"

subsection \<open>Nodes\<close>

text \<open>
  \<open>normalizeAddress\<close> is \<^verbatim>\<open>normalizeNodeAddress\<close>: the URL parser below it is the standard library's.
\<close>

definition registerNode :: "(string \<Rightarrow> string result) \<Rightarrow> env \<Rightarrow> server_handler" where
  "registerNode normalizeAddress e r w =
     (case sb_register (rq_body r) of
        Inl err \<Rightarrow> (respond StatusBadRequest (RError err), w)
      | Inr req \<Rightarrow>
          if rr_id req = [] \<or> rr_address req = []
          then (respond StatusBadRequest (RError ''id and address are required''), w)
          else case normalizeAddress (rr_address req) of
              Inl err \<Rightarrow> (respond StatusBadRequest (RError err), w)
            | Inr address \<Rightarrow>
                (case tell e (\<lambda>eng now. RegisterNode eng now (req\<lparr>rr_address := address\<rparr>)) w of
                   (node, w) \<Rightarrow> (respond StatusOK (RNode node), w)))"

definition nodes :: "env \<Rightarrow> server_handler" where
  "nodes e r w = (case ask e Nodes w of (ns, w) \<Rightarrow> (respond StatusOK (RNodes ns), w))"

definition deleteNode :: "env \<Rightarrow> server_handler" where
  "deleteNode e r w =
     (let nid = TrimSuffix (TrimPrefix (rq_path r) ''/nodes/'') ''/'';
          purgeStorage = (query_get (rq_query r) ''purge'' = ''true'');
          delete = (\<lambda>w. case tell e (\<lambda>eng now. DeleteNode eng now nid) w of
              (None, w) \<Rightarrow> (respond StatusNotFound (RError ''node not found''), w)
            | (Some (node, removed), w) \<Rightarrow>
                (respond StatusOK (RDeletedNode (ni_id node) removed purgeStorage), w))
      in if nid = [] then (respond StatusBadRequest (RError ''node id is required''), w)
         else if purgeStorage then
           (case ask e (\<lambda>eng now db. NodeByID eng now db nid) w of
              (None, w) \<Rightarrow> (respond StatusNotFound (RError ''node not found''), w)
            | (Some node, w) \<Rightarrow>
                (case clearNodeStorage e (ni_address node) w of
                   (Inl err, w) \<Rightarrow> (respond StatusBadGateway (RError ''storage cleanup failed''), w)
                 | (Inr _, w) \<Rightarrow> delete w))
         else delete w)"

subsection \<open>Chunks\<close>

definition planChunk :: "env \<Rightarrow> server_handler" where
  "planChunk e r w =
     (case sb_plan (rq_body r) of
        Inl err \<Rightarrow> (respond StatusBadRequest (RError err), w)
      | Inr req \<Rightarrow>
          if pr_hash req = [] \<or> pr_size req \<le> 0
          then (respond StatusBadRequest (RError ''hash and positive size are required''), w)
          else case ask e (\<lambda>eng now db. PlanChunk eng now db (pr_hash req) (pr_size req) (pr_replication req)) w of
              (ns, w) \<Rightarrow> (respond StatusOK (RPlan (pr_hash req) ns), w))"

definition confirmChunk :: "env \<Rightarrow> server_handler" where
  "confirmChunk e r w =
     (case sb_confirm (rq_body r) of
        Inl err \<Rightarrow> (respond StatusBadRequest (RError err), w)
      | Inr req \<Rightarrow>
          if cc_hash req = [] \<or> cc_nodeID req = [] \<or> cc_size req \<le> 0
          then (respond StatusBadRequest (RError ''hash, node_id and positive size are required''), w)
          else case tell e (\<lambda>eng now. ConfirmChunk eng now (cc_hash req) (cc_size req) (cc_nodeID req)) w of
              (Inl err, w) \<Rightarrow> (respond StatusBadRequest (RError err), w)
            | (Inr _, w) \<Rightarrow> (respond StatusOK (RStatus ''confirmed''), w))"

definition chunkLocations :: "env \<Rightarrow> server_handler" where
  "chunkLocations e r w =
     (let hash = TrimSuffix (TrimPrefix (rq_path r) ''/chunks/'') ''/locations'' in
      if hash = [] then (respond StatusBadRequest (RError ''hash is required''), w)
      else case ask e (\<lambda>eng now db. ChunkLocations eng now db hash) w of
          (ns, w) \<Rightarrow> (respond StatusOK (RLocations hash ns), w))"

text \<open>The copies of one hash; then all hashes. The result is \<open>None\<close> after a panic.\<close>

fun deleteCopies :: "env \<Rightarrow> string \<Rightarrow> NodeInfo list \<Rightarrow> int \<times> string list \<Rightarrow> World \<Rightarrow> (int \<times> string list) option \<times> World" where
  "deleteCopies e hash [] (deleted, failed) w = (Some (deleted, failed), w)"
| "deleteCopies e hash (node # ns) (deleted, failed) w =
     (case send_deleteChunk e (ni_address node) hash w of
        (Inl err, w) \<Rightarrow> deleteCopies e hash ns (deleted, failed @ [hash @ '' on '' @ ni_id node]) w
      | (Inr _, w) \<Rightarrow>
          (case removeLocation e hash (ni_id node) w of
             (False, w) \<Rightarrow> (None, w)
           | (True, w) \<Rightarrow> deleteCopies e hash ns (deleted + 1, failed) w))"

fun deleteHashes ::
  "env \<Rightarrow> (string \<Rightarrow> NodeInfo list) \<Rightarrow> string list \<Rightarrow> int \<times> string list \<Rightarrow> World \<Rightarrow> (int \<times> string list) option \<times> World" where
  "deleteHashes e locations [] acc w = (Some acc, w)"
| "deleteHashes e locations (hash # hashes) acc w =
     (case deleteCopies e hash (locations hash) acc w of
        (None, w) \<Rightarrow> (None, w)
      | (Some acc, w) \<Rightarrow> deleteHashes e locations hashes acc w)"

definition deleteUnusedChunks :: "env \<Rightarrow> string list \<Rightarrow> World \<Rightarrow> (int \<times> string list) option \<times> World" where
  "deleteUnusedChunks e unusedHashes w =
     (case ask e (\<lambda>eng now db. LocationsSnapshot
          (\<lambda>h. later (length (takeWhile (\<lambda>x. x \<noteq> h) unusedHashes)) eng) now db unusedHashes) w of
        (locations, w) \<Rightarrow> deleteHashes e locations unusedHashes (0, []) w)"

subsection \<open>Manifests\<close>

definition fileIDs :: "FileManifest list \<Rightarrow> string list" where
  "fileIDs fs = map fm_id fs"

text \<open>The part \<^verbatim>\<open>createFile\<close> and \<^verbatim>\<open>backupFile\<close> share, from \<^verbatim>\<open>CreateFile\<close> on.\<close>

definition saveManifest :: "env \<Rightarrow> string \<Rightarrow> string \<Rightarrow> CreateFileRequest \<Rightarrow> World \<Rightarrow> server_reply Response \<times> World" where
  "saveManifest e date uuid req w =
     (case tell e (\<lambda>eng now. CreateFile eng now date uuid req) w of
        (Inl err, w) \<Rightarrow> (respond StatusInternalServerError (RError err), w)
      | (Inr manifest, w) \<Rightarrow>
          (case tell e (\<lambda>eng now. ApplyRetention eng (fm_backupName manifest) (fm_retention manifest)) w of
             ((deletedVersions, unusedHashes), w) \<Rightarrow>
               (case deleteUnusedChunks e unusedHashes w of
                  (None, w) \<Rightarrow> (respond 0 RPanic, w)
                | (Some _, w) \<Rightarrow>
                    (respond StatusCreated
                       (RManifest (manifest\<lparr>fm_retentionDeleted := fileIDs deletedVersions\<rparr>)), w))))"

definition createFile :: "env \<Rightarrow> string \<Rightarrow> string \<Rightarrow> server_handler" where
  "createFile e date uuid r w =
     (case sb_create (rq_body r) of
        Inl err \<Rightarrow> (respond StatusBadRequest (RError err), w)
      | Inr req \<Rightarrow>
          if cf_name req = [] \<or> cf_size req < 0 \<or> cf_chunkSize req \<le> 0
          then (respond StatusBadRequest (RError ''name, size and positive chunk_size are required''), w)
          else saveManifest e date uuid req w)"

definition files :: "env \<Rightarrow> server_handler" where
  "files e r w = (case ask e (\<lambda>eng now. Files eng) w of (fs, w) \<Rightarrow> (respond StatusOK (RFiles fs), w))"

definition fileAvailability :: "env \<Rightarrow> server_handler" where
  "fileAvailability e r w =
     (let fid = TrimSuffix (TrimPrefix (rq_path r) ''/files/'') ''/availability'' in
      case ask e (\<lambda>eng now db. FileAvailabilityOf eng now db fid) w of
        (None, w) \<Rightarrow> (respond StatusNotFound (RError ''file not found''), w)
      | (Some a, w) \<Rightarrow> (respond StatusOK (RAvailability a), w))"

definition updateFileReplication :: "env \<Rightarrow> server_handler" where
  "updateFileReplication e r w =
     (let fid = TrimSuffix (TrimPrefix (rq_path r) ''/files/'') ''/replication'' in
      case sb_replication (rq_body r) of
        Inl err \<Rightarrow> (respond StatusBadRequest (RError err), w)
      | Inr replication \<Rightarrow>
          if replication \<le> 0 then (respond StatusBadRequest (RError ''replication must be positive''), w)
          else case tell e (\<lambda>eng now. UpdateFileReplication eng fid replication) w of
              (None, w) \<Rightarrow> (respond StatusNotFound (RError ''file not found''), w)
            | (Some file, w) \<Rightarrow> (respond StatusOK (RManifest file), w))"

definition patchFile :: "env \<Rightarrow> server_handler" where
  "patchFile e r w =
     (if HasSuffix (TrimPrefix (rq_path r) ''/files/'') ''/replication'' then updateFileReplication e r w
      else (respond StatusNotFound (RError ''unknown file operation''), w))"

definition deleteFile :: "env \<Rightarrow> server_handler" where
  "deleteFile e r w =
     (let fid = TrimSuffix (TrimPrefix (rq_path r) ''/files/'') ''/'' in
      case tell e (\<lambda>eng now. DeleteFile eng fid) w of
        (None, w) \<Rightarrow> (respond StatusNotFound (RError ''file not found''), w)
      | (Some (file, unusedHashes), w) \<Rightarrow>
          (case deleteUnusedChunks e unusedHashes w of
             (None, w) \<Rightarrow> (respond 0 RPanic, w)
           | (Some (deleted, failed), w) \<Rightarrow>
               (respond StatusOK (RDeletedFile (fm_id file) deleted failed), w)))"

lemma deleteCopies_inv: "world_inv w \<Longrightarrow> world_inv (snd (deleteCopies e h ns acc w))"
proof (induction ns arbitrary: acc w)
  case (Cons n ns)
  obtain r w1 where s: "send_deleteChunk e (ni_address n) h w = (r, w1)" by fastforce
  have i1: "world_inv w1" using send_inv(2) [OF Cons.prems, of e "ni_address n" h] s by simp
  obtain b w2 where d: "removeLocation e h (ni_id n) w1 = (b, w2)" by fastforce
  have i2: "world_inv w2" using removeLocation_inv [OF i1, of e h "ni_id n"] d by simp
  show ?case
    by (cases acc) (use Cons.IH i1 i2 in \<open>auto simp: s d split: sum.split bool.split\<close>)
qed auto

lemma deleteHashes_inv: "world_inv w \<Longrightarrow> world_inv (snd (deleteHashes e locs hs acc w))"
proof (induction hs arbitrary: acc w)
  case (Cons h hs)
  from deleteCopies_inv [OF Cons.prems, of e h "locs h" acc] Cons.IH show ?case
    by (auto split: prod.split option.split)
qed auto

lemma deleteUnusedChunks_inv [wf_intros]:
  "world_inv w \<Longrightarrow> world_inv (snd (deleteUnusedChunks e hs w))"
  by (simp add: deleteUnusedChunks_def deleteHashes_inv ask_def)

lemma tell_inv_eq:
  "world_inv w \<Longrightarrow> tell e f w = (x, w') \<Longrightarrow> (\<And>eng now. db_wf (snd (f eng now (w_db w)))) \<Longrightarrow> world_inv w'"
  using tell_inv [of w f e] by simp

lemma saveManifest_inv [wf_intros]:
  assumes "world_inv w"
  shows "world_inv (snd (saveManifest e date uuid req w))"
proof -
  have wf: "db_wf (w_db w)" using assms by (simp add: world_inv_def)
  obtain r w1 where c: "tell e (\<lambda>eng now. CreateFile eng now date uuid req) w = (r, w1)" by fastforce
  have i1: "world_inv w1" by (rule tell_inv_eq [OF assms c]) (simp add: CreateFile_wf wf)
  show ?thesis
  proof (cases r)
    case (Inr m)
    obtain ds us w2 where a: "tell e (\<lambda>eng now. ApplyRetention eng (fm_backupName m) (fm_retention m)) w1 = ((ds, us), w2)"
      by (metis prod.exhaust)
    have "db_wf (w_db w1)" using i1 by (simp add: world_inv_def)
    then have "world_inv w2" by (intro tell_inv_eq [OF i1 a]) (simp add: ApplyRetention_wf)
    then have "world_inv (snd (deleteUnusedChunks e us w2))" by (rule deleteUnusedChunks_inv)
    then show ?thesis by (auto simp: saveManifest_def c Inr a split: prod.split option.split)
  qed (simp add: saveManifest_def c i1)
qed

lemma handlers_inv:
  assumes "world_inv w"
  shows "world_inv (snd (registerNode nrm e r w))" "world_inv (snd (nodes e r w))"
    "world_inv (snd (deleteNode e r w))" "world_inv (snd (planChunk e r w))"
    "world_inv (snd (confirmChunk e r w))" "world_inv (snd (chunkLocations e r w))"
    "world_inv (snd (createFile e date uuid r w))" "world_inv (snd (files e r w))"
    "world_inv (snd (fileAvailability e r w))" "world_inv (snd (patchFile e r w))"
    "world_inv (snd (deleteFile e r w))"
proof -
  have wf: "db_wf (w_db w)" using assms by (simp add: world_inv_def)
  note t = tell_inv [OF assms]
  show "world_inv (snd (registerNode nrm e r w))"
    using assms by (simp add: registerNode_def split_beta t RegisterNode_wf wf split: sum.split)
  show "world_inv (snd (nodes e r w))" "world_inv (snd (chunkLocations e r w))"
    "world_inv (snd (files e r w))" "world_inv (snd (fileAvailability e r w))" "world_inv (snd (planChunk e r w))"
    using assms by (simp_all add: nodes_def chunkLocations_def files_def fileAvailability_def planChunk_def
        split_beta Let_def split: option.split sum.split)
  show "world_inv (snd (confirmChunk e r w))"
    using assms by (simp add: confirmChunk_def split_beta t ConfirmChunk_wf wf split: sum.split)
  show "world_inv (snd (createFile e date uuid r w))"
    using assms by (simp add: createFile_def saveManifest_inv split: sum.split)
  show "world_inv (snd (patchFile e r w))"
    using assms by (simp add: patchFile_def updateFileReplication_def split_beta t UpdateFileReplication_wf wf Let_def
        split: sum.split option.split)
  have del: "world_inv (snd (tell e (\<lambda>eng now. DeleteNode eng now nid) w1))" if "world_inv w1" for w1 nid
    using that by (intro tell_inv) (simp_all add: world_inv_def DeleteNode_wf)
  have clr: "world_inv (snd (clearNodeStorage e a (tick w)))" for a
    by (rule send_inv) (simp add: assms)
  show "world_inv (snd (deleteNode e r w))"
    using assms by (simp add: deleteNode_def split_beta Let_def del clr split: option.split sum.split)
  show "world_inv (snd (deleteFile e r w))"
    using assms by (simp add: deleteFile_def split_beta t DeleteFile_wf wf Let_def deleteUnusedChunks_inv split: option.split)
qed

end
