(* ===== verification/Backups.thy ===== *)
theory Backups
  imports Handlers
begin

text \<open>
  Backups and downloads (\<^verbatim>\<open>backupFile\<close>, \<^verbatim>\<open>openUploadPart\<close> and \<^verbatim>\<open>downloadFile\<close> in
  \<^verbatim>\<open>internal/server/handlers.go\<close>) and the routing table. The loop of \<^verbatim>\<open>backupFile\<close> is a step
  on the \<open>Upload\<close> record, which holds the handler's local variables, so that other work of
  the server can be placed between two chunks of an upload.
\<close>

subsection \<open>Upload\<close>

record Upload =
  up_filename :: string
  up_backupName :: string
  up_chunkSize :: int
  up_replication :: int
  up_retention :: int
  up_reader :: reader
  up_index :: int
  up_chunks :: "ChunkRef list"
  up_selectedCounts :: "string \<Rightarrow> int"
  up_seenHashes :: "string list"
  up_totalSize :: int
  up_dedupNewBytes :: int
  up_dedupReusedBytes :: int

fun openUploadPart :: "Part list \<Rightarrow> stream_end \<Rightarrow> (reader \<times> string) result" where
  "openUploadPart [] EOF = Inl ''multipart field file is required''"
| "openUploadPart [] (ReadError err) = Inl err"
| "openUploadPart (part # parts) fin =
     (if pa_formName part = ''file'' then Inr (pa_reader part, pa_fileName part)
      else openUploadPart parts fin)"

text \<open>Everything before the loop: the parameters, their checks, the part with the file.\<close>

definition beginUpload :: "Handler \<Rightarrow> server_body Request \<Rightarrow> server_reply Response + Upload" where
  "beginUpload h r =
     (let chunkSize = queryInt (rq_query r) ''chunk_size'' defaultChunkSize;
          replication = queryInt (rq_query r) ''replication'' 3;
          retention = queryInt (rq_query r) ''retention'' 0;
          backupName = TrimSpace (query_get (rq_query r) ''backup_name'')
      in if chunkSize \<le> 0 then Inl (respond StatusBadRequest (RError ''chunk_size must be positive''))
         else if chunkSize > maxChunkSize then
           Inl (respond StatusBadRequest (RError ''chunk_size must not exceed the maximum''))
         else if retention < 0 then
           Inl (respond StatusBadRequest (RError ''retention must be zero or positive''))
         else
           let limit = (if hd_maxUploadBytes h > 0 then hd_maxUploadBytes h else 0) in
           case sb_parts (rq_body r) limit of
             Inl _ \<Rightarrow> Inl (respond StatusBadRequest (RError ''multipart body is required''))
           | Inr (parts, fin) \<Rightarrow>
               (case openUploadPart parts fin of
                  Inl err \<Rightarrow> Inl (respond StatusBadRequest (RError err))
                | Inr (file, filename) \<Rightarrow>
                    Inr \<lparr>up_filename = filename,
                         up_backupName = (if backupName = [] then filename else backupName),
                         up_chunkSize = chunkSize, up_replication = replication, up_retention = retention,
                         up_reader = file, up_index = 0, up_chunks = [], up_selectedCounts = (\<lambda>_. 0),
                         up_seenHashes = [], up_totalSize = 0, up_dedupNewBytes = 0,
                         up_dedupReusedBytes = 0\<rparr>))"

text \<open>The inner loop over the planned nodes: an error response, or the updated counts.\<close>

fun uploadCopies ::
  "env \<Rightarrow> string \<Rightarrow> bytes \<Rightarrow> NodeInfo list \<Rightarrow> (string \<Rightarrow> int) \<Rightarrow> World \<Rightarrow> (server_reply Response + (string \<Rightarrow> int)) \<times> World" where
  "uploadCopies e hash data [] counts w = (Inr counts, w)"
| "uploadCopies e hash data (node # ns) counts w =
     (case send_putChunk e (ni_address node) hash data w of
        (Inl err, w) \<Rightarrow> (Inl (respond StatusBadGateway (RError ''upload chunk failed'')), w)
      | (Inr _, w) \<Rightarrow>
          (case tell e (\<lambda>eng now. ConfirmChunk eng now hash (int (length data)) (ni_id node)) w of
             (Inl err, w) \<Rightarrow> (Inl (respond StatusBadGateway (RError ''confirm chunk failed'')), w)
           | (Inr _, w) \<Rightarrow>
               uploadCopies e hash data ns (counts(ni_id node := counts (ni_id node) + 1)) w))"

definition onlineCount :: "NodeInfo list \<Rightarrow> int" where
  "onlineCount ns = int (length (filter (\<lambda>n. ni_status n = ''online'') ns))"

text \<open>The body of the loop for one chunk of data. \<open>||\<close> is lazy: a hash seen in this upload is not looked up.\<close>

definition uploadChunk ::
  "env \<Rightarrow> Upload \<Rightarrow> bytes \<Rightarrow> reader \<Rightarrow> World \<Rightarrow> (server_reply Response + Upload) \<times> World" where
  "uploadChunk e up data rest w =
     (let n = int (length data);
          hash = hashData data
      in case (if hash \<in> set (up_seenHashes up) then (True, w)
               else ask e (\<lambda>eng now db. ChunkInUse eng db hash) w) of
           (reused, w) \<Rightarrow>
             (let up = (if reused then up\<lparr>up_dedupReusedBytes := up_dedupReusedBytes up + n\<rparr>
                        else up\<lparr>up_dedupNewBytes := up_dedupNewBytes up + n\<rparr>);
                  up = up\<lparr>up_seenHashes := hash # up_seenHashes up, up_reader := rest\<rparr>;
                  finish = (\<lambda>counts. up\<lparr>up_selectedCounts := counts, up_index := up_index up + 1,
                    up_chunks := up_chunks up @ [\<lparr>cr_index = up_index up, cr_hash = hash, cr_size = n\<rparr>],
                    up_totalSize := up_totalSize up + n\<rparr>)
              in case ask e (\<lambda>eng now db. ChunkLocations eng now db hash) w of
                   (locations, w) \<Rightarrow>
                     (let missingCopies = up_replication up - onlineCount locations in
                      if missingCopies > 0 then
                        (case ask e (\<lambda>eng now db. PlanChunkSpread eng now db hash n missingCopies
                             (up_selectedCounts up)) w of
                           (ns, w) \<Rightarrow>
                             if int (length ns) < missingCopies
                             then (Inl (respond StatusServiceUnavailable (RError ''not enough nodes for chunk'')), w)
                             else (case uploadCopies e hash data ns (up_selectedCounts up) w of
                                 (Inl rs, w) \<Rightarrow> (Inl rs, w)
                               | (Inr counts, w) \<Rightarrow> (Inr (finish counts), w)))
                      else (Inr (finish (up_selectedCounts up)), w))))"

datatype upload_state = Rejected "server_reply Response" | Uploading Upload | Uploaded Upload

text \<open>One turn of the loop.\<close>

definition uploadStep :: "env \<Rightarrow> Upload \<Rightarrow> World \<Rightarrow> upload_state \<times> World" where
  "uploadStep e up w =
     (case readContentDefinedChunk (up_reader up) (up_chunkSize up) of
        EndOfFile \<Rightarrow> (Uploaded up, w)
      | ReadFailed err \<Rightarrow> (Rejected (respond StatusInternalServerError (RError err)), w)
      | Chunk data rest \<Rightarrow>
          (case uploadChunk e up data rest w of
             (Inl rs, w) \<Rightarrow> (Rejected rs, w)
           | (Inr up, w) \<Rightarrow> (Uploading up, w)))"

lemma uploadChunk_reader:
  "uploadChunk e up data rest w = (Inr up', w') \<Longrightarrow> up_reader up' = rest"
  by (auto simp: uploadChunk_def Let_def split: prod.splits if_splits sum.splits)

function uploadLoop :: "env \<Rightarrow> Upload \<Rightarrow> World \<Rightarrow> upload_state \<times> World" where
  "uploadLoop e up w =
     (case uploadStep e up w of
        (Uploading up, w) \<Rightarrow> uploadLoop e up w
      | done \<Rightarrow> done)"
  by pat_completeness auto
termination
  by (relation "measure (\<lambda>(e, up, w). length (rd_bytes (up_reader up)))")
    (auto simp: uploadStep_def dest!: uploadChunk_reader read_progress split: chunk_read.splits prod.splits sum.splits)

declare uploadLoop.simps [simp del]

definition uploadRequest :: "Upload \<Rightarrow> CreateFileRequest" where
  "uploadRequest up =
     \<lparr>cf_name = up_filename up, cf_backupName = up_backupName up, cf_retention = up_retention up,
      cf_size = up_totalSize up, cf_chunkSize = up_chunkSize up, cf_replication = up_replication up,
      cf_dedupNew = up_dedupNewBytes up, cf_dedupReused = up_dedupReusedBytes up, cf_chunks = up_chunks up\<rparr>"

definition backupFile :: "Handler \<Rightarrow> env \<Rightarrow> string \<Rightarrow> string \<Rightarrow> server_handler" where
  "backupFile h e date uuid r w =
     (case beginUpload h r of
        Inl rs \<Rightarrow> (rs, w)
      | Inr up \<Rightarrow>
          (case uploadLoop e up w of
             (Rejected rs, w) \<Rightarrow> (rs, w)
           | (Uploading up, w) \<Rightarrow> saveManifest e date uuid (uploadRequest up) w
           | (Uploaded up, w) \<Rightarrow> saveManifest e date uuid (uploadRequest up) w))"

subsection \<open>Download\<close>

text \<open>
  \<^verbatim>\<open>http.ResponseWriter\<close>: the first write sends the header with status 200; a write that would
  pass the declared length fails and sends nothing.
\<close>

definition Write :: "bytes \<Rightarrow> Writer \<Rightarrow> bool \<times> Writer" where
  "Write data wr =
     (let wr = (if wr_status wr = 0 then wr\<lparr>wr_status := StatusOK\<rparr> else wr) in
      if wr_declared wr \<noteq> -1 \<and> int (length (wr_body wr)) + int (length data) > wr_declared wr then (False, wr)
      else (True, wr\<lparr>wr_body := wr_body wr @ data\<rparr>))"

definition text_bytes :: "string \<Rightarrow> bytes" where
  "text_bytes s = map of_char s"

text \<open>
  \<^verbatim>\<open>http.Error\<close>: before the header is sent it drops the declared length and sets the status;
  after that both have no effect and the message goes into the body.
\<close>

definition http_Error :: "string \<Rightarrow> int \<Rightarrow> Writer \<Rightarrow> Writer" where
  "http_Error msg code wr =
     (let wr = (if wr_status wr = 0 then wr\<lparr>wr_status := code, wr_declared := -1\<rparr> else wr) in
      snd (Write (text_bytes (msg @ [CHR 0x0A])) wr))"

fun sendChunks :: "env \<Rightarrow> ChunkRef list \<Rightarrow> Writer \<Rightarrow> World \<Rightarrow> Writer \<times> World" where
  "sendChunks e [] wr w = (wr, w)"
| "sendChunks e (chunk # chunks) wr w =
     (case ask e (\<lambda>eng now db. ChunkLocations eng now db (cr_hash chunk)) w of
        (locations, w) \<Rightarrow>
          (case fetchFromAny e locations (cr_hash chunk) w of
             (Inl err, w) \<Rightarrow> (http_Error err StatusBadGateway wr, w)
           | (Inr data, w) \<Rightarrow>
               if hashData data \<noteq> cr_hash chunk
               then (http_Error ''chunk hash mismatch'' StatusBadGateway wr, w)
               else
                 (case Write data wr of
                    (ok, wr) \<Rightarrow>
                      if \<not> (ok \<and> ev_client e (w_tick w)) then (wr, tick w)
                      else sendChunks e chunks wr (tick w))))"

text \<open>When the handler returns without having written, the header goes out with status 200.\<close>

definition downloadFile :: "env \<Rightarrow> server_handler" where
  "downloadFile e r w =
     (let fid = TrimSuffix (TrimPrefix (rq_path r) ''/files/'') ''/download'' in
      case ask e (\<lambda>eng now db. FileByID eng db fid) w of
        (None, w) \<Rightarrow> (respond StatusNotFound (RError ''file not found''), w)
      | (Some file, w) \<Rightarrow>
          (case sendChunks e (fm_chunks file) \<lparr>wr_status = 0, wr_declared = fm_size file, wr_body = []\<rparr> w of
             (wr, w) \<Rightarrow>
               (let wr = (if wr_status wr = 0 then wr\<lparr>wr_status := StatusOK\<rparr> else wr) in
                (respond (wr_status wr) (RDownload (fm_name file) wr), w))))"

definition fileManifest :: "env \<Rightarrow> server_handler" where
  "fileManifest e r w =
     (let fid = TrimPrefix (rq_path r) ''/files/'' in
      if HasSuffix fid ''/download'' then downloadFile e r w
      else if HasSuffix fid ''/availability'' then fileAvailability e r w
      else
        let fid = TrimSuffix fid ''/manifest'' in
        case ask e (\<lambda>eng now db. FileByID eng db fid) w of
          (None, w) \<Rightarrow> (respond StatusNotFound (RError ''file not found''), w)
        | (Some file, w) \<Rightarrow> (respond StatusOK (RManifest file), w))"

subsection \<open>Routes\<close>

definition publicPath :: "'b Request \<Rightarrow> bool" where
  "publicPath r \<longleftrightarrow> rq_method r = ''GET'' \<and>
     rq_path r \<in> {''/'', ''/index.html'', ''/app.js'', ''/app.css'', ''/favicon.ico'', ''/health''}"

text \<open>
  The mux: the patterns that fit the method, the longest first; \<^verbatim>\<open>GET /\<close> is the file server.
  Every path has a \<^verbatim>\<open>GET\<close> pattern, so what is left over is answered with 405.
\<close>

definition server_mux :: "(string \<Rightarrow> string result) \<Rightarrow> Handler \<Rightarrow> env \<Rightarrow> string \<Rightarrow> string \<Rightarrow> server_handler" where
  "server_mux normalizeAddress h e date uuid r w =
     (let m = rq_method r; path = rq_path r in
      if m = ''GET'' \<or> m = ''HEAD'' then
        (if path = ''/health'' then (respond StatusOK (RStatus ''ok''), w)
         else if path = ''/nodes'' then nodes e r w
         else if HasPrefix path ''/chunks/'' then chunkLocations e r w
         else if path = ''/chunks'' then (respond StatusMovedPermanently (RRedirect ''/chunks/''), w)
         else if path = ''/files'' then files e r w
         else if HasPrefix path ''/files/'' then fileManifest e r w
         else (respond StatusOK (RStatic path), w))
      else if m = ''POST'' then
        (if path = ''/nodes/register'' \<or> path = ''/nodes/heartbeat'' then registerNode normalizeAddress e r w
         else if path = ''/chunks/plan-upload'' then planChunk e r w
         else if path = ''/chunks/confirm'' then confirmChunk e r w
         else if path = ''/backups'' then backupFile h e date uuid r w
         else if path = ''/files'' then createFile e date uuid r w
         else (respond StatusMethodNotAllowed (RError ''Method Not Allowed''), w))
      else if m = ''PATCH'' then
        (if HasPrefix path ''/files/'' then patchFile e r w
         else if path = ''/files'' then (respond StatusMovedPermanently (RRedirect ''/files/''), w)
         else (respond StatusMethodNotAllowed (RError ''Method Not Allowed''), w))
      else if m = ''DELETE'' then
        (if HasPrefix path ''/nodes/'' then deleteNode e r w
         else if HasPrefix path ''/files/'' then deleteFile e r w
         else if path = ''/nodes'' then (respond StatusMovedPermanently (RRedirect ''/nodes/''), w)
         else if path = ''/files'' then (respond StatusMovedPermanently (RRedirect ''/files/''), w)
         else (respond StatusMethodNotAllowed (RError ''Method Not Allowed''), w))
      else (respond StatusMethodNotAllowed (RError ''Method Not Allowed''), w))"

definition Routes :: "(string \<Rightarrow> string result) \<Rightarrow> Handler \<Rightarrow> env \<Rightarrow> string \<Rightarrow> string \<Rightarrow> server_handler" where
  "Routes normalizeAddress h e date uuid =
     Middleware (hd_token h) (Some publicPath) RUnauthorized (server_mux normalizeAddress h e date uuid)"

lemma uploadCopies_inv: "world_inv w \<Longrightarrow> world_inv (snd (uploadCopies e h d ns c w))"
proof (induction ns arbitrary: c w)
  case (Cons n ns)
  have "db_wf (w_db (snd (send_putChunk e (ni_address n) h d w)))"
    using send_inv(1) [OF Cons.prems] by (simp add: world_inv_def)
  then show ?case
    using Cons.IH send_inv(1) [OF Cons.prems]
    by (simp add: split_beta tell_inv ConfirmChunk_wf split: sum.split)
qed simp

lemma uploadChunk_inv: "world_inv w \<Longrightarrow> world_inv (snd (uploadChunk e up d rest w))"
  by (simp add: uploadChunk_def Let_def split_beta uploadCopies_inv split: sum.split)

lemma uploadStep_inv: "world_inv w \<Longrightarrow> world_inv (snd (uploadStep e up w))"
  by (simp add: uploadStep_def split_beta uploadChunk_inv split: chunk_read.split sum.split)

lemma uploadLoop_inv: "world_inv w \<Longrightarrow> world_inv (snd (uploadLoop e up w))"
proof (induction e up w rule: uploadLoop.induct)
  case (1 e up w)
  obtain s w1 where s: "uploadStep e up w = (s, w1)" by fastforce
  have "world_inv w1" using uploadStep_inv [OF "1.prems", of e up] s by simp
  then show ?case
    using "1.IH" s by (subst uploadLoop.simps) (cases s; simp)
qed

lemma backupFile_inv: "world_inv w \<Longrightarrow> world_inv (snd (backupFile h e date uuid r w))"
  by (simp add: backupFile_def split_beta saveManifest_inv uploadLoop_inv split: sum.split upload_state.split)

lemma sendChunks_inv: "world_inv w \<Longrightarrow> world_inv (snd (sendChunks e cs wr w))"
proof (induction cs arbitrary: wr w)
  case (Cons c cs)
  then have "world_inv (snd (fetchFromAny e ns (cr_hash c) (tick w)))" for ns
    by (intro fetchFromAny_inv) simp
  then show ?case by (simp add: split_beta Let_def Cons.IH split: sum.split)
qed simp

lemma fileManifest_inv: "world_inv w \<Longrightarrow> world_inv (snd (fileManifest e r w))"
  by (simp add: fileManifest_def downloadFile_def split_beta Let_def sendChunks_inv handlers_inv split: option.split)

lemma server_mux_inv: "world_inv w \<Longrightarrow> world_inv (snd (server_mux nrm h e date uuid r w))"
  by (simp add: server_mux_def Let_def handlers_inv fileManifest_inv backupFile_inv)

lemma Routes_inv [wf_intros]: "world_inv w \<Longrightarrow> world_inv (snd (Routes nrm h e date uuid r w))"
  by (simp add: Routes_def Middleware_def server_mux_inv)

end
