(* ===== verification/Replicator.thy ===== *)
theory Replicator
  imports Backups
begin

text \<open>
  The background scheduler (\<^verbatim>\<open>internal/server/replicator.go\<close>): one run deletes orphaned chunks,
  prunes surplus copies and makes missing ones. Each pass returns \<open>False\<close> when
  \<^verbatim>\<open>RemoveChunkLocation\<close> panicked, which ends the process.
\<close>

fun cleanup_loop :: "env \<Rightarrow> OrphanChunkTask list \<Rightarrow> World \<Rightarrow> bool \<times> World" where
  "cleanup_loop e [] w = (True, w)"
| "cleanup_loop e (task # tasks) w =
     (case send_deleteChunk e (ni_address (ot_node task)) (ot_hash task) w of
        (Inl err, w) \<Rightarrow> cleanup_loop e tasks w
      | (Inr _, w) \<Rightarrow>
          (case removeLocation e (ot_hash task) (ni_id (ot_node task)) w of
             (False, w) \<Rightarrow> (False, w)
           | (True, w) \<Rightarrow> cleanup_loop e tasks w))"

definition cleanupOrphanChunks :: "env \<Rightarrow> World \<Rightarrow> bool \<times> World" where
  "cleanupOrphanChunks e w =
     (case ask e (\<lambda>eng now. OrphanChunkTasks eng now 100) w of
        (tasks, w) \<Rightarrow> cleanup_loop e tasks w)"

subsection \<open>Replication\<close>

fun copy_loop :: "env \<Rightarrow> ReplicationTask \<Rightarrow> bytes \<Rightarrow> NodeInfo list \<Rightarrow> int \<Rightarrow> World \<Rightarrow> World" where
  "copy_loop e task data [] copied w = w"
| "copy_loop e task data (target # targets) copied w =
     (if copied \<ge> rt_missing task then w
      else case send_putChunk e (ni_address target) (rt_hash task) data w of
          (Inl err, w) \<Rightarrow> copy_loop e task data targets copied w
        | (Inr _, w) \<Rightarrow>
            (case tell e (\<lambda>eng now. ConfirmChunk eng now (rt_hash task) (rt_size task) (ni_id target)) w of
               (Inl err, w) \<Rightarrow> copy_loop e task data targets copied w
             | (Inr _, w) \<Rightarrow> copy_loop e task data targets (copied + 1) w))"

fun replicate_loop :: "env \<Rightarrow> ReplicationTask list \<Rightarrow> World \<Rightarrow> World" where
  "replicate_loop e [] w = w"
| "replicate_loop e (task # tasks) w =
     (if rt_missing task \<le> 0 then replicate_loop e tasks w
      else if length (rt_sources task) = 0 then replicate_loop e tasks w
      else if length (rt_candidates task) = 0 then replicate_loop e tasks w
      else case fetchFromAny e (rt_sources task) (rt_hash task) w of
          (Inl err, w) \<Rightarrow> replicate_loop e tasks w
        | (Inr data, w) \<Rightarrow>
            if hashData data \<noteq> rt_hash task then replicate_loop e tasks w
            else replicate_loop e tasks (copy_loop e task data (rt_candidates task) 0 w))"

definition replicateMissingCopies :: "env \<Rightarrow> World \<Rightarrow> World" where
  "replicateMissingCopies e w =
     (case ask e (\<lambda>eng now. ReplicationTasks eng now 100) w of
        (tasks, w) \<Rightarrow> replicate_loop e tasks w)"

subsection \<open>Pruning\<close>

fun prune_copies :: "env \<Rightarrow> PruneTask \<Rightarrow> NodeInfo list \<Rightarrow> int \<Rightarrow> World \<Rightarrow> bool \<times> World" where
  "prune_copies e task [] removed w = (True, w)"
| "prune_copies e task (node # ns) removed w =
     (if removed \<ge> pt_extra task then (True, w)
      else if pt_active task - removed \<le> pt_desired task then (True, w)
      else case send_deleteChunk e (ni_address node) (pt_hash task) w of
          (Inl err, w) \<Rightarrow> prune_copies e task ns removed w
        | (Inr _, w) \<Rightarrow>
            (case removeLocation e (pt_hash task) (ni_id node) w of
               (False, w) \<Rightarrow> (False, w)
             | (True, w) \<Rightarrow> prune_copies e task ns (removed + 1) w))"

fun prune_loop :: "env \<Rightarrow> PruneTask list \<Rightarrow> World \<Rightarrow> bool \<times> World" where
  "prune_loop e [] w = (True, w)"
| "prune_loop e (task # tasks) w =
     (if pt_extra task \<le> 0 then prune_loop e tasks w
      else case prune_copies e task (pt_locations task) 0 w of
          (False, w) \<Rightarrow> (False, w)
        | (True, w) \<Rightarrow> prune_loop e tasks w)"

definition pruneExtraCopies :: "env \<Rightarrow> World \<Rightarrow> bool \<times> World" where
  "pruneExtraCopies e w =
     (case ask e (\<lambda>eng now. PruneTasks eng now 100) w of
        (tasks, w) \<Rightarrow> prune_loop e tasks w)"

definition runReplicationOnce :: "env \<Rightarrow> World \<Rightarrow> bool \<times> World" where
  "runReplicationOnce e w =
     (case cleanupOrphanChunks e w of
        (False, w) \<Rightarrow> (False, w)
      | (True, w) \<Rightarrow>
          (case pruneExtraCopies e w of
             (False, w) \<Rightarrow> (False, w)
           | (True, w) \<Rightarrow> (True, replicateMissingCopies e w)))"

text \<open>The scheduler's interval: a value that is not positive is replaced by 30 seconds.\<close>

definition schedulerInterval :: "nanos \<Rightarrow> nanos" where
  "schedulerInterval interval = (if interval \<le> 0 then 30 * 10 ^ 9 else interval)"

subsection \<open>Every pass keeps the tables and the stores well formed\<close>

lemma cleanup_loop_inv: "world_inv w \<Longrightarrow> world_inv (snd (cleanup_loop e ts w))"
proof (induction ts arbitrary: w)
  case (Cons t ts)
  have "world_inv (snd (send_deleteChunk e (ni_address (ot_node t)) (ot_hash t) w))"
    by (rule send_inv(2) [OF Cons.prems])
  then show ?case using Cons.IH by (simp add: split_beta removeLocation_inv split: sum.split bool.split)
qed simp

lemma copy_loop_inv: "world_inv w \<Longrightarrow> world_inv (copy_loop e t d ns k w)"
proof (induction ns arbitrary: k w)
  case (Cons n ns)
  have i: "world_inv (snd (send_putChunk e (ni_address n) (rt_hash t) d w))"
    by (rule send_inv(1) [OF Cons.prems])
  then have "db_wf (w_db (snd (send_putChunk e (ni_address n) (rt_hash t) d w)))" by (simp add: world_inv_def)
  with i Cons show ?case by (simp add: split_beta tell_inv ConfirmChunk_wf split: sum.split)
qed simp

lemma replicate_loop_inv: "world_inv w \<Longrightarrow> world_inv (replicate_loop e ts w)"
proof (induction ts arbitrary: w)
  case (Cons t ts)
  have "world_inv (snd (fetchFromAny e (rt_sources t) (rt_hash t) w))"
    by (rule fetchFromAny_inv [OF Cons.prems])
  with Cons show ?case by (simp add: split_beta copy_loop_inv split: sum.split)
qed simp

lemma prune_copies_inv: "world_inv w \<Longrightarrow> world_inv (snd (prune_copies e t ns k w))"
proof (induction ns arbitrary: k w)
  case (Cons n ns)
  have "world_inv (snd (send_deleteChunk e (ni_address n) (pt_hash t) w))"
    by (rule send_inv(2) [OF Cons.prems])
  with Cons show ?case by (simp add: split_beta removeLocation_inv split: sum.split bool.split)
qed simp

lemma prune_loop_inv: "world_inv w \<Longrightarrow> world_inv (snd (prune_loop e ts w))"
  by (induction ts arbitrary: w) (simp_all add: split_beta prune_copies_inv split: bool.split)

lemma runReplicationOnce_inv [wf_intros]: "world_inv w \<Longrightarrow> world_inv (snd (runReplicationOnce e w))"
  by (simp add: runReplicationOnce_def cleanupOrphanChunks_def pruneExtraCopies_def replicateMissingCopies_def
      split_beta cleanup_loop_inv prune_loop_inv replicate_loop_inv split: bool.split)

end
