(* ===== verification/Uploads.thy ===== *)
theory Uploads
  imports Replicator
begin

text \<open>
  What an upload guarantees (\<^verbatim>\<open>backupFile\<close> in \<^verbatim>\<open>internal/server/handlers.go\<close>): the chunks it
  records are the bytes of the file, and the tables hold the copies that were asked for.
\<close>

subsection \<open>What an upload records\<close>

definition chunk_refs :: "bytes list \<Rightarrow> ChunkRef list" where
  "chunk_refs ds = map (\<lambda>(i, d). \<lparr>cr_index = int i, cr_hash = hashData d, cr_size = int (length d)\<rparr>) (enumerate 0 ds)"

lemma chunk_refs_snoc:
  "chunk_refs (ds @ [d]) =
     chunk_refs ds @ [\<lparr>cr_index = int (length ds), cr_hash = hashData d, cr_size = int (length d)\<rparr>]"
  by (simp add: chunk_refs_def enumerate_append_eq)

lemma chunk_refs_hashes [simp]: "map cr_hash (chunk_refs ds) = map hashData ds"
  unfolding chunk_refs_def by (rule nth_equalityI) (auto simp: nth_enumerate_eq)

lemma chunk_refs_index: "map cr_index (chunk_refs ds) = map int [0..<length ds]"
  unfolding chunk_refs_def by (rule nth_equalityI) (auto simp: nth_enumerate_eq)

lemma chunk_refs_sorted: "sorted_wrt (<) (map cr_index (chunk_refs ds))"
  by (simp add: chunk_refs_index sorted_wrt_iff_nth_less)

lemma length_chunk_refs [simp]: "length (chunk_refs ds) = length ds"
  by (simp add: chunk_refs_def)

lemma uploadChunk_fields:
  assumes "uploadChunk e up d rest w = (Inr up', w')"
  shows "up_reader up' = rest" "up_index up' = up_index up + 1"
    "up_chunks up' = up_chunks up @ [\<lparr>cr_index = up_index up, cr_hash = hashData d, cr_size = int (length d)\<rparr>]"
    "up_totalSize up' = up_totalSize up + int (length d)"
    "up_dedupNewBytes up' + up_dedupReusedBytes up' = up_dedupNewBytes up + up_dedupReusedBytes up + int (length d)"
    "up_chunkSize up' = up_chunkSize up" "up_replication up' = up_replication up"
    "up_retention up' = up_retention up" "up_filename up' = up_filename up" "up_backupName up' = up_backupName up"
  using assms by (auto simp: uploadChunk_def Let_def split: prod.splits if_splits sum.splits)

text \<open>The parts of the record the loop does not change.\<close>

definition same_upload :: "Upload \<Rightarrow> Upload \<Rightarrow> bool" where
  "same_upload up up' \<longleftrightarrow> up_chunkSize up' = up_chunkSize up \<and> up_replication up' = up_replication up \<and>
     up_retention up' = up_retention up \<and> up_filename up' = up_filename up \<and> up_backupName up' = up_backupName up"

lemma uploadLoop_cases:
  assumes "uploadLoop e up w = (Uploaded up', w')"
  obtains (finished) "readContentDefinedChunk (up_reader up) (up_chunkSize up) = EndOfFile" "up' = up" "w' = w"
  | (turn) d rest up1 w1 where "readContentDefinedChunk (up_reader up) (up_chunkSize up) = Chunk d rest"
      "uploadChunk e up d rest w = (Inr up1, w1)" "uploadLoop e up1 w1 = (Uploaded up', w')"
  using assms by (subst (asm) uploadLoop.simps)
    (auto simp: uploadStep_def split: chunk_read.splits prod.splits sum.splits upload_state.splits)

lemma uploadLoop_not_Uploading: "fst (uploadLoop e up w) \<noteq> Uploading up'"
  by (induction e up w rule: uploadLoop.induct)
    (subst uploadLoop.simps, auto split: prod.split upload_state.split)

lemma uploadLoop_induct [consumes 1, case_names Finished Turn]:
  assumes "uploadLoop e up w = (Uploaded up', w')"
    and "readContentDefinedChunk (up_reader up') (up_chunkSize up') = EndOfFile \<Longrightarrow> P up' w'"
    and "\<And>up w d rest up1 w1. readContentDefinedChunk (up_reader up) (up_chunkSize up) = Chunk d rest \<Longrightarrow>
      uploadChunk e up d rest w = (Inr up1, w1) \<Longrightarrow> uploadLoop e up1 w1 = (Uploaded up', w') \<Longrightarrow> P up1 w1 \<Longrightarrow> P up w"
  shows "P up w"
  using assms(1)
proof (induction "length (rd_bytes (up_reader up))" arbitrary: up w rule: less_induct)
  case less
  from less.prems show ?case
  proof (cases rule: uploadLoop_cases)
    case finished
    then show ?thesis using assms(2) by simp
  next
    case (turn d rest up1 w1)
    have "length (rd_bytes (up_reader up1)) < length (rd_bytes (up_reader up))"
      using read_progress [OF turn(1)] uploadChunk_fields(1) [OF turn(2)] by simp
    then show ?thesis using less.hyps turn assms(3) by blast
  qed
qed

text \<open>
  A completed loop has read the stream to its end; its chunks are those of
  \<^const>\<open>chunk_all\<close>, and they are the bytes of the stream.
\<close>

lemma uploadLoop_records:
  assumes "uploadLoop e up w = (Uploaded up', w')" and "up_chunks up = chunk_refs ds" and "up_index up = int (length ds)"
  shows "rd_end (up_reader up) = EOF \<and> same_upload up up' \<and>
    up_chunks up' = chunk_refs (ds @ fst (chunk_all (up_reader up) (up_chunkSize up))) \<and>
    up_totalSize up' = up_totalSize up + int (length (rd_bytes (up_reader up))) \<and>
    up_dedupNewBytes up' + up_dedupReusedBytes up' =
      up_dedupNewBytes up + up_dedupReusedBytes up + int (length (rd_bytes (up_reader up)))"
  using assms
proof (induction arbitrary: ds rule: uploadLoop_induct)
  case Finished
  from read_EndOfFile [OF Finished(1)] Finished show ?case
    by (simp add: chunk_all.simps [of "up_reader up'"] same_upload_def)
next
  case (Turn up w d rest up1 w1)
  note f = uploadChunk_fields [OF Turn(2)] and r = read_Chunk(1,2) [OF Turn(1)]
  have "up_chunks up1 = chunk_refs (ds @ [d])" "up_index up1 = int (length (ds @ [d]))"
    using f Turn.prems by (simp_all add: chunk_refs_snoc)
  from Turn.IH [OF this] f r show ?case
    by (simp add: chunk_all_Chunk [OF Turn(1)] same_upload_def)
qed

subsection \<open>The copies behind an upload\<close>

lemma finite_holders [simp]: "finite (holders db h)"
  by (simp add: holders_def)

lemma ConfirmChunk_holders:
  "holders db h' \<subseteq> holders (snd (ConfirmChunk eng now h sz nid db)) h'"
  "fst (ConfirmChunk eng now h sz nid db) = Inr () \<Longrightarrow> nid \<in> holders (snd (ConfirmChunk eng now h sz nid db)) h"
  by (auto simp: ConfirmChunk_def Let_def holders_iff split: if_splits)

lemma send_db [world_simps]:
  "w_db (snd (send_putChunk e a h d w)) = w_db w"
  "w_db (snd (send_deleteChunk e a h w)) = w_db w"
  "w_db (snd (clearNodeStorage e a w)) = w_db w"
  by (simp_all add: send_putChunk_def send_deleteChunk_def clearNodeStorage_def split_beta world_simps
      split: option.split)

lemma confirm_step_holders:
  "holders (w_db w) h' \<subseteq> holders (w_db (snd (tell e (\<lambda>eng now. ConfirmChunk eng now h sz nid) w))) h'"
  "fst (tell e (\<lambda>eng now. ConfirmChunk eng now h sz nid) w) = Inr () \<Longrightarrow>
     nid \<in> holders (w_db (snd (tell e (\<lambda>eng now. ConfirmChunk eng now h sz nid) w))) h"
  using ConfirmChunk_holders by (simp_all add: tell_db)

lemma uploadCopies_mono:
  "holders (w_db w) h' \<subseteq> holders (w_db (snd (uploadCopies e h d ns c w))) h'"
proof (induction ns arbitrary: c w)
  case (Cons n ns)
  let ?w1 = "snd (send_putChunk e (ni_address n) h d w)"
  let ?w2 = "snd (tell e (\<lambda>eng now. ConfirmChunk eng now h (int (length d)) (ni_id n)) ?w1)"
  have step: "holders (w_db w) h' \<subseteq> holders (w_db ?w2) h'"
    using confirm_step_holders(1) [of ?w1] by (simp add: world_simps)
  from Cons.IH [of ?w2] have "holders (w_db w) h' \<subseteq> holders (w_db (snd (uploadCopies e h d ns c' ?w2))) h'" for c'
    using step by blast
  with step show ?case by (simp add: split_beta world_simps split: sum.split)
qed simp

lemma uploadCopies_ids:
  "uploadCopies e h d ns c w = (Inr c', w') \<Longrightarrow> ni_id ` set ns \<subseteq> holders (w_db w') h"
proof (induction ns arbitrary: c w)
  case (Cons n ns)
  let ?w1 = "snd (send_putChunk e (ni_address n) h d w)"
  let ?t = "tell e (\<lambda>eng now. ConfirmChunk eng now h (int (length d)) (ni_id n)) ?w1"
  let ?c = "c(ni_id n := c (ni_id n) + 1)"
  from Cons.prems have ok: "fst ?t = Inr ()" and rec: "uploadCopies e h d ns ?c (snd ?t) = (Inr c', w')"
    by (auto simp: split_beta split: sum.splits)
  have "ni_id n \<in> holders (w_db w') h"
    using confirm_step_holders(2) [OF ok] uploadCopies_mono [of "snd ?t" h e h d ns ?c] rec by auto
  with Cons.IH [OF rec] show ?case by simp
qed simp

lemma onlineCount_card:
  assumes "keys_ok db"
  shows "onlineCount (ChunkLocations eng now db h) =
     int (card (ni_id ` set (filter (\<lambda>n. ni_status n = ''online'') (ChunkLocations eng now db h))))"
  using distinct_card [OF distinct_map_filter [OF distinct_ChunkLocations [OF assms]]]
  by (simp add: onlineCount_def)

lemma ChunkLocations_holders: "ni_id ` set (ChunkLocations eng now db h) \<subseteq> holders db h"
  by (cases "eng 0") (auto simp: set_ChunkLocations, simp add: ChunkLocations_def)

text \<open>An accepted chunk either had enough online copies or was copied to enough further nodes.\<close>

lemma uploadChunk_cases:
  assumes "uploadChunk e up d rest w = (Inr up', w')"
  obtains (enough) eng now where
      "up_replication up \<le> onlineCount (ChunkLocations eng now (w_db w) (hashData d))"
      "w_db w' = w_db w" "w_nodes w' = w_nodes w" "w_token w' = w_token w"
  | (copied) eng now eng' now' k ns c' w1 where
      "k = up_replication up - onlineCount (ChunkLocations eng now (w_db w) (hashData d))" "0 < k"
      "ns = PlanChunkSpread eng' now' (w_db w) (hashData d) (int (length d)) k (up_selectedCounts up)"
      "k \<le> int (length ns)" "w_db w1 = w_db w" "w_nodes w1 = w_nodes w" "w_token w1 = w_token w"
      "uploadCopies e (hashData d) d ns (up_selectedCounts up) w1 = (Inr c', w')"
proof -
  define w0 where "w0 = (if hashData d \<in> set (up_seenHashes up) then w else tick w)"
  have w0: "w_db w0 = w_db w" "w_nodes w0 = w_nodes w" "w_token w0 = w_token w"
    by (simp_all add: w0_def)
  define locs where "locs = ChunkLocations (ev_eng e (w_tick w0)) (ev_now e (w_tick w0)) (w_db w) (hashData d)"
  define k where "k = up_replication up - onlineCount locs"
  define ns where "ns = PlanChunkSpread (ev_eng e (Suc (w_tick w0))) (ev_now e (Suc (w_tick w0))) (w_db w)
      (hashData d) (int (length d)) k (up_selectedCounts up)"
  define look where "look = (if hashData d \<in> set (up_seenHashes up) then (True, w)
      else ask e (\<lambda>eng now db. ChunkInUse eng db (hashData d)) w)"
  have look: "snd look = w0" by (simp add: w0_def look_def)
  define up1 where "up1 = (if fst look
      then up\<lparr>up_dedupReusedBytes := up_dedupReusedBytes up + int (length d)\<rparr>
      else up\<lparr>up_dedupNewBytes := up_dedupNewBytes up + int (length d)\<rparr>)"
  have up1: "up_replication up1 = up_replication up" "up_selectedCounts up1 = up_selectedCounts up"
    by (simp_all add: up1_def)
  obtain r w2 where uc: "uploadCopies e (hashData d) d ns (up_selectedCounts up) (tick (tick w0)) = (r, w2)"
    by fastforce
  have "(Inr up', w') = (if 0 < k then if int (length ns) < k
         then (Inl (respond StatusServiceUnavailable (RError ''not enough nodes for chunk'')), tick (tick w0))
         else (case r of Inl rs \<Rightarrow> (Inl rs, w2)
           | Inr counts \<Rightarrow> (fst (uploadChunk e up d rest w), w2))
       else (fst (uploadChunk e up d rest w), tick w0))"
    using assms unfolding uploadChunk_def Let_def split_beta look_def [symmetric] up1_def [symmetric] look
    by (cases "0 < k"; cases "int (length ns) < k"; cases r)
      (simp_all add: ask_def w0 up1 locs_def [symmetric] k_def [symmetric] ns_def [symmetric] uc)
  then have run: "0 < k \<and> k \<le> int (length ns) \<and>
        (\<exists>c'. uploadCopies e (hashData d) d ns (up_selectedCounts up) (tick (tick w0)) = (Inr c', w')) \<or>
      k \<le> 0 \<and> w' = tick w0"
    by (auto simp: uc split: if_splits sum.splits)
  then show ?thesis
  proof (elim disjE conjE exE)
    fix c' assume "0 < k" "k \<le> int (length ns)"
      "uploadCopies e (hashData d) d ns (up_selectedCounts up) (tick (tick w0)) = (Inr c', w')"
    then show ?thesis by (intro copied [OF k_def [unfolded locs_def] _ ns_def]) (simp_all add: w0)
  next
    assume "k \<le> 0" "w' = tick w0"
    then show ?thesis by (intro enough) (simp_all add: k_def locs_def w0)
  qed
qed

text \<open>
  Whatever happens meanwhile, a chunk the loop accepts has at least the requested number of
  recorded copies: those found online, and those just made on nodes that had none.
\<close>

lemma uploadChunk_copies:
  assumes "world_inv w" and "uploadChunk e up d rest w = (Inr up', w')"
  shows "up_replication up \<le> int (card (holders (w_db w') (hashData d))) \<and>
    (\<forall>h'. holders (w_db w) h' \<subseteq> holders (w_db w') h')"
proof -
  have keys: "keys_ok (w_db w)" using assms(1) by (simp add: world_inv_def db_wf_def)
  let ?h = "hashData d"
  let ?on = "\<lambda>eng now. ni_id ` set (filter (\<lambda>n. ni_status n = ''online'') (ChunkLocations eng now (w_db w) ?h))"
  have on: "?on eng now \<subseteq> holders (w_db w) ?h" for eng now
    using ChunkLocations_holders [of eng now "w_db w" ?h] by auto
  from assms(2) show ?thesis
  proof (cases rule: uploadChunk_cases)
    case (enough eng now)
    have "card (?on eng now) \<le> card (holders (w_db w) ?h)" by (rule card_mono [OF finite_holders on])
    with enough onlineCount_card [OF keys, of eng now ?h] show ?thesis by simp
  next
    case (copied eng now eng' now' k ns c' w1)
    have mono: "holders (w_db w) h' \<subseteq> holders (w_db w') h'" for h'
      using uploadCopies_mono [of w1 h' e ?h d ns "up_selectedCounts up"] copied(5,8) by simp
    have new: "ni_id ` set ns \<subseteq> holders (w_db w') ?h" by (rule uploadCopies_ids [OF copied(8)])
    have disj: "?on eng now \<inter> ni_id ` set ns = {}"
      using on [of eng now] PlanChunkSpread_subset [of eng' now' "w_db w" ?h "int (length d)" k "up_selectedCounts up"]
      unfolding copied(3) plan_eligible_def holders_def [symmetric] by (fastforce simp: holders_def [symmetric])
    have "card (?on eng now \<union> ni_id ` set ns) = card (?on eng now) + card (ni_id ` set ns)"
      by (rule card_Un_disjoint) (use disj in simp_all)
    moreover have "card (ni_id ` set ns) = length ns"
      using distinct_card [OF distinct_PlanChunkSpread [OF keys]] unfolding copied(3) by simp
    moreover have "card (?on eng now \<union> ni_id ` set ns) \<le> card (holders (w_db w') ?h)"
      by (rule card_mono [OF finite_holders Un_least]) (rule subset_trans [OF on mono], rule new)
    ultimately show ?thesis
      using copied(1,4) onlineCount_card [OF keys, of eng now ?h] mono by simp
  qed
qed

lemma uploadLoop_copies:
  assumes "world_inv w" and "uploadLoop e up w = (Uploaded up', w')"
    and "up_chunks up = []" and "up_index up = 0"
  shows "\<exists>ds. up_chunks up' = chunk_refs ds \<and> concat ds = rd_bytes (up_reader up) \<and>
    rd_end (up_reader up) = EOF \<and> ds = fst (chunk_all (up_reader up) (up_chunkSize up)) \<and>
    (\<forall>d \<in> set ds. up_replication up \<le> int (card (holders (w_db w') (hashData d))))"
proof -
  have "(\<forall>d \<in> set (fst (chunk_all (up_reader up) (up_chunkSize up))).
      up_replication up \<le> int (card (holders (w_db w') (hashData d)))) \<and>
      (\<forall>h. holders (w_db w) h \<subseteq> holders (w_db w') h)"
    using assms(2,1)
  proof (induction rule: uploadLoop_induct)
    case Finished
    then show ?case by (simp add: chunk_all.simps [of "up_reader up'"])
  next
    case (Turn up w d rest up1 w1)
    note f = uploadChunk_fields [OF Turn(2)] and c = uploadChunk_copies [OF Turn.prems Turn(2)]
    have "world_inv w1" using uploadChunk_inv [OF Turn.prems, of e up d rest] Turn(2) by simp
    note ih = Turn.IH [OF this]
    have "card (holders (w_db w1) (hashData d)) \<le> card (holders (w_db w') (hashData d))"
      by (rule card_mono) (use ih in auto)
    with ih c f show ?case by (fastforce simp: chunk_all_Chunk [OF Turn(1)])
  qed
  moreover have "concat (fst (chunk_all (up_reader up) (up_chunkSize up))) = rd_bytes (up_reader up)"
    and rec: "rd_end (up_reader up) = EOF" "up_chunks up' = chunk_refs (fst (chunk_all (up_reader up) (up_chunkSize up)))"
    using uploadLoop_records [OF assms(2), of "[]"] assms(3,4) chunk_all_concat by (auto simp: chunk_refs_def)
  ultimately show ?thesis by blast
qed

text \<open>
  C4: the replication promise of an upload. Under every failure of the database, the network
  and the nodes, and whatever copies existed before, when the loop of \<^verbatim>\<open>backupFile\<close> completes,
  the chunks it recorded are the bytes of the file in order, split at the content-defined
  cuts, and each of them has at least \<open>replication\<close> copies on different nodes in the tables.
\<close>

theorem upload_is_replicated:
  assumes "world_inv w" and "uploadLoop e up w = (Uploaded up', w')"
    and "up_chunks up = []" and "up_index up = 0"
  shows "\<exists>ds. up_chunks up' = chunk_refs ds \<and> concat ds = rd_bytes (up_reader up) \<and>
    rd_end (up_reader up) = EOF \<and> ds = fst (chunk_all (up_reader up) (up_chunkSize up)) \<and>
    (\<forall>d \<in> set ds. up_replication up \<le> int (card (holders (w_db w') (hashData d))))"
  by (rule uploadLoop_copies [OF assms])

end
