(* ===== verification/Backing.thy ===== *)
theory Backing
  imports Uploads
begin

text \<open>
  When the copies the tables promise are really on the nodes: what each request does to the
  chunks of the node that serves it, and which operations of the server keep tables and
  nodes in agreement.
\<close>

subsection \<open>What a request does to the chunks of a node\<close>

text \<open>A node really has a chunk when its file decodes to content with that very hash.\<close>

definition has_chunk :: "Node \<Rightarrow> string \<Rightarrow> bool" where
  "has_chunk n h \<longleftrightarrow> (\<exists>d. blob (nd_store n) h = Some d \<and> hashData d = h)"

lemma hashData_digest_eq: "digest (hashData d) = digest (hashData d') \<Longrightarrow> hashData d = hashData d'"
  by (simp add: digest_hashData) (simp add: hashData_def)

lemma chunk_path_hash_simp: "path = ''/chunks/'' @ h \<Longrightarrow> chunk_path_hash path = h"
  by (simp add: chunk_path_hash_def)

lemma has_chunk_put:
  assumes "node_inv n" and "has_chunk n h'"
  shows "has_chunk (snd (putChunk io r n)) h'"
proof -
  have inv: "store_inv (nd_store n)" using assms(1) by (simp add: node_inv_def)
  obtain res s' where p: "Put io (nd_store n) (chunk_path_hash (rq_path r)) (nb_reader (rq_body r)) = (res, s')"
    by fastforce
  have "\<exists>d. blob s' h' = Some d \<and> hashData d = h'"
  proof (cases res)
    case (Inl err)
    with p have "blob s' h' = blob (nd_store n) h'"
      using Put_Inl same_chunks_blob by blast
    with assms(2) show ?thesis by (simp add: has_chunk_def)
  next
    case (Inr k)
    with p have p': "Put io (nd_store n) (chunk_path_hash (rq_path r)) (nb_reader (rq_body r)) = (Inr k, s')" by simp
    have "store_ok (nd_store n)" using inv by (simp add: store_inv_def)
    from Put_Inr [OF p' this] have h: "chunk_path_hash (rq_path r) = hashData (rd_bytes (nb_reader (rq_body r)))" by blast
    from assms(2) obtain d where "blob (nd_store n) h' = Some d" "hashData d = h'" by (auto simp: has_chunk_def)
    show ?thesis
    proof (cases "digest h' = digest (chunk_path_hash (rq_path r))")
      case True
      then have "hashData d = hashData (rd_bytes (nb_reader (rq_body r)))"
        using \<open>hashData d = h'\<close> h by (intro hashData_digest_eq) simp
      with Put_blob [OF inv p', of h'] True \<open>hashData d = h'\<close> show ?thesis by simp
    next
      case False
      with Put_blob [OF inv p', of h'] \<open>hashData d = h'\<close> \<open>blob (nd_store n) h' = Some d\<close> show ?thesis by simp
    qed
  qed
  with p assms(2) show ?thesis by (auto simp: putChunk_state has_chunk_def)
qed

lemma put_accepted:
  assumes "node_inv n" and "rs_status (fst (putChunk io r n)) < 300"
  shows "has_chunk (snd (putChunk io r n)) (chunk_path_hash (rq_path r))"
proof -
  have inv: "store_inv (nd_store n)" "store_ok (nd_store n)" using assms(1) by (simp_all add: node_inv_def store_inv_def)
  obtain k s' where p: "Put io (nd_store n) (chunk_path_hash (rq_path r)) (nb_reader (rq_body r)) = (Inr k, s')"
    and st: "snd (putChunk io r n) = n\<lparr>nd_store := s'\<rparr>"
    using assms(2) by (auto simp: putChunk_def Let_def split: if_splits prod.splits sum.splits)
  from Put_Inr [OF p inv(2)] have "chunk_path_hash (rq_path r) = hashData (rd_bytes (nb_reader (rq_body r)))" by blast
  with Put_blob [OF inv(1) p, of "chunk_path_hash (rq_path r)"] show ?thesis
    by (simp add: st has_chunk_def)
qed

lemma has_chunk_delete:
  assumes "has_chunk n h'" and "digest h' \<noteq> digest (chunk_path_hash (rq_path r)) \<or> rs_status (fst (deleteChunk io r n)) \<ge> 300"
  shows "has_chunk (snd (deleteChunk io r n)) h'"
proof -
  let ?d = "Delete io (nd_store n) (chunk_path_hash (rq_path r))"
  have "blob (snd ?d) h' = blob (nd_store n) h'"
  proof (cases "fst ?d")
    case (Inl err)
    then have "snd ?d = nd_store n"
      by (auto simp: Delete_def Let_def split: sum.splits option.splits if_splits)
    then show ?thesis by simp
  next
    case (Inr u)
    then have "rs_status (fst (deleteChunk io r n)) = 200"
      by (simp add: deleteChunk_def Let_def split_beta)
    with assms(2) Delete_blob [of io "nd_store n" "chunk_path_hash (rq_path r)" h'] Inr show ?thesis by auto
  qed
  with assms(1) show ?thesis by (simp add: has_chunk_def deleteChunk_state)
qed

subsection \<open>What a request does to the chunks of all nodes\<close>

definition holds :: "World \<Rightarrow> string \<Rightarrow> string \<Rightarrow> bool" where
  "holds w a h \<longleftrightarrow> (\<exists>n. w_nodes w a = Some n \<and> has_chunk n h)"

lemma node_handler_chunks:
  assumes "HasPrefix (rq_path r) ''/chunks/''"
  shows "rq_method r = ''PUT'' \<Longrightarrow> node_handler io r n =
      (if ValidBearer (rq_authorization r) (nd_token n) then putChunk io r n else (respond 401 Unauthorized, n))"
    and "rq_method r = ''DELETE'' \<Longrightarrow> node_handler io r n =
      (if ValidBearer (rq_authorization r) (nd_token n) then deleteChunk io r n else (respond 401 Unauthorized, n))"
    and "rq_method r = ''GET'' \<Longrightarrow> node_handler io r n =
      (if ValidBearer (rq_authorization r) (nd_token n) then getChunk io r n else (respond 401 Unauthorized, n))"
proof -
  have "rq_path r \<noteq> ''/health''" using assms by (auto simp: HasPrefix_iff)
  with assms show "rq_method r = ''PUT'' \<Longrightarrow> node_handler io r n =
      (if ValidBearer (rq_authorization r) (nd_token n) then putChunk io r n else (respond 401 Unauthorized, n))"
    "rq_method r = ''DELETE'' \<Longrightarrow> node_handler io r n =
      (if ValidBearer (rq_authorization r) (nd_token n) then deleteChunk io r n else (respond 401 Unauthorized, n))"
    "rq_method r = ''GET'' \<Longrightarrow> node_handler io r n =
      (if ValidBearer (rq_authorization r) (nd_token n) then getChunk io r n else (respond 401 Unauthorized, n))"
    by (simp_all add: node_handler_def Middleware_def node_public_def node_mux_def Let_def)
qed

lemma request_sel [simp]:
  "rq_method (node_request m p d) = m" "rq_path (node_request m p d) = p"
  "rq_method (RoundTrip t r) = rq_method r" "rq_path (RoundTrip t r) = rq_path r"
  "rq_method (cut_body k r) = rq_method r" "rq_path (cut_body k r) = rq_path r"
  by (simp_all add: node_request_def RoundTrip_def cut_body_def)

text \<open>A request reaches no node, or is answered, or is handled with the answer lost.\<close>

lemma Do_cases:
  obtains (untouched) "w_nodes (snd (Do e a r w)) = w_nodes w" "fst (Do e a r w) = None"
  | (answered) n r' ok where "w_nodes w a = Some n" "rq_method r' = rq_method r" "rq_path r' = rq_path r"
      "w_nodes (snd (Do e a r w)) = (w_nodes w)(a \<mapsto> snd (node_handler (ev_io e (w_tick w)) r' n))"
      "fst (Do e a r w) = Some (fst (node_handler (ev_io e (w_tick w)) r' n), ok)"
  | (lost) n r' where "w_nodes w a = Some n" "rq_method r' = rq_method r" "rq_path r' = rq_path r"
      "w_nodes (snd (Do e a r w)) = (w_nodes w)(a \<mapsto> snd (node_handler (ev_io e (w_tick w)) r' n))"
      "fst (Do e a r w) = None"
      "ev_net e (w_tick w) = ResponseLost \<or> (\<exists>j. ev_net e (w_tick w) = RequestCut j)"
proof (cases "w_nodes w a")
  case (Some n)
  show ?thesis
  proof (cases "ev_net e (w_tick w)")
    case (RequestCut j)
    with Some show ?thesis
      by (intro lost [of n "cut_body j (RoundTrip (w_token w) r)"]) (simp_all add: Do_def Let_def)
  next
    case ResponseLost
    with Some show ?thesis
      by (intro lost [of n "RoundTrip (w_token w) r"]) (simp_all add: Do_def Let_def)
  next
    case RequestLost
    with Some show ?thesis by (intro untouched) (simp_all add: Do_def Let_def)
  next
    case Delivered
    with Some show ?thesis
      by (intro answered [of n "RoundTrip (w_token w) r" True]) (simp_all add: Do_def Let_def)
  next
    case BodyLost
    with Some show ?thesis
      by (intro answered [of n "RoundTrip (w_token w) r" False]) (simp_all add: Do_def Let_def)
  qed
qed (simp add: Do_def untouched)

text \<open>Storing and fetching never lose a chunk; a stored chunk is there.\<close>

lemma holds_update:
  "w_nodes w' = (w_nodes w)(a' \<mapsto> n') \<Longrightarrow> w_nodes w a' = Some n \<Longrightarrow>
     (a = a' \<Longrightarrow> has_chunk n h \<Longrightarrow> has_chunk n' h) \<Longrightarrow> holds w a h \<Longrightarrow> holds w' a h"
  by (auto simp: holds_def split: if_splits)

lemma holds_cong: "w_nodes w' = w_nodes w \<Longrightarrow> holds w' a h = holds w a h"
  by (simp add: holds_def)

lemma Do_put_keeps:
  assumes "world_inv w" and "holds w a h"
  shows "holds (snd (Do e a' (node_request ''PUT'' (''/chunks/'' @ h') d) w)) a h" (is "holds (snd (Do e a' ?r w)) a h")
proof -
  have keep: "has_chunk (snd (node_handler io r' n)) h"
    if "w_nodes w a' = Some n" "rq_method r' = rq_method ?r" "rq_path r' = rq_path ?r" "has_chunk n h" for io r' n
  proof -
    have "node_inv n" using assms(1) that(1) by (auto simp: world_inv_def)
    with that show ?thesis by (simp add: node_handler_chunks has_chunk_put)
  qed
  show ?thesis
  proof (cases rule: Do_cases [of e a' ?r w])
    case untouched
    with assms(2) show ?thesis by (simp add: holds_def)
  next
    case (answered n r' ok)
    show ?thesis
      by (rule holds_update [OF answered(4,1) _ assms(2)]) (rule keep [OF answered(1-3)])
  next
    case (lost n r')
    show ?thesis
      by (rule holds_update [OF lost(4,1) _ assms(2)]) (rule keep [OF lost(1-3)])
  qed
qed

lemma getChunk_handler_state:
  assumes "HasPrefix (rq_path r) ''/chunks/''" and "rq_method r = ''GET''"
  shows "snd (node_handler io r n) = n"
  using assms by (simp add: node_handler_chunks)

lemma Do_get_nodes: "w_nodes (snd (Do e a' (node_request ''GET'' (''/chunks/'' @ h') []) w)) = w_nodes w"
  by (cases rule: Do_cases [of e a' "node_request ''GET'' (''/chunks/'' @ h') []" w])
    (auto simp: getChunk_handler_state)

lemma send_putChunk_ok:
  assumes "world_inv w" and "send_putChunk e a h d w = (Inr u, w')"
  shows "holds w' a h"
proof -
  let ?r = "node_request ''PUT'' (''/chunks/'' @ h) d"
  from assms(2) obtain rs ok where d: "fst (Do e a ?r w) = Some (rs, ok)" "rs_status rs < 300" "snd (Do e a ?r w) = w'"
    by (auto simp: send_putChunk_def split_beta split: option.splits if_splits)
  show ?thesis
  proof (cases rule: Do_cases [of e a ?r w])
    case (answered n r' ok')
    have inv: "node_inv n" using assms(1) answered(1) by (auto simp: world_inv_def)
    have "has_chunk (snd (node_handler (ev_io e (w_tick w)) r' n)) h"
      using put_accepted [OF inv, of "ev_io e (w_tick w)" r'] answered d(1,2) chunk_path_hash_simp [of "rq_path r'" h]
      by (auto simp: node_handler_chunks split: if_splits)
    with answered(4) d(3) show ?thesis by (simp add: holds_def)
  qed (use d in simp_all)
qed

lemma send_putChunk_keeps:
  "world_inv w \<Longrightarrow> holds w a h \<Longrightarrow> holds (snd (send_putChunk e a' h' d w)) a h"
  using Do_put_keeps [of w a h e a' h' d] by (auto simp: send_putChunk_def split_beta split: option.split)

lemma fetchFrom_nodes [simp]: "w_nodes (snd (fetchFrom e err ns h w)) = w_nodes w"
  by (induction ns arbitrary: err w) (simp_all add: split_beta Do_get_nodes [simplified] split: option.split)

lemma fetchFrom_db [simp]: "w_db (snd (fetchFrom e err ns h w)) = w_db w"
  by (induction ns arbitrary: err w) (simp_all add: split_beta world_simps split: option.split)

text \<open>
  Deleting: another node's chunks and chunks with other digests stay; and the chunk itself stays
  when the caller is told of a failure, provided no answer is lost.
\<close>

definition calm :: "env \<Rightarrow> bool" where
  "calm e \<longleftrightarrow> (\<forall>k. ev_net e k \<noteq> ResponseLost \<and> (\<forall>j. ev_net e k \<noteq> RequestCut j))"

lemma send_deleteChunk_keeps:
  assumes "holds w a h" and "a \<noteq> a' \<or> digest h \<noteq> digest h' \<or> calm e \<and> isl (fst (send_deleteChunk e a' h' w))"
  shows "holds (snd (send_deleteChunk e a' h' w)) a h"
proof -
  let ?r = "node_request ''DELETE'' (''/chunks/'' @ h') []"
  have w': "snd (send_deleteChunk e a' h' w) = snd (Do e a' ?r w)"
    by (simp add: send_deleteChunk_def split_beta split: option.split)
  show ?thesis
  proof (cases rule: Do_cases [of e a' ?r w])
    case untouched
    with assms(1) show ?thesis by (simp add: w' holds_def)
  next
    case (answered n r' ok)
    have "has_chunk (snd (node_handler (ev_io e (w_tick w)) r' n)) h" if a: "a = a'" and c: "has_chunk n h"
    proof -
      have "digest h \<noteq> digest h' \<or> rs_status (fst (node_handler (ev_io e (w_tick w)) r' n)) \<ge> 300"
        using assms(2) a answered(5) by (auto simp: send_deleteChunk_def split_beta split: if_splits)
      with c answered(2,3) show ?thesis
        using has_chunk_delete [OF c, of r' "ev_io e (w_tick w)"] chunk_path_hash_simp [of "rq_path r'" h']
        by (auto simp: node_handler_chunks split: if_splits)
    qed
    then show ?thesis unfolding w' by (rule holds_update [OF answered(4,1) _ assms(1)])
  next
    case (lost n r')
    have "has_chunk (snd (node_handler (ev_io e (w_tick w)) r' n)) h" if a: "a = a'" and c: "has_chunk n h"
    proof -
      have "digest h \<noteq> digest h'" using assms(2) a lost(6) by (auto simp: calm_def)
      with c lost(2,3) show ?thesis
        using has_chunk_delete [OF c, of r' "ev_io e (w_tick w)"] chunk_path_hash_simp [of "rq_path r'" h']
        by (auto simp: node_handler_chunks)
    qed
    then show ?thesis unfolding w' by (rule holds_update [OF lost(4,1) _ assms(1)])
  qed
qed

subsection \<open>The tables tell the truth\<close>

definition addr_book :: "Db \<Rightarrow> (string \<times> string) set" where
  "addr_book db = (\<lambda>n. (ni_id n, ni_address n)) ` set (db_nodes db)"

text \<open>
  Every recorded copy is on the node: the node that the table calls its holder answers at its
  address and has the chunk. Different nodes have different addresses.
\<close>

definition backed :: "World \<Rightarrow> bool" where
  "backed w \<longleftrightarrow>
     (\<forall>i i' a. (i, a) \<in> addr_book (w_db w) \<and> (i', a) \<in> addr_book (w_db w) \<longrightarrow> i = i') \<and>
     (\<forall>h i a. i \<in> holders (w_db w) h \<and> (i, a) \<in> addr_book (w_db w) \<longrightarrow> holds w a h)"

lemma addr_book_map: "addr_book db = set (zip (map ni_id (db_nodes db)) (map ni_address (db_nodes db)))"
  by (simp add: addr_book_def zip_map_map zip_same_conv_map)

lemma addr_book_confirm [world_simps]: "addr_book (snd (ConfirmChunk eng now h sz nid db)) = addr_book db"
proof -
  have "ni_address \<circ> (\<lambda>n. if ni_id n = nid then take_space sz t n else n) = ni_address"
    "ni_id \<circ> (\<lambda>n. if ni_id n = nid then take_space sz t n else n) = ni_id" for t
    by (rule ext, simp add: take_space_def)+
  then show ?thesis unfolding addr_book_map ConfirmChunk_def Let_def by simp
qed

lemma addr_book_unique:
  "keys_ok db \<Longrightarrow> (i, a) \<in> addr_book db \<Longrightarrow> (i, a') \<in> addr_book db \<Longrightarrow> a = a'"
  by (auto simp: addr_book_def keys_ok_def distinct_map inj_on_def)

lemma holders_confirm:
  "holders (snd (ConfirmChunk eng now h sz nid db)) h' \<subseteq>
     (if h' = h \<and> fst (ConfirmChunk eng now h sz nid db) = Inr () then insert nid (holders db h') else holders db h')"
  by (auto simp: ConfirmChunk_def Let_def holders_iff split: if_splits)

lemma remove_facts:
  assumes "RemoveChunkLocation eng h nid db = Some db'"
  shows "addr_book db' = addr_book db" and "holders db' h' = (if h' = h then holders db h' - {nid} else holders db h')"
  using assms by (cases rule: RemoveChunkLocation_cases, auto simp: addr_book_map holders_iff)+

lemma ChunkLocations_known:
  assumes "n \<in> set (ChunkLocations eng now db h)"
  shows "(ni_id n, ni_address n) \<in> addr_book db" "ni_id n \<in> holders db h"
proof -
  have "eng 0" using assms by (auto simp: ChunkLocations_def split: if_splits)
  with assms show "(ni_id n, ni_address n) \<in> addr_book db" "ni_id n \<in> holders db h"
    by (auto simp: set_ChunkLocations addr_book_def)
qed

lemma backed_hash: "backed w \<Longrightarrow> i \<in> holders (w_db w) h \<Longrightarrow> (i, a) \<in> addr_book (w_db w) \<Longrightarrow> h \<in> range hashData"
  unfolding backed_def holds_def has_chunk_def by blast

lemma backed_cong:
  assumes "backed w" and "\<And>a h. holds w a h \<Longrightarrow> holds w' a h"
    and "addr_book (w_db w') = addr_book (w_db w)" and "\<And>h. holders (w_db w') h \<subseteq> holders (w_db w) h"
  shows "backed w'"
  using assms unfolding backed_def by blast

lemma backed_tick [simp]: "backed (tick w) = backed w"
  by (simp add: backed_def holds_def)

text \<open>Storing a chunk and confirming it.\<close>

lemma put_confirm_backed:
  assumes "world_inv w" "backed w" and put: "send_putChunk e a h d w = (Inr u, w1)" and "(i, a) \<in> addr_book (w_db w)"
  shows "backed (snd (tell e (\<lambda>eng now. ConfirmChunk eng now h sz i) w1))"
    and "addr_book (w_db (snd (tell e (\<lambda>eng now. ConfirmChunk eng now h sz i) w1))) = addr_book (w_db w)"
proof -
  let ?w2 = "snd (tell e (\<lambda>eng now. ConfirmChunk eng now h sz i) w1)"
  have w1: "w_db w1 = w_db w" "holds w1 a h" "\<And>a' h'. holds w a' h' \<Longrightarrow> holds w1 a' h'"
    using send_db(1) [of e a h d w] send_putChunk_ok [OF assms(1) put] send_putChunk_keeps [OF assms(1), of _ _ e a h d] put
    by auto
  have nodes: "holds ?w2 a' h' = holds w1 a' h'" for a' h' by (rule holds_cong) (simp add: world_simps)
  show book: "addr_book (w_db ?w2) = addr_book (w_db w)" by (simp add: tell_db world_simps w1)
  have "holders (w_db ?w2) h' \<subseteq> (if h' = h then insert i (holders (w_db w) h') else holders (w_db w) h')" for h'
    using holders_confirm [of "ev_eng e (w_tick w1)" "ev_now e (w_tick w1)" h sz i "w_db w1" h']
    by (auto simp: tell_db w1(1) split: if_splits)
  note conf = this
  have "holds ?w2 a' h'" if "i' \<in> holders (w_db ?w2) h'" "(i', a') \<in> addr_book (w_db w)" for i' a' h'
  proof (cases "h' = h \<and> i' = i")
    case True
    have "keys_ok (w_db w)" using assms(1) by (simp add: world_inv_def db_wf_def)
    then have "a' = a" using addr_book_unique that(2) assms(4) True by blast
    with True w1(2) nodes show ?thesis by simp
  next
    case False
    then have "i' \<in> holders (w_db w) h'" using conf [of h'] that(1) by (auto split: if_splits)
    with assms(2) that(2) w1(3) nodes show ?thesis by (auto simp: backed_def)
  qed
  then show "backed ?w2" using assms(2) unfolding backed_def book by blast
qed

lemma send_put_backed:
  "world_inv w \<Longrightarrow> backed w \<Longrightarrow> backed (snd (send_putChunk e a h d w))"
  by (rule backed_cong [of w]) (auto simp: send_putChunk_keeps world_simps)

text \<open>Deleting a copy and its record, when no answer is lost.\<close>

lemma delete_failed_backed:
  assumes "backed w" "calm e" and "send_deleteChunk e a h w = (Inl err, w1)"
  shows "backed w1"
proof (rule backed_cong [OF assms(1)])
  have w1: "w1 = snd (send_deleteChunk e a h w)" using assms(3) by simp
  show "holds w1 a' h'" if "holds w a' h'" for a' h'
    unfolding w1 by (rule send_deleteChunk_keeps [OF that]) (simp add: assms(2,3))
qed (use send_db(2) [of e a h w] assms(3) in simp_all)

lemma delete_remove_backed:
  assumes "backed w" and "(i, a) \<in> addr_book (w_db w)" and "h \<in> range hashData"
    and "send_deleteChunk e a h w = (r, w1)" and "removeLocation e h i w1 = (True, w2)"
  shows "backed w2" "addr_book (w_db w2) = addr_book (w_db w)"
proof -
  have w1: "w1 = snd (send_deleteChunk e a h w)" using assms(4) by simp
  have db1: "w_db w1 = w_db w" unfolding w1 by (rule send_db(2))
  from assms(5) obtain db' where db': "RemoveChunkLocation (ev_eng e (w_tick w1)) h i (w_db w1) = Some db'" "w_db w2 = db'"
    and n2: "w_nodes w2 = w_nodes w1"
    by (auto simp: removeLocation_def split: option.splits)
  note facts = remove_facts [OF db'(1)]
  show book: "addr_book (w_db w2) = addr_book (w_db w)" by (simp add: db' facts db1)
  have "holds w2 a' h'" if "i' \<in> holders (w_db w2) h'" "(i', a') \<in> addr_book (w_db w)" for i' a' h'
  proof -
    have old: "i' \<in> holders (w_db w) h'" and ne: "h' = h \<longrightarrow> i' \<noteq> i"
      using that(1) by (auto simp: db' facts db1 split: if_splits)
    have here: "holds w a' h'" using assms(1) old that(2) unfolding backed_def by blast
    have "a' \<noteq> a \<or> digest h' \<noteq> digest h"
    proof (rule ccontr)
      assume "\<not> ?thesis"
      then have "i' = i" and d: "digest h' = digest h"
        using assms(1,2) that(2) unfolding backed_def by blast+
      moreover obtain d' where "h' = hashData d'" using here by (auto simp: holds_def has_chunk_def)
      ultimately show False using ne assms(3) hashData_digest_eq by blast
    qed
    then have "holds w1 a' h'" unfolding w1 by (intro send_deleteChunk_keeps [OF here]) blast
    then show ?thesis using holds_cong [OF n2] by simp
  qed
  then show "backed w2" using assms(1) unfolding backed_def book by blast
qed

subsection \<open>The operations keep it\<close>

abbreviation known :: "World \<Rightarrow> NodeInfo list \<Rightarrow> bool" where
  "known w ns \<equiv> \<forall>n \<in> set ns. (ni_id n, ni_address n) \<in> addr_book (w_db w)"

lemma holders_addr_book_cong:
  "db_nodes db' = db_nodes db \<Longrightarrow> addr_book db' = addr_book db"
  "db_locations db' = db_locations db \<Longrightarrow> holders db' h = holders db h"
  by (simp_all add: addr_book_def holders_def)

lemma tell_backed:
  assumes "backed w" and "\<And>eng now. db_nodes (snd (f eng now (w_db w))) = db_nodes (w_db w)"
    and "\<And>eng now. db_locations (snd (f eng now (w_db w))) = db_locations (w_db w)"
  shows "backed (snd (tell e f w))" "addr_book (w_db (snd (tell e f w))) = addr_book (w_db w)"
proof -
  show b: "addr_book (w_db (snd (tell e f w))) = addr_book (w_db w)"
    by (rule holders_addr_book_cong) (simp add: tell_db assms)
  have h: "holders (w_db (snd (tell e f w))) h = holders (w_db w) h" for h
    by (rule holders_addr_book_cong) (simp add: tell_db assms)
  show "backed (snd (tell e f w))"
    by (rule backed_cong [OF assms(1) _ b]) (simp_all add: h holds_def world_simps)
qed

lemma uploadCopies_backed:
  "world_inv w \<Longrightarrow> backed w \<Longrightarrow> known w ns \<Longrightarrow>
     backed (snd (uploadCopies e h d ns c w)) \<and> addr_book (w_db (snd (uploadCopies e h d ns c w))) = addr_book (w_db w)"
proof (induction ns arbitrary: c w)
  case (Cons n ns)
  obtain r w1 where put: "send_putChunk e (ni_address n) h d w = (r, w1)" by fastforce
  have inv1: "world_inv w1" using send_inv(1) [OF Cons.prems(1), of e "ni_address n" h d] put by simp
  have b1: "backed w1" using send_put_backed [OF Cons.prems(1,2), of e "ni_address n" h d] put by simp
  have db1: "w_db w1 = w_db w" using send_db(1) [of e "ni_address n" h d w] put by simp
  show ?case
  proof (cases r)
    case (Inl err)
    with put b1 db1 show ?thesis by simp
  next
    case (Inr u)
    obtain r' w2 where conf: "tell e (\<lambda>eng now. ConfirmChunk eng now h (int (length d)) (ni_id n)) w1 = (r', w2)"
      by fastforce
    have "(ni_id n, ni_address n) \<in> addr_book (w_db w)" using Cons.prems(3) by simp
    note pc = put_confirm_backed [OF Cons.prems(1,2) put [unfolded Inr] this, of "int (length d)", unfolded conf snd_conv]
    have "db_wf (w_db w1)" using inv1 by (simp add: world_inv_def)
    then have inv2: "world_inv w2" by (intro tell_inv_eq [OF inv1 conf]) (simp add: ConfirmChunk_wf)
    have "known w2 ns" using Cons.prems(3) pc(2) by simp
    from Cons.IH [OF inv2 pc(1) this] pc show ?thesis
      by (cases r') (simp_all add: put Inr conf)
  qed
qed simp

lemma PlanChunkSpread_known: "n \<in> set (PlanChunkSpread eng now db h sz k c) \<Longrightarrow> (ni_id n, ni_address n) \<in> addr_book db"
  using PlanChunkSpread_subset [of eng now db h sz k c] by (auto simp: addr_book_def)

lemma uploadChunk_backed:
  assumes "world_inv w" "backed w"
  shows "backed (snd (uploadChunk e up d rest w))"
proof -
  have "backed (snd (uploadCopies e (hashData d) d ns c w1))"
    if "known w ns" "w_db w1 = w_db w" "w_nodes w1 = w_nodes w" for ns c w1
  proof -
    have "world_inv w1" "backed w1" "known w1 ns"
      using assms that by (simp_all add: world_inv_def backed_def holds_def)
    from uploadCopies_backed [OF this] show ?thesis ..
  qed
  then show ?thesis
    using assms PlanChunkSpread_known
    by (simp add: uploadChunk_def Let_def split_beta ask_def split: sum.split)
qed

lemma uploadStep_backed: "world_inv w \<Longrightarrow> backed w \<Longrightarrow> backed (snd (uploadStep e up w))"
  by (simp add: uploadStep_def split_beta uploadChunk_backed split: chunk_read.split sum.split)

lemma uploadLoop_backed: "world_inv w \<Longrightarrow> backed w \<Longrightarrow> backed (snd (uploadLoop e up w))"
proof (induction e up w rule: uploadLoop.induct)
  case (1 e up w)
  obtain s w1 where s: "uploadStep e up w = (s, w1)" by fastforce
  have "world_inv w1" "backed w1"
    using uploadStep_inv [OF "1.prems"(1), of e up] uploadStep_backed [OF "1.prems", of e up] s by simp_all
  then show ?case
    using "1.IH" s by (subst uploadLoop.simps) (cases s; simp)
qed

lemma deleteCopies_backed:
  assumes "calm e" and "h \<in> range hashData"
  shows "backed w \<Longrightarrow> known w ns \<Longrightarrow> deleteCopies e h ns acc w = (Some acc', w') \<Longrightarrow>
     backed w' \<and> addr_book (w_db w') = addr_book (w_db w)"
proof (induction ns arbitrary: acc w)
  case Nil
  then show ?case by (cases acc) simp
next
  case (Cons n ns)
  obtain k fs where acc: "acc = (k, fs)" by fastforce
  obtain r w1 where del: "send_deleteChunk e (ni_address n) h w = (r, w1)" by fastforce
  show ?case
  proof (cases r)
    case (Inl err)
    have "backed w1" by (rule delete_failed_backed [OF Cons.prems(1) assms(1) del [unfolded Inl]])
    moreover have db1: "w_db w1 = w_db w" using send_db(2) [of e "ni_address n" h w] del by simp
    ultimately show ?thesis
      using Cons.IH [of w1 "(k, fs @ [h @ '' on '' @ ni_id n])"] Cons.prems(2,3) by (simp add: acc del Inl)
  next
    case (Inr u)
    obtain b w2 where rem: "removeLocation e h (ni_id n) w1 = (b, w2)" by fastforce
    with Cons.prems(3) have b: "b" by (cases b) (simp_all add: acc del Inr)
    have "(ni_id n, ni_address n) \<in> addr_book (w_db w)" using Cons.prems(2) by simp
    note dr = delete_remove_backed [OF Cons.prems(1) this assms(2) del]
    have "backed w2" "addr_book (w_db w2) = addr_book (w_db w)" using dr rem b by simp_all
    then show ?thesis
      using Cons.IH [of w2 "(k + 1, fs)"] Cons.prems(2,3) b by (simp add: acc del Inr rem)
  qed
qed

lemma deleteHashes_backed:
  assumes "calm e"
  shows "backed w \<Longrightarrow> (\<And>h. h \<in> set hs \<Longrightarrow> known w (locs h) \<and> (locs h \<noteq> [] \<longrightarrow> h \<in> range hashData)) \<Longrightarrow>
     deleteHashes e locs hs acc w = (Some acc', w') \<Longrightarrow> backed w' \<and> addr_book (w_db w') = addr_book (w_db w)"
proof (induction hs arbitrary: acc w)
  case (Cons h hs)
  obtain acc1 w1 where d: "deleteCopies e h (locs h) acc w = (Some acc1, w1)"
    and rest: "deleteHashes e locs hs acc1 w1 = (Some acc', w')"
    using Cons.prems(3) by (auto split: prod.splits option.splits)
  have "backed w1 \<and> addr_book (w_db w1) = addr_book (w_db w)"
  proof (cases "locs h = []")
    case True
    with d Cons.prems(1) show ?thesis by (cases acc) simp
  next
    case False
    with Cons.prems(2) [of h] show ?thesis by (intro deleteCopies_backed [OF assms _ Cons.prems(1) _ d]) auto
  qed
  note w1 = this
  have "backed w' \<and> addr_book (w_db w') = addr_book (w_db w1)"
    by (rule Cons.IH [OF _ _ rest]) (use w1 Cons.prems(2) in auto)
  with w1 show ?case by simp
qed simp

lemma snapshot_known:
  assumes "backed w"
  shows "known w (LocationsSnapshot eng now (w_db w) hs h) \<and>
    (LocationsSnapshot eng now (w_db w) hs h \<noteq> [] \<longrightarrow> h \<in> range hashData)"
proof -
  have *: "(ni_id n, ni_address n) \<in> addr_book (w_db w) \<and> h \<in> range hashData"
    if "n \<in> set (ChunkLocations eng' now (w_db w) h)" for n eng'
    using ChunkLocations_known [OF that] backed_hash [OF assms] by blast
  show ?thesis
  proof (cases "h \<in> set hs \<and> ChunkLocations (eng h) now (w_db w) h \<noteq> []")
    case True
    then obtain n where "n \<in> set (ChunkLocations (eng h) now (w_db w) h)" by (cases "ChunkLocations (eng h) now (w_db w) h") auto
    with * show ?thesis by (auto simp: LocationsSnapshot_def)
  qed (auto simp: LocationsSnapshot_def)
qed

lemma deleteUnusedChunks_backed:
  assumes "calm e" "backed w" and "deleteUnusedChunks e hs w = (Some r, w')"
  shows "backed w'"
proof -
  let ?locs = "LocationsSnapshot (\<lambda>h. later (length (takeWhile (\<lambda>x. x \<noteq> h) hs)) (ev_eng e (w_tick w)))
      (ev_now e (w_tick w)) (w_db w) hs"
  have "deleteHashes e ?locs hs (0, []) (tick w) = (Some r, w')"
    using assms(3) by (simp add: deleteUnusedChunks_def ask_def)
  from deleteHashes_backed [OF assms(1) _ _ this] assms(2) snapshot_known [OF assms(2)] show ?thesis by simp
qed

lemma CreateFile_other_tables:
  "db_nodes (snd (CreateFile eng now date uuid req db)) = db_nodes db"
  "db_locations (snd (CreateFile eng now date uuid req db)) = db_locations db"
  by (cases rule: CreateFile_cases [of eng now date uuid req db]; simp)+

lemma ApplyRetention_other_tables:
  assumes "files_ok db"
  shows "db_nodes (snd (ApplyRetention eng name keep db)) = db_nodes db"
    "db_locations (snd (ApplyRetention eng name keep db)) = db_locations db"
  using assms by (cases rule: ApplyRetention_cases [of _ eng name keep]; simp)+

lemma DeleteFile_other_tables:
  "db_nodes (snd (DeleteFile eng fid db)) = db_nodes db"
  "db_locations (snd (DeleteFile eng fid db)) = db_locations db"
  by (cases rule: DeleteFile_cases [of eng fid db]; simp)+

lemma saveManifest_backed:
  assumes "world_inv w" "backed w" "calm e" and "saveManifest e date uuid req w = (rs, w')" and "rs_status rs \<noteq> 0"
  shows "backed w'"
proof -
  obtain r w1 where c: "tell e (\<lambda>eng now. CreateFile eng now date uuid req) w = (r, w1)" by fastforce
  have b1: "backed w1" using tell_backed(1) [OF assms(2), of "\<lambda>eng now. CreateFile eng now date uuid req" e]
    by (simp add: CreateFile_other_tables c)
  have i1: "world_inv w1"
    by (rule tell_inv_eq [OF assms(1) c]) (use assms(1) in \<open>simp add: CreateFile_wf world_inv_def\<close>)
  show ?thesis
  proof (cases r)
    case (Inl err)
    with assms(4) c b1 show ?thesis by (simp add: saveManifest_def)
  next
    case (Inr m)
    obtain ds us w2 where a: "tell e (\<lambda>eng now. ApplyRetention eng (fm_backupName m) (fm_retention m)) w1 = ((ds, us), w2)"
      by (metis prod.exhaust)
    have "files_ok (w_db w1)" using i1 by (simp add: world_inv_def db_wf_def)
    then have b2: "backed w2"
      using tell_backed(1) [OF b1, of "\<lambda>eng now. ApplyRetention eng (fm_backupName m) (fm_retention m)" e]
      by (simp add: ApplyRetention_other_tables a)
    obtain dr w3 where d: "deleteUnusedChunks e us w2 = (dr, w3)" by fastforce
    with assms(4,5) obtain x where "dr = Some x" "w' = w3"
      by (cases dr) (auto simp: saveManifest_def c Inr a)
    with deleteUnusedChunks_backed [OF assms(3) b2] d show ?thesis by simp
  qed
qed

lemma deleteFile_backed:
  assumes "backed w" "calm e" and "deleteFile e r w = (rs, w')" and "rs_status rs \<noteq> 0"
  shows "backed w'"
proof -
  let ?fid = "TrimSuffix (TrimPrefix (rq_path r) ''/files/'') ''/''"
  obtain x w1 where d: "tell e (\<lambda>eng now. DeleteFile eng ?fid) w = (x, w1)" by fastforce
  have b1: "backed w1" using tell_backed(1) [OF assms(1), of "\<lambda>eng now. DeleteFile eng ?fid" e]
    by (simp add: DeleteFile_other_tables d)
  show ?thesis
  proof (cases x)
    case None
    with assms(3) d b1 show ?thesis by (simp add: deleteFile_def)
  next
    case (Some p)
    obtain m us where p: "p = (m, us)" by fastforce
    obtain dr w3 where u: "deleteUnusedChunks e us w1 = (dr, w3)" by fastforce
    with assms(3,4) obtain y where "dr = Some y" "w' = w3"
      by (cases dr) (auto simp: deleteFile_def d Some p Let_def)
    with deleteUnusedChunks_backed [OF assms(2) b1] u show ?thesis by simp
  qed
qed

text \<open>The scheduler's passes.\<close>

lemma orphan_task_row:
  assumes "t \<in> set (OrphanChunkTasks eng now limit db)"
  obtains l n where "l \<in> set (db_locations db)" "n \<in> set (db_nodes db)" "ni_id n = lo_nodeID l"
    "ot_hash t = lo_hash l" "ot_node t = withDerivedStatus now n"
  using assms that by (auto simp: OrphanChunkTasks_def orphan_rows_def Let_def split: if_splits dest!: in_set_takeD)

lemma orphan_known:
  assumes "t \<in> set (OrphanChunkTasks eng now limit db)"
  shows "(ni_id (ot_node t), ni_address (ot_node t)) \<in> addr_book db \<and> ni_id (ot_node t) \<in> holders db (ot_hash t)"
proof -
  from assms obtain l n where l: "l \<in> set (db_locations db)" and n: "n \<in> set (db_nodes db)"
    and eq: "ni_id n = lo_nodeID l" "ot_hash t = lo_hash l" "ot_node t = withDerivedStatus now n"
    by (rule orphan_task_row)
  have "lo_nodeID l \<in> holders db (lo_hash l)" using l by (auto simp: holders_iff)
  moreover have "(ni_id n, ni_address n) \<in> addr_book db" using n by (auto simp: addr_book_def)
  ultimately show ?thesis by (simp add: eq)
qed

lemma cleanup_loop_backed:
  assumes "calm e"
  shows "backed w \<Longrightarrow> (\<forall>t \<in> set ts. (ni_id (ot_node t), ni_address (ot_node t)) \<in> addr_book (w_db w) \<and> ot_hash t \<in> range hashData) \<Longrightarrow>
     cleanup_loop e ts w = (True, w') \<Longrightarrow> backed w'"
proof (induction ts arbitrary: w)
  case (Cons t ts)
  let ?n = "ot_node t"
  obtain r w1 where del: "send_deleteChunk e (ni_address ?n) (ot_hash t) w = (r, w1)" by fastforce
  show ?case
  proof (cases r)
    case (Inl err)
    have "backed w1" by (rule delete_failed_backed [OF Cons.prems(1) assms del [unfolded Inl]])
    moreover have "w_db w1 = w_db w" using send_db(2) [of e "ni_address ?n" "ot_hash t" w] del by simp
    ultimately show ?thesis using Cons.IH [of w1] Cons.prems(2,3) by (simp add: del Inl)
  next
    case (Inr u)
    obtain b w2 where rem: "removeLocation e (ot_hash t) (ni_id ?n) w1 = (b, w2)" by fastforce
    with Cons.prems(3) have b: "b" by (cases b) (simp_all add: del Inr)
    have "(ni_id ?n, ni_address ?n) \<in> addr_book (w_db w)" "ot_hash t \<in> range hashData" using Cons.prems(2) by simp_all
    note dr = delete_remove_backed [OF Cons.prems(1) this del]
    have "backed w2" "addr_book (w_db w2) = addr_book (w_db w)" using dr rem b by simp_all
    then show ?thesis using Cons.IH [of w2] Cons.prems(2,3) b by (simp add: del Inr rem)
  qed
qed simp

lemma prune_copies_backed:
  assumes "calm e" and "pt_hash t \<in> range hashData"
  shows "backed w \<Longrightarrow> known w ns \<Longrightarrow> prune_copies e t ns k w = (True, w') \<Longrightarrow>
     backed w' \<and> addr_book (w_db w') = addr_book (w_db w)"
proof (induction ns arbitrary: k w)
  case (Cons n ns)
  show ?case
  proof (cases "k \<ge> pt_extra t \<or> pt_active t - k \<le> pt_desired t")
    case True
    with Cons.prems show ?thesis by (auto split: if_splits)
  next
    case False
    obtain r w1 where del: "send_deleteChunk e (ni_address n) (pt_hash t) w = (r, w1)" by fastforce
    show ?thesis
    proof (cases r)
      case (Inl err)
      have "backed w1" by (rule delete_failed_backed [OF Cons.prems(1) assms(1) del [unfolded Inl]])
      moreover have "w_db w1 = w_db w" using send_db(2) [of e "ni_address n" "pt_hash t" w] del by simp
      ultimately show ?thesis using Cons.IH [of w1 k] Cons.prems(2,3) False by (simp add: del Inl)
    next
      case (Inr u)
      obtain b w2 where rem: "removeLocation e (pt_hash t) (ni_id n) w1 = (b, w2)" by fastforce
      with Cons.prems(3) False have b: "b" by (cases b) (simp_all add: del Inr)
      have "(ni_id n, ni_address n) \<in> addr_book (w_db w)" using Cons.prems(2) by simp
      note dr = delete_remove_backed [OF Cons.prems(1) this assms(2) del]
      have "backed w2" "addr_book (w_db w2) = addr_book (w_db w)" using dr rem b by simp_all
      then show ?thesis using Cons.IH [of w2 "k + 1"] Cons.prems(2,3) b False by (simp add: del Inr rem)
    qed
  qed
qed simp

lemma prune_loop_backed:
  assumes "calm e"
  shows "backed w \<Longrightarrow> (\<forall>t \<in> set ts. known w (pt_locations t) \<and> (pt_locations t \<noteq> [] \<longrightarrow> pt_hash t \<in> range hashData)) \<Longrightarrow>
     prune_loop e ts w = (True, w') \<Longrightarrow> backed w'"
proof (induction ts arbitrary: w)
  case (Cons t ts)
  show ?case
  proof (cases "pt_extra t \<le> 0")
    case True
    with Cons show ?thesis by simp
  next
    case False
    with Cons.prems(3) obtain w1 where p: "prune_copies e t (pt_locations t) 0 w = (True, w1)" "prune_loop e ts w1 = (True, w')"
      by (auto split: prod.splits bool.splits)
    have "backed w1 \<and> addr_book (w_db w1) = addr_book (w_db w)"
    proof (cases "pt_locations t = []")
      case True
      with p(1) Cons.prems(1) show ?thesis by simp
    next
      case False
      with Cons.prems(2) show ?thesis by (intro prune_copies_backed [OF assms _ Cons.prems(1) _ p(1)]) auto
    qed
    then show ?thesis using Cons.IH [OF _ _ p(2)] Cons.prems(2) by simp
  qed
qed simp

lemma copy_loop_backed:
  "world_inv w \<Longrightarrow> backed w \<Longrightarrow> known w ns \<Longrightarrow>
     backed (copy_loop e t d ns k w) \<and> addr_book (w_db (copy_loop e t d ns k w)) = addr_book (w_db w)"
proof (induction ns arbitrary: k w)
  case (Cons n ns)
  obtain r w1 where put: "send_putChunk e (ni_address n) (rt_hash t) d w = (r, w1)" by fastforce
  have inv1: "world_inv w1" using send_inv(1) [OF Cons.prems(1), of e "ni_address n" "rt_hash t" d] put by simp
  have b1: "backed w1" using send_put_backed [OF Cons.prems(1,2), of e "ni_address n" "rt_hash t" d] put by simp
  have db1: "w_db w1 = w_db w" using send_db(1) [of e "ni_address n" "rt_hash t" d w] put by simp
  show ?case
  proof (cases r)
    case (Inl err)
    with Cons.IH [OF inv1 b1] Cons.prems(2,3) show ?thesis by (simp add: put db1)
  next
    case (Inr u)
    obtain r' w2 where conf: "tell e (\<lambda>eng now. ConfirmChunk eng now (rt_hash t) (rt_size t) (ni_id n)) w1 = (r', w2)"
      by fastforce
    have "(ni_id n, ni_address n) \<in> addr_book (w_db w)" using Cons.prems(3) by simp
    note pc = put_confirm_backed [OF Cons.prems(1,2) put [unfolded Inr] this, of "rt_size t", unfolded conf snd_conv]
    have "db_wf (w_db w1)" using inv1 by (simp add: world_inv_def)
    then have inv2: "world_inv w2" by (intro tell_inv_eq [OF inv1 conf]) (simp add: ConfirmChunk_wf)
    have "known w2 ns" using Cons.prems(3) pc(2) by simp
    with Cons.IH [OF inv2 pc(1)] pc Cons.prems(2) show ?thesis
      by (cases r') (simp_all add: put Inr conf)
  qed
qed simp

lemma replicate_loop_backed:
  "world_inv w \<Longrightarrow> backed w \<Longrightarrow> (\<forall>t \<in> set ts. known w (rt_candidates t)) \<Longrightarrow> backed (replicate_loop e ts w)"
proof (induction ts arbitrary: w)
  case (Cons t ts)
  obtain r w1 where f: "fetchFromAny e (rt_sources t) (rt_hash t) w = (r, w1)" by fastforce
  have inv1: "world_inv w1" using fetchFromAny_inv [OF Cons.prems(1), of e "rt_sources t" "rt_hash t"] f by simp
  have w1: "w_db w1 = w_db w" "w_nodes w1 = w_nodes w"
    using fetchFrom_db [of e None "rt_sources t" "rt_hash t" w] fetchFrom_nodes [of e None "rt_sources t" "rt_hash t" w] f
    by (simp_all add: fetchFromAny_def del: fetchFrom_db fetchFrom_nodes)
  have b1: "backed w1" using Cons.prems(2) by (simp add: backed_def holds_def w1)
  have c: "backed (copy_loop e t d (rt_candidates t) 0 w1) \<and>
      addr_book (w_db (copy_loop e t d (rt_candidates t) 0 w1)) = addr_book (w_db w)" for d
    using copy_loop_backed [OF inv1 b1, of "rt_candidates t" e t d 0] Cons.prems(3) by (simp add: w1)
  show ?case
    using Cons.IH [of w] Cons.IH [of w1] Cons.IH [of "copy_loop e t d (rt_candidates t) 0 w1" for d] Cons.prems c inv1 b1
    by (simp add: f w1 copy_loop_inv split: sum.split)
qed simp

lemma set_PruneTasks:
  assumes "t \<in> set (PruneTasks eng now limit db)"
  obtains j where "pt_locations t = sort_by prune_less (onlineNodes (ChunkLocations (later j eng) now db (pt_hash t)))"
proof -
  obtain rows where "t \<in> set (prune_tasks eng 1 now db rows)"
    using assms by (auto simp: PruneTasks_def Let_def split: if_splits)
  then show ?thesis by (cases rule: prune_tasks_row) (use that in simp)
qed

lemma set_ReplicationTasks:
  assumes "t \<in> set (ReplicationTasks eng now limit db)"
  obtains j sz k where "rt_candidates t = PlanChunkSpread (later j eng) now db (rt_hash t) sz k (\<lambda>_. 0)"
proof -
  obtain rows where "t \<in> set (replication_tasks eng 1 now db rows)"
    using assms by (auto simp: ReplicationTasks_def Let_def split: if_splits)
  then show ?thesis by (cases rule: replication_tasks_row) (use that in simp)
qed

lemma runReplicationOnce_backed:
  assumes "world_inv w" "backed w" "calm e" and "runReplicationOnce e w = (True, w')"
  shows "backed w'"
proof -
  have range: "h \<in> range hashData" if "backed w1" "i \<in> holders (w_db w1) h" "(i, a) \<in> addr_book (w_db w1)" for w1 h i a
    using backed_hash that by blast
  obtain w1 where c: "cleanupOrphanChunks e w = (True, w1)"
    using assms(4) by (auto simp: runReplicationOnce_def split: prod.splits bool.splits)
  obtain w2 where p: "pruneExtraCopies e w1 = (True, w2)"
    using assms(4) c by (auto simp: runReplicationOnce_def split: prod.splits bool.splits)
  have w': "w' = replicateMissingCopies e w2" using assms(4) c p by (simp add: runReplicationOnce_def)
  have i1: "world_inv w1" using cleanup_loop_inv assms(1) c by (metis cleanupOrphanChunks_def ask_def case_prod_conv snd_conv world_inv_tick)
  have i2: "world_inv w2" using prune_loop_inv i1 p by (metis pruneExtraCopies_def ask_def case_prod_conv snd_conv world_inv_tick)
  have b1: "backed w1"
  proof (rule cleanup_loop_backed [OF assms(3), of "tick w"])
    show "cleanup_loop e (OrphanChunkTasks (ev_eng e (w_tick w)) (ev_now e (w_tick w)) 100 (w_db w)) (tick w) = (True, w1)"
      using c by (simp add: cleanupOrphanChunks_def ask_def)
    show "\<forall>t \<in> set (OrphanChunkTasks (ev_eng e (w_tick w)) (ev_now e (w_tick w)) 100 (w_db w)).
        (ni_id (ot_node t), ni_address (ot_node t)) \<in> addr_book (w_db (tick w)) \<and> ot_hash t \<in> range hashData"
    proof
      fix t assume "t \<in> set (OrphanChunkTasks (ev_eng e (w_tick w)) (ev_now e (w_tick w)) 100 (w_db w))"
      note k = orphan_known [OF this]
      with range [OF assms(2) k [THEN conjunct2] k [THEN conjunct1]]
      show "(ni_id (ot_node t), ni_address (ot_node t)) \<in> addr_book (w_db (tick w)) \<and> ot_hash t \<in> range hashData"
        by simp
    qed
  qed (use assms(2) in simp)
  have b2: "backed w2"
  proof (rule prune_loop_backed [OF assms(3), of "tick w1"])
    let ?ts = "PruneTasks (ev_eng e (w_tick w1)) (ev_now e (w_tick w1)) 100 (w_db w1)"
    show "prune_loop e ?ts (tick w1) = (True, w2)" using p by (simp add: pruneExtraCopies_def ask_def)
    show "\<forall>t \<in> set ?ts. known (tick w1) (pt_locations t) \<and> (pt_locations t \<noteq> [] \<longrightarrow> pt_hash t \<in> range hashData)"
    proof
      fix t assume "t \<in> set ?ts"
      then obtain j where j: "pt_locations t = sort_by prune_less
          (onlineNodes (ChunkLocations (later j (ev_eng e (w_tick w1))) (ev_now e (w_tick w1)) (w_db w1) (pt_hash t)))"
        by (rule set_PruneTasks)
      have "(ni_id n, ni_address n) \<in> addr_book (w_db w1) \<and> pt_hash t \<in> range hashData" if "n \<in> set (pt_locations t)" for n
      proof -
        from that have "n \<in> set (ChunkLocations (later j (ev_eng e (w_tick w1))) (ev_now e (w_tick w1)) (w_db w1) (pt_hash t))"
          unfolding j by (simp add: onlineNodes_def)
        note k = ChunkLocations_known [OF this]
        with range [OF b1 k(2,1)] show ?thesis by simp
      qed
      then show "known (tick w1) (pt_locations t) \<and> (pt_locations t \<noteq> [] \<longrightarrow> pt_hash t \<in> range hashData)"
        by (cases "pt_locations t") auto
    qed
  qed (use b1 in simp)
  show ?thesis unfolding w'
    by (auto simp: replicateMissingCopies_def ask_def i2 b2 intro!: replicate_loop_backed elim!: set_ReplicationTasks
        dest: PlanChunkSpread_known)
qed

end
