(* ===== verification/EndToEnd.thy ===== *)
theory EndToEnd
  imports Backing
begin

text \<open>
  Properties of whole requests, over the tables, the nodes and the network together: what a saved
  manifest promises, what a backup stores and what a download returns.
\<close>

subsection \<open>Saving a manifest\<close>

text \<open>Deleting the copies of unused chunks changes only the locations of those chunks and node rows.\<close>

definition same_manifests :: "Db \<Rightarrow> Db \<Rightarrow> bool" where
  "same_manifests db db' \<longleftrightarrow> db_files db' = db_files db \<and> db_fileChunks db' = db_fileChunks db"

lemma same_manifests_trans: "same_manifests a b \<Longrightarrow> same_manifests b c \<Longrightarrow> same_manifests a c"
  by (simp add: same_manifests_def)

lemma same_manifests_refl [simp]: "same_manifests a a"
  by (simp add: same_manifests_def)

lemma same_manifests_reads:
  assumes "same_manifests db db'"
  shows "FileByID eng db' fid = FileByID eng db fid" and "used_hashes db' = used_hashes db"
    and "file_hashes db' fid = file_hashes db fid"
proof -
  have "fileChunks eng' db' fid = fileChunks eng' db fid" for eng'
    using assms by (simp add: same_manifests_def fileChunks_def)
  with assms show "FileByID eng db' fid = FileByID eng db fid"
    by (simp add: same_manifests_def FileByID_def split: option.split)
  show "used_hashes db' = used_hashes db" "file_hashes db' fid = file_hashes db fid"
    using assms by (simp_all add: same_manifests_def used_hashes_def file_hashes_def)
qed

definition only_copies :: "string set \<Rightarrow> World \<Rightarrow> World \<Rightarrow> bool" where
  "only_copies hs w w' \<longleftrightarrow> same_manifests (w_db w) (w_db w') \<and> (\<forall>h. h \<notin> hs \<longrightarrow> holders (w_db w') h = holders (w_db w) h)"

lemma only_copies_trans: "only_copies hs a b \<Longrightarrow> only_copies hs b c \<Longrightarrow> only_copies hs a c"
  unfolding only_copies_def using same_manifests_trans by blast

lemma only_copies_refl [simp]: "only_copies hs w w"
  by (simp add: only_copies_def)

lemma remove_only: "h \<in> hs \<Longrightarrow> removeLocation e h n w = (b, w') \<Longrightarrow> only_copies hs w w'"
proof -
  assume h: "h \<in> hs" and r: "removeLocation e h n w = (b, w')"
  show ?thesis
  proof (cases "RemoveChunkLocation (ev_eng e (w_tick w)) h n (w_db w)")
    case None
    with r show ?thesis by (auto simp: removeLocation_def only_copies_def)
  next
    case (Some db')
    have "same_manifests (w_db w) db'"
      using Some by (cases rule: RemoveChunkLocation_cases) (simp add: same_manifests_def)
    with Some r h remove_facts(2) [OF Some] show ?thesis
      by (auto simp: removeLocation_def only_copies_def split: if_splits)
  qed
qed

lemma deleteCopies_only:
  "h \<in> hs \<Longrightarrow> only_copies hs w (snd (deleteCopies e h ns acc w))"
proof (induction ns arbitrary: acc w)
  case (Cons n ns)
  obtain k fs where acc: "acc = (k, fs)" by fastforce
  obtain r w1 where del: "send_deleteChunk e (ni_address n) h w = (r, w1)" by fastforce
  have o1: "only_copies hs w w1"
    using send_db(2) [of e "ni_address n" h w] del by (simp add: only_copies_def)
  show ?case
  proof (cases r)
    case (Inl err)
    with Cons.IH [OF Cons.prems, where w = w1] o1 show ?thesis
      by (auto simp: acc del intro: only_copies_trans)
  next
    case (Inr u)
    obtain b w2 where rem: "removeLocation e h (ni_id n) w1 = (b, w2)" by fastforce
    have o2: "only_copies hs w w2" using o1 remove_only [OF Cons.prems rem] by (rule only_copies_trans)
    with Cons.IH [OF Cons.prems, where w = w2] show ?thesis
      by (cases b) (auto simp: acc del Inr rem intro: only_copies_trans)
  qed
qed (metis deleteCopies.simps(1) only_copies_refl prod.collapse snd_conv)

lemma deleteHashes_only:
  "set hs \<subseteq> H \<Longrightarrow> only_copies H w (snd (deleteHashes e locs hs acc w))"
proof (induction hs arbitrary: acc w)
  case (Cons h hs)
  obtain r w1 where d: "deleteCopies e h (locs h) acc w = (r, w1)" by fastforce
  have "only_copies H w w1" using deleteCopies_only [of h H w e "locs h" acc] Cons.prems d by simp
  with Cons.IH [where w = w1] Cons.prems show ?case
    by (cases r) (auto simp: d intro: only_copies_trans)
qed simp

lemma deleteUnusedChunks_only: "only_copies (set hs) w (snd (deleteUnusedChunks e hs w))"
proof -
  have "only_copies (set hs) (tick w) (snd (deleteHashes e locs hs acc (tick w)))" for locs acc
    by (rule deleteHashes_only) simp
  then show ?thesis by (simp add: deleteUnusedChunks_def split_beta) (simp add: only_copies_def)
qed

lemma saveManifest_created:
  assumes "world_inv w" and "saveManifest e date uuid req w = (rs, w')" and "rs_status rs = StatusCreated"
    and "sorted_wrt (<) (map cr_index (cf_chunks req))"
  shows "\<exists>m ids. rs_body rs = RManifest (m\<lparr>fm_retentionDeleted := ids\<rparr>) \<and>
    FileByID (\<lambda>_. True) (w_db w') (fm_id m) = Some m \<and>
    fm_chunks m = cf_chunks req \<and> fm_size m = cf_size req \<and>
    (\<forall>h \<in> used_hashes (w_db w'). holders (w_db w') h = holders (w_db w) h)"
proof -
  have wf: "db_wf (w_db w)" using assms(1) by (simp add: world_inv_def)
  let ?eng = "ev_eng e (w_tick w)" and ?now = "ev_now e (w_tick w)"
  obtain r w1 where c: "tell e (\<lambda>eng now. CreateFile eng now date uuid req) w = (r, w1)" by fastforce
  with assms(2,3) obtain m where r: "r = Inr m" by (cases r) (auto simp: saveManifest_def)
  have create: "CreateFile ?eng ?now date uuid req (w_db w) = (Inr m, w_db w1)"
    using c by (auto simp: tell_def r split: prod.splits)
  have i1: "world_inv w1" by (rule tell_inv_eq [OF assms(1) c]) (simp add: CreateFile_wf wf)
  then have wf1: "db_wf (w_db w1)" by (simp add: world_inv_def)
  then have files1: "files_ok (w_db w1)" by (simp add: db_wf_def)
  obtain ds us w2 where a: "tell e (\<lambda>eng now. ApplyRetention eng (fm_backupName m) (fm_retention m)) w1 = ((ds, us), w2)"
    by (metis prod.exhaust)
  let ?eng1 = "ev_eng e (w_tick w1)"
  have appl: "ApplyRetention ?eng1 (fm_backupName m) (fm_retention m) (w_db w1) = ((ds, us), w_db w2)"
    using a by (auto simp: tell_def split: prod.splits)
  obtain dr w3 where d: "deleteUnusedChunks e us w2 = (dr, w3)" by fastforce
  with assms(2,3) obtain x where "dr = Some x" and w': "w' = w3"
      and body: "rs_body rs = RManifest (m\<lparr>fm_retentionDeleted := fileIDs ds\<rparr>)"
    by (cases dr) (auto simp: saveManifest_def c r a)
  have only: "only_copies (set us) w2 w'" using deleteUnusedChunks_only [of us w2 e] d w' by simp
  show ?thesis
    using create
  proof (cases rule: CreateFile_cases [of ?eng ?now date uuid req "w_db w"])
    case (created row m')
    then have m: "m' = m" and db1: "w_db w1 = (w_db w)\<lparr>db_files := db_files (w_db w) @ [row],
        db_fileChunks := db_fileChunks (w_db w) @ map (chunk_row (fr_id row)) (cf_chunks req)\<rparr>"
      using create by simp_all
    have ids: "fm_id m = fr_id row" "fm_backupName m = fr_backupName row" "fm_chunks m = cf_chunks req" "fm_size m = cf_size req"
      using created(2,10) m by (simp_all add: scanFile_def)
    have read1: "FileByID (\<lambda>_. True) (w_db w1) (fr_id row) = Some m"
      using CreateFile_FileByID [OF wf create assms(4), of "\<lambda>_. True"] unfolding ids(1) by simp
    have newest: "fr_id row \<notin> superseded (TrimSpace (fm_backupName m)) k (w_db w1)" if "0 < k" for k
    proof
      assume "fr_id row \<in> superseded (TrimSpace (fm_backupName m)) k (w_db w1)"
      then obtain r' where r': "r' \<in> set (db_files (w_db w1))" "fr_id r' = fr_id row" "fr_backupName r' = TrimSpace (fm_backupName m)"
        and k: "k \<le> card {r'' \<in> set (db_files (w_db w1)). fr_backupName r'' = TrimSpace (fm_backupName m) \<and> fr_version r' < fr_version r''}"
        by (auto simp: superseded_def)
      have "r' = row" using r'(1,2) created(4) by (auto simp: db1 notin_image)
      then have "{r'' \<in> set (db_files (w_db w1)). fr_backupName r'' = TrimSpace (fm_backupName m) \<and> fr_version r' < fr_version r''} = {}"
        using next_version_gt [of _ "w_db w"] created(6) r'(3) by (force simp: db1)
      with k that show False by simp
    qed
    have "FileByID (\<lambda>_. True) (w_db w2) (fr_id row) = Some m
        \<and> set us \<inter> used_hashes (w_db w2) = {} \<and> db_locations (w_db w2) = db_locations (w_db w1)"
      using files1
    proof (cases rule: ApplyRetention_cases [of _ ?eng1 "fm_backupName m" "fm_retention m"])
      case unchanged
      have "us = []" and "w_db w2 = w_db w1"
        using trans [OF appl [symmetric] unchanged] unfolding prod.inject by blast+
      with read1 show ?thesis by simp
    next
      case (dropped deleted unused)
      have eq: "us = unused" "w_db w2 = drop_files (superseded (TrimSpace (fm_backupName m)) (nat (fm_retention m)) (w_db w1)) (w_db w1)"
        using trans [OF appl [symmetric] dropped(1)] unfolding prod.inject by blast+
      have "FileByID (\<lambda>_. True) (w_db w2) (fr_id row) = Some m"
        unfolding eq(2) using newest [of "nat (fm_retention m)"] dropped(2) read1
        by (simp add: FileByID_drop_other ids)
      with dropped(6) eq show ?thesis by auto
    qed
    then have two: "FileByID (\<lambda>_. True) (w_db w2) (fr_id row) = Some m" "set us \<inter> used_hashes (w_db w2) = {}"
        "db_locations (w_db w2) = db_locations (w_db w)" by (simp_all add: db1)
    have man: "same_manifests (w_db w2) (w_db w')" using only by (simp add: only_copies_def)
    have "holders (w_db w') h = holders (w_db w) h" if "h \<in> used_hashes (w_db w')" for h
    proof -
      have "h \<notin> set us" using that two(2) same_manifests_reads(2) [OF man] by auto
      then have "holders (w_db w') h = holders (w_db w2) h" using only by (simp add: only_copies_def)
      then show ?thesis using two(3) by (simp add: holders_def)
    qed
    with body two(1) same_manifests_reads(1) [OF man] ids show ?thesis by auto
  qed simp
qed

text \<open>
  C11: what the answer 201 means. When \<^verbatim>\<open>CreateFile\<close>, retention and the cleanup after it have run
  and the client is told so, the manifest in the answer is in the tables, with every chunk as it
  was sent: retention does not delete the version it was triggered by. And the cleanup has
  touched no copy of any chunk that a manifest needs.
\<close>

theorem saved_manifest_survives:
  assumes "world_inv w" and "saveManifest e date uuid req w = (rs, w')" and "rs_status rs = StatusCreated"
    and "sorted_wrt (<) (map cr_index (cf_chunks req))"
  shows "\<exists>m ids. rs_body rs = RManifest (m\<lparr>fm_retentionDeleted := ids\<rparr>) \<and>
    FileByID (\<lambda>_. True) (w_db w') (fm_id m) = Some m \<and>
    fm_chunks m = cf_chunks req \<and> fm_size m = cf_size req \<and>
    (\<forall>h \<in> used_hashes (w_db w'). holders (w_db w') h = holders (w_db w) h)"
  by (rule saveManifest_created [OF assms])

subsection \<open>Undisturbed runs\<close>

text \<open>Every statement executed, every message delivered, every system call and client write done.\<close>

definition quiet :: "env \<Rightarrow> bool" where
  "quiet e \<longleftrightarrow> (\<forall>k i. ev_eng e k i) \<and> (\<forall>k. ev_net e k = Delivered) \<and> (\<forall>k i. io_ok (ev_io e k) i) \<and> (\<forall>k. ev_client e k)"

definition quiet_env :: "nanos \<Rightarrow> env" where
  "quiet_env now = \<lparr>ev_now = \<lambda>_. now, ev_eng = \<lambda>_ _. True, ev_net = \<lambda>_. Delivered,
     ev_io = \<lambda>_. healthy (\<lambda>_. 0), ev_client = \<lambda>_. True\<rparr>"

lemma quiet_env [simp]: "quiet (quiet_env now)"
  by (simp add: quiet_def quiet_env_def)

lemma removeLocation_quiet: "quiet e \<Longrightarrow> fst (removeLocation e h n w)"
  by (simp add: removeLocation_def RemoveChunkLocation_def quiet_def Let_def split: option.split)

lemma deleteCopies_quiet: "quiet e \<Longrightarrow> fst (deleteCopies e h ns acc w) \<noteq> None"
proof (induction ns arbitrary: acc w)
  case (Cons n ns)
  obtain k fs where "acc = (k, fs)" by fastforce
  with Cons removeLocation_quiet [OF Cons.prems] show ?case
    by (auto simp: split_beta split: sum.split prod.split)
qed (metis deleteCopies.simps(1) fst_conv option.distinct(1) prod.collapse)

lemma deleteHashes_quiet: "quiet e \<Longrightarrow> fst (deleteHashes e locs hs acc w) \<noteq> None"
proof (induction hs arbitrary: acc w)
  case (Cons h hs)
  with deleteCopies_quiet [OF Cons.prems, of h "locs h" acc w] show ?case
    by (auto simp: split_beta split: option.split)
qed simp

lemma saveManifest_quiet:
  assumes "quiet e" and "db_wf (w_db w)" and "distinct (map cr_index (cf_chunks req))"
    and "date @ ''-'' @ uuid \<notin> fr_id ` set (db_files (w_db w))"
  shows "rs_status (fst (saveManifest e date uuid req w)) = StatusCreated"
proof -
  have eng: "ev_eng e (w_tick w) i" for i using assms(1) by (simp add: quiet_def)
  obtain m where "fst (CreateFile (ev_eng e (w_tick w)) (ev_now e (w_tick w)) date uuid req (w_db w)) = Inr m"
    by (rule CreateFile_ok [where eng = "ev_eng e (w_tick w)", OF eng assms(2-)])
  then have "fst (tell e (\<lambda>eng now. CreateFile eng now date uuid req) w) = Inr m"
    by (simp add: tell_db)
  moreover have "fst (deleteUnusedChunks e us w') \<noteq> None" for us w'
    by (simp add: deleteUnusedChunks_def split_beta deleteHashes_quiet [OF assms(1)])
  ultimately show ?thesis
    by (simp add: saveManifest_def split_beta respond_def split: option.split)
qed

theorem saved_manifest_survives_witness:
  "let w = \<lparr>w_db = demo_db, w_nodes = (\<lambda>_. None), w_token = [], w_tick = 0\<rparr>;
       w' = snd (saveManifest (quiet_env 0) ''20260101'' ''u'' demo_request w)
   in \<exists>m. FileByID (\<lambda>_. True) (w_db w') (fm_id m) = Some m \<and> fm_chunks m = cf_chunks demo_request"
proof -
  let ?w = "\<lparr>w_db = demo_db, w_nodes = (\<lambda>_. None), w_token = [], w_tick = 0\<rparr> :: World"
  obtain rs w' where run: "saveManifest (quiet_env 0) ''20260101'' ''u'' demo_request ?w = (rs, w')"
    by fastforce
  have sorted: "sorted_wrt (<) (map cr_index (cf_chunks demo_request))"
    by (simp add: demo_request_def)
  have "rs_status rs = StatusCreated"
    using saveManifest_quiet [OF quiet_env, of ?w demo_request "''20260101''" "''u''" 0] demo_wf run
    by (simp add: demo_db_def demo_file_def demo_request_def)
  moreover have "world_inv ?w" using demo_wf by (simp add: world_inv_def)
  ultimately show ?thesis
    using saved_manifest_survives [OF _ run _ sorted] run by (auto simp: Let_def)
qed

end
