(* ===== verification/Downloads.thy ===== *)
theory Downloads
  imports EndToEnd
begin

text \<open>
  Downloads (\<^verbatim>\<open>downloadFile\<close> and \<^verbatim>\<open>fetchFromAny\<close> in \<^verbatim>\<open>internal/server/handlers.go\<close>): what the
  client receives under any failure, and that one good copy of each chunk is enough when
  nothing fails.
\<close>

subsection \<open>What a download sends\<close>

text \<open>
  Under any failure, what went out is a sequence of pieces whose hashes are those of the first
  chunks of the manifest; after them, if not all chunks were served, there may be an error text.
\<close>

lemma Write_cases:
  obtains (sent) "Write d wr = (True, snd (Write d wr))" "wr_body (snd (Write d wr)) = wr_body wr @ d"
  | (refused) "Write d wr = (False, snd (Write d wr))" "wr_body (snd (Write d wr)) = wr_body wr"
proof (cases "fst (Write d wr)")
  case True
  then have "wr_body (snd (Write d wr)) = wr_body wr @ d"
    by (auto simp: Write_def Let_def split: if_splits)
  with True sent show ?thesis by (metis prod.collapse)
next
  case False
  then have "wr_body (snd (Write d wr)) = wr_body wr"
    by (auto simp: Write_def Let_def split: if_splits)
  with False refused show ?thesis by (metis prod.collapse)
qed

lemma http_Error_body:
  "wr_body (http_Error msg code wr) = wr_body wr \<or>
     (\<exists>text. wr_body (http_Error msg code wr) = wr_body wr @ text_bytes (text @ [CHR 0x0A]))"
  by (auto simp: http_Error_def Write_def Let_def simp del: append.simps)

lemma Write_status: "wr_status (snd (Write d wr)) = (if wr_status wr = 0 then StatusOK else wr_status wr)"
  by (simp add: Write_def Let_def)

lemma http_Error_status: "wr_status (http_Error msg code wr) = (if wr_status wr = 0 then code else wr_status wr)"
  if "code \<noteq> 0"
  using that by (simp add: http_Error_def Write_status Let_def)

lemma sendChunks_sends:
  assumes "sendChunks e cs wr w = (wr', w')" and "wr_status wr = 0 \<longrightarrow> wr_body wr = []"
    and "wr_status wr \<noteq> 0 \<longrightarrow> wr_status wr = StatusOK"
  shows "\<exists>ds tail. wr_body wr' = wr_body wr @ concat ds @ tail \<and>
    map hashData ds = map cr_hash (take (length ds) cs) \<and> length ds \<le> length cs \<and>
    (wr_status wr \<noteq> 0 \<or> ds \<noteq> [] \<longrightarrow> wr_status wr' = StatusOK) \<and>
    (tail = [] \<or> length ds < length cs \<and> (\<exists>msg. tail = text_bytes (msg @ [CHR 0x0A])))"
  using assms
proof (induction cs arbitrary: wr w)
  case Nil
  then show ?case by (intro exI [of _ "[]"]) simp
next
  case (Cons c cs)
  have stop: ?case if "wr_body wr' = wr_body wr \<or> (\<exists>msg. wr_body wr' = wr_body wr @ text_bytes (msg @ [CHR 0x0A]))"
    and "wr_status wr \<noteq> 0 \<longrightarrow> wr_status wr' = StatusOK"
    using that(1)
  proof (elim disjE exE)
    assume "wr_body wr' = wr_body wr"
    with that(2) show ?thesis by (intro exI [of _ "[]"]) simp
  next
    fix msg assume "wr_body wr' = wr_body wr @ text_bytes (msg @ [CHR 0x0A])"
    with that(2) show ?thesis
      by (intro exI [of _ "[]"] exI [of _ "text_bytes (msg @ [CHR 0x0A])"]) auto
  qed
  obtain ns w1 where a: "ask e (\<lambda>eng now db. ChunkLocations eng now db (cr_hash c)) w = (ns, w1)" by fastforce
  obtain r w2 where f: "fetchFromAny e ns (cr_hash c) w1 = (r, w2)" by fastforce
  show ?case
  proof (cases r)
    case (Inl err)
    with Cons.prems(1) a f have "wr' = http_Error err StatusBadGateway wr" by simp
    then show ?thesis using http_Error_body [of err StatusBadGateway wr] Cons.prems(3) by (intro stop) (simp_all add: http_Error_status)
  next
    case (Inr d)
    show ?thesis
    proof (cases "hashData d = cr_hash c")
      case False
      with Cons.prems(1) a f Inr have "wr' = http_Error ''chunk hash mismatch'' StatusBadGateway wr" by simp
      then show ?thesis using http_Error_body [of "''chunk hash mismatch''" StatusBadGateway wr] Cons.prems(3)
        by (intro stop) (simp_all add: http_Error_status)
    next
      case True
      obtain ok wr1 where wr: "Write d wr = (ok, wr1)" by fastforce
      show ?thesis
      proof (cases "ok \<and> ev_client e (w_tick w2)")
        case go: True
        have st: "wr_status wr1 = StatusOK" using Write_status [of d wr] wr Cons.prems(3) by (simp split: if_splits)
        have b: "wr_body wr1 = wr_body wr @ d" using Write_cases [of d wr] wr go by auto
        have "sendChunks e cs wr1 (tick w2) = (wr', w')" using Cons.prems(1) a f Inr True wr go by simp
        then have "\<exists>ds tail. wr_body wr' = wr_body wr1 @ concat ds @ tail \<and>
            map hashData ds = map cr_hash (take (length ds) cs) \<and> length ds \<le> length cs \<and>
            (wr_status wr1 \<noteq> 0 \<or> ds \<noteq> [] \<longrightarrow> wr_status wr' = StatusOK) \<and>
            (tail = [] \<or> length ds < length cs \<and> (\<exists>msg. tail = text_bytes (msg @ [CHR 0x0A])))"
          by (rule Cons.IH) (simp_all add: st)
        then obtain ds tail where ds: "wr_body wr' = wr_body wr1 @ concat ds @ tail"
          "map hashData ds = map cr_hash (take (length ds) cs)" "length ds \<le> length cs"
          "wr_status wr1 \<noteq> 0 \<or> ds \<noteq> [] \<longrightarrow> wr_status wr' = StatusOK"
          "tail = [] \<or> length ds < length cs \<and> (\<exists>msg. tail = text_bytes (msg @ [CHR 0x0A]))"
          by blast
        show ?thesis
          by (rule exI [of _ "d # ds"], rule exI [of _ tail]) (use ds b True st in simp)
      next
        case halt: False
        have wr': "wr' = wr1" using Cons.prems(1) a f Inr True wr halt by (auto split: if_splits)
        have st: "wr_status wr1 = StatusOK" using Write_status [of d wr] wr Cons.prems(3) by (simp split: if_splits)
        show ?thesis
        proof (cases rule: Write_cases [of d wr])
          case sent
          with wr True st show ?thesis unfolding wr' by (intro exI [of _ "[d]"] exI [of _ "[]"]) simp
        next
          case refused
          with wr st show ?thesis unfolding wr' by (intro exI [of _ "[]"]) simp
        qed
      qed
    qed
  qed
qed

lemma sendChunks_db: "w_db (snd (sendChunks e cs wr w)) = w_db w"
  by (induction cs arbitrary: wr w) (simp_all add: split_beta Let_def fetchFromAny_def split: sum.split)

text \<open>
  C9: the integrity of a download. Whatever fails, the answer to a download is 404 with the
  manifest unknown, or its body consists of pieces that have, in order, the hashes of the first
  chunks of the manifest; only when chunks are missing from it can something else follow, a
  one-line error text. And an answer with a piece in it has status 200, complete or not.
\<close>

theorem download_integrity:
  assumes "downloadFile e r w = (rs, w')" and "fid = TrimSuffix (TrimPrefix (rq_path r) ''/files/'') ''/download''"
  shows "w_db w' = w_db w \<and>
    (case FileByID (ev_eng e (w_tick w)) (w_db w) fid of
       None \<Rightarrow> rs = respond StatusNotFound (RError ''file not found'')
     | Some m \<Rightarrow> \<exists>wr ds tail. rs_body rs = RDownload (fm_name m) wr \<and> wr_body wr = concat ds @ tail \<and>
         length ds \<le> length (fm_chunks m) \<and>
         map hashData ds = map cr_hash (take (length ds) (fm_chunks m)) \<and>
         (ds \<noteq> [] \<longrightarrow> rs_status rs = StatusOK) \<and>
         (tail = [] \<or> length ds < length (fm_chunks m) \<and> (\<exists>msg. tail = text_bytes (msg @ [CHR 0x0A]))))"
proof (cases "FileByID (ev_eng e (w_tick w)) (w_db w) fid")
  case None
  with assms show ?thesis by (auto simp: downloadFile_def ask_def Let_def)
next
  case (Some m)
  let ?blank = "\<lparr>wr_status = 0, wr_declared = fm_size m, wr_body = []\<rparr>"
  obtain wr w1 where s: "sendChunks e (fm_chunks m) ?blank (tick w) = (wr, w1)" by fastforce
  let ?wr = "if wr_status wr = 0 then wr\<lparr>wr_status := StatusOK\<rparr> else wr"
  have run: "rs = respond (wr_status ?wr) (RDownload (fm_name m) ?wr)" "w' = w1"
    using assms Some s by (auto simp: downloadFile_def ask_def Let_def)
  have body: "wr_body ?wr = wr_body wr" by simp
  from sendChunks_sends [OF s] obtain ds tail where "wr_body wr = concat ds @ tail"
    "map hashData ds = map cr_hash (take (length ds) (fm_chunks m))" "length ds \<le> length (fm_chunks m)"
    "ds \<noteq> [] \<longrightarrow> wr_status wr = StatusOK"
    "tail = [] \<or> length ds < length (fm_chunks m) \<and> (\<exists>msg. tail = text_bytes (msg @ [CHR 0x0A]))"
    by auto
  moreover have "w_db w1 = w_db w" using sendChunks_db [of e "fm_chunks m" ?blank "tick w"] s by simp
  ultimately show ?thesis unfolding run Some option.case respond_def Response.simps body server_reply.inject
    by (intro conjI exI [of _ ?wr] exI [of _ ds] exI [of _ tail]) simp_all
qed

subsection \<open>One good copy is enough\<close>

lemma Do_quiet:
  "quiet e \<Longrightarrow> Do e a rq w =
     (case w_nodes w a of None \<Rightarrow> (None, tick w)
      | Some n \<Rightarrow> (Some (fst (node_handler (ev_io e (w_tick w)) (RoundTrip (w_token w) rq) n), True),
          tick (w\<lparr>w_nodes := (w_nodes w)(a \<mapsto> snd (node_handler (ev_io e (w_tick w)) (RoundTrip (w_token w) rq) n))\<rparr>)))"
  by (simp add: Do_def quiet_def Let_def split: option.split)

lemma bearer_request [simp]: "rq_authorization (RoundTrip t r) = bearerPrefix @ t"
  by (simp add: RoundTrip_def)

lemma ValidBearer_own [simp]: "ValidBearer (bearerPrefix @ t) token \<longleftrightarrow> TrimSpace t = token"
  using ValidBearer_RoundTrip [of t undefined token] by simp

text \<open>
  A node that is up, expects the server's token and has the chunk; and a world in which the
  name of a chunk is nowhere the name of other content.
\<close>

definition serves :: "World \<Rightarrow> string \<Rightarrow> string \<Rightarrow> bool" where
  "serves w a h \<longleftrightarrow> (\<exists>n. w_nodes w a = Some n \<and> nd_token n = TrimSpace (w_token w) \<and> has_chunk n h)"

definition intact :: "World \<Rightarrow> bytes \<Rightarrow> bool" where
  "intact w d \<longleftrightarrow> (\<forall>a n d'. w_nodes w a = Some n \<longrightarrow> blob (nd_store n) (hashData d) = Some d' \<longrightarrow> d' = d)"

lemma same_nodes_cong:
  assumes "w_nodes w' = w_nodes w" and "w_token w' = w_token w"
  shows "serves w' a h = serves w a h" and "intact w' d = intact w d"
  using assms by (simp_all add: serves_def intact_def)

lemma get_quiet:
  assumes "quiet e" and "intact w d" and "fst (Do e a (node_request ''GET'' (''/chunks/'' @ hashData d) []) w) = Some (rs, ok)"
    and "rs_status rs < 300"
  shows "reply_bytes (rs_body rs) = d"
proof -
  let ?r = "node_request ''GET'' (''/chunks/'' @ hashData d) []"
  obtain n where n: "w_nodes w a = Some n"
    and rs: "rs = fst (node_handler (ev_io e (w_tick w)) (RoundTrip (w_token w) ?r) n)"
    using assms(3) by (auto simp: Do_quiet [OF assms(1)] split: option.splits)
  have h: "chunk_path_hash (''/chunks/'' @ hashData d) = hashData d" by (rule chunk_path_hash_simp) simp
  have ok: "io_ok (ev_io e (w_tick w)) k" for k using assms(1) by (simp add: quiet_def)
  have "HasPrefix (rq_path (RoundTrip (w_token w) ?r)) ''/chunks/''" by simp
  from node_handler_chunks(3) [OF this] rs assms(4) have
    "rs = fst (getChunk (ev_io e (w_tick w)) (RoundTrip (w_token w) ?r) n)"
    by (simp split: if_splits)
  with assms(4) ok obtain d' where "Open (ev_io e (w_tick w)) (nd_store n) (hashData d) = Inr d'" "rs_body rs = ChunkData d'"
    unfolding getChunk_def Let_def by (auto simp: h [simplified] split: sum.splits store_error.splits)
  with assms(2) n show ?thesis by (auto simp: intact_def reply_bytes_def dest: Open_blob)
qed

lemma get_serves:
  assumes "quiet e" and "serves w a h"
  shows "\<exists>rs. fst (Do e a (node_request ''GET'' (''/chunks/'' @ h) []) w) = Some (rs, True) \<and> rs_status rs < 300"
proof -
  let ?r = "node_request ''GET'' (''/chunks/'' @ h) []"
  obtain n d where n: "w_nodes w a = Some n" "nd_token n = TrimSpace (w_token w)" "blob (nd_store n) h = Some d"
    using assms(2) by (auto simp: serves_def has_chunk_def)
  have ok: "io_ok (ev_io e (w_tick w)) k" for k using assms(1) by (simp add: quiet_def)
  have "HasPrefix (rq_path (RoundTrip (w_token w) ?r)) ''/chunks/''" by simp
  from node_handler_chunks(3) [OF this] n(2) have
    "node_handler (ev_io e (w_tick w)) (RoundTrip (w_token w) ?r) n = getChunk (ev_io e (w_tick w)) (RoundTrip (w_token w) ?r) n"
    by simp
  moreover have "rs_status (fst (getChunk (ev_io e (w_tick w)) (RoundTrip (w_token w) ?r) n)) = 200"
    using blob_Open [OF n(3), of "ev_io e (w_tick w)"] ok chunk_path_hash_simp [of "''/chunks/'' @ h" h]
    by (simp add: getChunk_def Let_def)
  ultimately show ?thesis by (simp add: Do_quiet [OF assms(1)] n(1))
qed

lemma fetchFrom_quiet:
  assumes "quiet e" and "intact w d" and "\<exists>n \<in> set ns. serves w (ni_address n) (hashData d)"
  shows "fst (fetchFrom e err ns (hashData d) w) = Inr d"
  using assms(2,3)
proof (induction ns arbitrary: err w)
  case (Cons n ns)
  let ?r = "node_request ''GET'' (''/chunks/'' @ hashData d) []"
  obtain res w1 where do: "Do e (ni_address n) ?r w = (res, w1)" by fastforce
  have w1: "w_nodes w1 = w_nodes w" "w_token w1 = w_token w"
    using Do_get_nodes [of e "ni_address n" "hashData d" w] Do_db(2) [of e "ni_address n" ?r w] do by simp_all
  note same = same_nodes_cong [OF w1]
  show ?case
  proof (cases "\<exists>rs. res = Some (rs, True) \<and> rs_status rs < 300")
    case True
    with do get_quiet [OF assms(1) Cons.prems(1), of "ni_address n"] show ?thesis by auto
  next
    case False
    then have "\<not> serves w (ni_address n) (hashData d)"
      using get_serves [OF assms(1), of w "ni_address n" "hashData d"] do by auto
    then have "fst (fetchFrom e err' ns (hashData d) w1) = Inr d" for err'
      using Cons.IH [of w1 err'] Cons.prems same by auto
    with False do show ?thesis by (auto split: option.split)
  qed
qed simp

definition available :: "World \<Rightarrow> bytes \<Rightarrow> bool" where
  "available w d \<longleftrightarrow> intact w d \<and>
     (\<exists>i a. i \<in> holders (w_db w) (hashData d) \<and> (i, a) \<in> addr_book (w_db w) \<and> serves w a (hashData d))"

lemma available_cong:
  "w_nodes w' = w_nodes w \<Longrightarrow> w_token w' = w_token w \<Longrightarrow> w_db w' = w_db w \<Longrightarrow> available w' d = available w d"
  by (simp add: available_def serves_def intact_def)

lemma fetchFrom_token [simp]: "w_token (snd (fetchFrom e err ns h w)) = w_token w"
  by (induction ns arbitrary: err w) (simp_all add: split_beta world_simps split: option.split)

lemma fetchFromAny_available:
  assumes "quiet e" and "available w d" and "eng 0"
  shows "fst (fetchFromAny e (ChunkLocations eng now (w_db w) (hashData d)) (hashData d) (tick w)) = Inr d"
proof -
  obtain i a where i: "i \<in> holders (w_db w) (hashData d)" "(i, a) \<in> addr_book (w_db w)" "serves w a (hashData d)"
    using assms(2) by (auto simp: available_def)
  then obtain n where n: "n \<in> set (db_nodes (w_db w))" "ni_id n = i" "ni_address n = a"
    by (auto simp: addr_book_def)
  have "withDerivedStatus now n \<in> set (ChunkLocations eng now (w_db w) (hashData d))"
    using n i(1) by (auto simp: set_ChunkLocations [where eng = eng, OF assms(3)])
  then have "\<exists>n \<in> set (ChunkLocations eng now (w_db w) (hashData d)). serves (tick w) (ni_address n) (hashData d)"
    by (rule bexI [rotated]) (use i(3) n(3) in \<open>simp add: serves_def\<close>)
  moreover have "intact (tick w) d" using assms(2) by (simp add: available_def intact_def)
  ultimately show ?thesis unfolding fetchFromAny_def by (intro fetchFrom_quiet [OF assms(1)])
qed

lemma sendChunks_quiet:
  assumes "quiet e" and "map cr_hash cs = map hashData ds" and "\<forall>d \<in> set ds. available w d"
    and "int (length (wr_body wr) + length (concat ds)) \<le> wr_declared wr"
  shows "wr_body (fst (sendChunks e cs wr w)) = wr_body wr @ concat ds \<and>
    wr_status (fst (sendChunks e cs wr w)) = (if ds = [] \<or> wr_status wr \<noteq> 0 then wr_status wr else StatusOK)"
  using assms(2-)
proof (induction cs arbitrary: ds wr w)
  case (Cons c cs)
  then obtain d ds' where ds: "ds = d # ds'" "cr_hash c = hashData d" "map cr_hash cs = map hashData ds'" by auto
  let ?locs = "ChunkLocations (ev_eng e (w_tick w)) (ev_now e (w_tick w)) (w_db w) (hashData d)"
  obtain r w1 where f: "fetchFromAny e ?locs (hashData d) (tick w) = (r, w1)" by fastforce
  have r: "r = Inr d"
    using fetchFromAny_available [OF assms(1), of w d "ev_eng e (w_tick w)" "ev_now e (w_tick w)"]
      Cons.prems(2) f assms(1)
    by (simp add: ds quiet_def)
  have "w_nodes w1 = w_nodes w" "w_db w1 = w_db w" "w_token w1 = w_token w"
    using f fetchFrom_nodes [of e None ?locs "hashData d" "tick w"] fetchFrom_db [of e None ?locs "hashData d" "tick w"]
      fetchFrom_token [of e None ?locs "hashData d" "tick w"]
    by (simp_all add: fetchFromAny_def)
  then have "available (tick w1) d = available w d" for d by (intro available_cong) simp_all
  then have avail: "\<forall>d \<in> set ds'. available (tick w1) d" using Cons.prems(2) by (simp add: ds)
  let ?started = "wr\<lparr>wr_status := (if wr_status wr = 0 then StatusOK else wr_status wr)\<rparr>"
  let ?next = "?started\<lparr>wr_body := wr_body wr @ d\<rparr>"
  have started: "(if wr_status wr = 0 then wr\<lparr>wr_status := StatusOK\<rparr> else wr) = ?started" by simp
  have wr: "Write d wr = (True, ?next)"
    unfolding Write_def Let_def started using Cons.prems(3) by (simp add: ds)
  have "sendChunks e (c # cs) wr w = sendChunks e cs ?next (tick w1)"
    using f r wr assms(1) by (simp add: ask_def ds quiet_def)
  moreover have "int (length (wr_body ?next) + length (concat ds')) \<le> wr_declared ?next"
    using Cons.prems(3) by (simp add: ds)
  ultimately show ?case using Cons.IH [OF ds(3) avail] by (simp add: ds)
qed simp

lemma download_path: "TrimSuffix (TrimPrefix (''/files/'' @ fid @ ''/download'') ''/files/'') ''/download'' = fid"
  by (simp add: TrimPrefix_append [of "''/files/''", simplified] TrimSuffix_append [of _ "''/download''", simplified])

lemma downloadFile_available:
  assumes "quiet e" and "FileByID (\<lambda>_. True) (w_db w) fid = Some m"
    and "map cr_hash (fm_chunks m) = map hashData ds" and "fm_size m = int (length (concat ds))"
    and "\<forall>d \<in> set ds. available w d" and "rq_path r = ''/files/'' @ fid @ ''/download''"
  shows "\<exists>wr. fst (downloadFile e r w) = respond StatusOK (RDownload (fm_name m) wr) \<and> wr_body wr = concat ds"
proof -
  have eng: "ev_eng e (w_tick w) = (\<lambda>_. True)" using assms(1) by (auto simp: quiet_def)
  let ?blank = "\<lparr>wr_status = 0, wr_declared = fm_size m, wr_body = []\<rparr>"
  obtain wr w' where s: "sendChunks e (fm_chunks m) ?blank (tick w) = (wr, w')" by fastforce
  have "available (tick w) d = available w d" for d by (intro available_cong) simp_all
  then have "\<forall>d \<in> set ds. available (tick w) d" using assms(5) by simp
  from sendChunks_quiet [OF assms(1,3) this, of ?blank] s assms(4)
  have "wr_body wr = concat ds" "wr_status wr = 0 \<or> wr_status wr = StatusOK" by (auto split: if_splits)
  moreover have "downloadFile e r w = (respond StatusOK
      (RDownload (fm_name m) (if wr_status wr = 0 then wr\<lparr>wr_status := StatusOK\<rparr> else wr)), w')"
    if "wr_status wr = 0 \<or> wr_status wr = StatusOK"
    unfolding downloadFile_def assms(6) download_path Let_def ask_def eng assms(2) s
      option.case prod.case using that by auto
  ultimately show ?thesis by auto
qed


end
