(* ===== verification/Progress.thy ===== *)
theory Progress
  imports Downloads
begin

text \<open>
  Progress: when nothing fails, an upload to a cluster with enough nodes and room succeeds, and
  what was backed up can be downloaded again, byte for byte.
\<close>

subsection \<open>A cluster with room\<close>

text \<open>
  The clock stays within the 45 seconds in which a node that reported at second \<open>s\<close> is online.
  \<open>c i\<close> bytes of room on node \<open>i\<close>: in the tables, and on the node itself, where a chunk of \<open>n\<close>
  bytes takes at most \<open>29 n\<close> (28 bytes are added by the encryption).
\<close>

definition in_time :: "seconds \<Rightarrow> env \<Rightarrow> bool" where
  "in_time s e \<longleftrightarrow> quiet e \<and> (\<forall>k. s * 10 ^ 9 \<le> ev_now e k \<and> ev_now e k \<le> (s + 45) * 10 ^ 9)"

definition roomy :: "World \<Rightarrow> int \<Rightarrow> string \<Rightarrow> bool" where
  "roomy w c a \<longleftrightarrow> (\<exists>nd. w_nodes w a = Some nd \<and> nd_token nd = TrimSpace (w_token w) \<and>
     Used (nd_store nd) + 29 * c \<le> nd_capacity nd \<and> nd_capacity nd < 2 ^ 63)"

definition room :: "seconds \<Rightarrow> (string \<Rightarrow> int) \<Rightarrow> World \<Rightarrow> bool" where
  "room s c w \<longleftrightarrow>
     (\<forall>i i' a. (i, a) \<in> addr_book (w_db w) \<and> (i', a) \<in> addr_book (w_db w) \<longrightarrow> i = i') \<and>
     (\<forall>n \<in> set (db_nodes (w_db w)). s \<le> ni_lastSeen n \<and> c (ni_id n) \<le> ni_free n \<and> roomy w (c (ni_id n)) (ni_address n))"

lemma in_time_online:
  assumes "in_time s e" and "s \<le> ni_lastSeen n" and "ni_status n = ''online''"
  shows "ni_status (withDerivedStatus (ev_now e k) n) = ''online''" "alive (ev_now e k) n"
proof -
  have now: "s * 10 ^ 9 \<le> ev_now e k" "ev_now e k \<le> (s + 45) * 10 ^ 9" using assms(1) by (simp_all add: in_time_def)
  have "(ev_now e k - 45 * 10 ^ 9) div 10 ^ 9 \<le> (s * 10 ^ 9) div 10 ^ 9"
    by (rule zdiv_mono1) (use now in simp_all)
  then show "alive (ev_now e k) n" using assms(2)
    by (simp add: alive_def cutoff_def rfc3339_def nodeOfflineAfter_def)
  have "s * 10 ^ 9 \<le> ni_lastSeen n * 10 ^ 9" using assms(2) by simp
  with now(2) have "\<not> ev_now e k - ni_lastSeen n * 10 ^ 9 > 45 * 10 ^ 9" by (simp add: distrib_right)
  then show "ni_status (withDerivedStatus (ev_now e k) n) = ''online''" using assms(3)
    by (simp add: withDerivedStatus_def nodeOfflineAfter_def)
qed

lemma in_time_confirm: "in_time s e \<Longrightarrow> s \<le> rfc3339 (ev_now e k)"
proof -
  assume "in_time s e"
  then have "s * 10 ^ 9 \<le> ev_now e k" by (simp add: in_time_def)
  then have "(s * 10 ^ 9) div 10 ^ 9 \<le> ev_now e k div 10 ^ 9" by (rule zdiv_mono1) simp
  then show ?thesis by (simp add: rfc3339_def)
qed

lemma put_quiet:
  assumes "quiet e" and "world_inv w" and "roomy w c a" and "int (length d) \<le> c" and "0 < length d"
  obtains w1 nd nd1 where "send_putChunk e a (hashData d) d w = (Inr (), w1)" "w_db w1 = w_db w"
    "w_token w1 = w_token w" "w_nodes w a = Some nd" "w_nodes w1 = (w_nodes w)(a \<mapsto> nd1)"
    "nd_token nd1 = nd_token nd" "nd_capacity nd1 = nd_capacity nd"
    "Used (nd_store nd1) \<le> Used (nd_store nd) + 29 * int (length d)"
    "\<And>h. blob (nd_store nd1) h = (if digest h = digest (hashData d) then Some d else blob (nd_store nd) h)"
proof -
  let ?r = "node_request ''PUT'' (''/chunks/'' @ hashData d) d" and ?io = "ev_io e (w_tick w)"
  obtain nd where nd: "w_nodes w a = Some nd" "nd_token nd = TrimSpace (w_token w)"
    "Used (nd_store nd) + 29 * c \<le> nd_capacity nd" "nd_capacity nd < 2 ^ 63"
    using assms(3) by (auto simp: roomy_def)
  have inv: "store_inv (nd_store nd)" using assms(2) nd(1) by (auto simp: world_inv_def node_inv_def)
  have used: "0 \<le> Used (nd_store nd)" using store_inv_used [OF inv] by (simp add: Used_def)
  have fits: "\<not> nd_capacity nd < wrap64 (Used (nd_store nd) + int (length d))"
  proof -
    have "Used (nd_store nd) + int (length d) \<le> nd_capacity nd" using nd(3) assms(4,5) by linarith
    moreover have "wrap64 (Used (nd_store nd) + int (length d)) = Used (nd_store nd) + int (length d)"
      using calculation nd(4) used by (intro wrap64_id) (simp add: int64_def)
    ultimately show ?thesis by simp
  qed
  have ok: "io_ok ?io k" for k using assms(1) by (simp add: quiet_def)
  obtain s' where put: "Put ?io (nd_store nd) (hashData d) \<lparr>rd_bytes = d, rd_end = EOF\<rparr> = (Inr (int (length d)), s')"
    using Put_accepts [of ?io "nd_store nd" d] ok by blast
  have path: "chunk_path_hash (rq_path (RoundTrip (w_token w) ?r)) = hashData d"
    by (rule chunk_path_hash_simp) simp
  have body: "rq_body (RoundTrip (w_token w) ?r) = \<lparr>nb_contentLength = int (length d), nb_reader = \<lparr>rd_bytes = d, rd_end = EOF\<rparr>\<rparr>"
    by (simp add: RoundTrip_def node_request_def)
  have "HasPrefix (rq_path (RoundTrip (w_token w) ?r)) ''/chunks/''" by simp
  from node_handler_chunks(1) [OF this] nd(2)
  have "node_handler ?io (RoundTrip (w_token w) ?r) nd = putChunk ?io (RoundTrip (w_token w) ?r) nd" by simp
  also have "\<dots> = (respond StatusCreated (ChunkStored (hashData d) (int (length d))), nd\<lparr>nd_store := s'\<rparr>)"
    unfolding putChunk_def Let_def path body using fits put by simp
  finally have run: "Do e a ?r w = (Some (respond StatusCreated (ChunkStored (hashData d) (int (length d))), True),
      tick (w\<lparr>w_nodes := (w_nodes w)(a \<mapsto> nd\<lparr>nd_store := s'\<rparr>)\<rparr>))"
    by (simp add: Do_quiet [OF assms(1)] nd(1))
  have ok: "store_ok (nd_store nd)" using inv by (simp add: store_inv_def)
  obtain p x where p: "Path (nd_store nd) (hashData d) = Inr p"
    "length x = length d + overhead (nd_store nd)" "s' = put_effect (nd_store nd) p x d"
  proof (rule Put_Inr [OF put ok])
    fix p x
    assume "Path (nd_store nd) (hashData d) = Inr p"
      "length x = length (rd_bytes \<lparr>rd_bytes = d, rd_end = EOF\<rparr>) + overhead (nd_store nd)"
      "s' = put_effect (nd_store nd) p x (rd_bytes \<lparr>rd_bytes = d, rd_end = EOF\<rparr>)"
    then show ?thesis by (intro that [of p x]) simp_all
  qed
  have "0 \<le> fileSize (st_files (nd_store nd)) p" by (simp add: fileSize_def split: option.split)
  moreover have "int (overhead (nd_store nd)) \<le> 28 * int (length d)"
    using assms(5) by (simp add: overhead_def Suc_le_eq)
  ultimately have "Used s' \<le> Used (nd_store nd) + 29 * int (length d)"
    using put_effect_fields(5) [OF inv p(1), of x] p(2,3) by (simp add: Used_def)
  with run nd(1) Put_blob [OF inv put] show ?thesis
    by (intro that [of "tick (w\<lparr>w_nodes := (w_nodes w)(a \<mapsto> nd\<lparr>nd_store := s'\<rparr>)\<rparr>)" nd "nd\<lparr>nd_store := s'\<rparr>"])
      (simp_all add: send_putChunk_def)
qed

lemma confirm_quiet:
  assumes "\<And>i. eng i" and "\<exists>n \<in> set (db_nodes db). ni_id n = nid" and "0 \<le> sz"
  shows "fst (ConfirmChunk eng now h sz nid db) = Inr ()"
    and "n' \<in> set (db_nodes (snd (ConfirmChunk eng now h sz nid db))) \<Longrightarrow>
      \<exists>n \<in> set (db_nodes db). ni_id n' = ni_id n \<and> ni_address n' = ni_address n \<and>
        (ni_lastSeen n' = ni_lastSeen n \<or> ni_lastSeen n' = rfc3339 now) \<and>
        (if ni_id n = nid then ni_free n - sz else ni_free n) \<le> ni_free n'"
  using assms by (auto simp: ConfirmChunk_def Let_def take_space_def split: if_splits)

lemma roomy_mono: "roomy w c a \<Longrightarrow> c' \<le> c \<Longrightarrow> roomy w c' a"
  by (auto simp: roomy_def)

text \<open>Storing one copy and confirming it.\<close>

lemma copy_quiet:
  assumes "in_time s e" and "world_inv w" and "room s c w" and n: "(i, a) \<in> addr_book (w_db w)"
    and "int (length d) \<le> c i" and "0 < length d"
  obtains w1 w2 where "send_putChunk e a (hashData d) d w = (Inr (), w1)"
    "tell e (\<lambda>eng now. ConfirmChunk eng now (hashData d) (int (length d)) i) w1 = (Inr (), w2)"
    "room s (c(i := c i - int (length d))) w2" "addr_book (w_db w2) = addr_book (w_db w)" "w_token w2 = w_token w"
proof -
  have q: "quiet e" using assms(1) by (simp add: in_time_def)
  obtain m where m: "m \<in> set (db_nodes (w_db w))" "ni_id m = i" "ni_address m = a"
    using n by (auto simp: addr_book_def)
  then have "roomy w (c i) a" using assms(3) unfolding room_def by blast
  then show ?thesis
  proof (rule put_quiet [OF q assms(2) _ assms(5,6)])
  fix w1 nd nd1
  assume put: "send_putChunk e a (hashData d) d w = (Inr (), w1)" and db1: "w_db w1 = w_db w"
    and tok: "w_token w1 = w_token w" and nd: "w_nodes w a = Some nd" and nodes1: "w_nodes w1 = (w_nodes w)(a \<mapsto> nd1)"
    and nd1: "nd_token nd1 = nd_token nd" "nd_capacity nd1 = nd_capacity nd"
      "Used (nd_store nd1) \<le> Used (nd_store nd) + 29 * int (length d)"
  let ?eng = "ev_eng e (w_tick w1)" and ?now = "ev_now e (w_tick w1)"
  have eng: "?eng k" for k using q by (simp add: quiet_def)
  have known: "\<exists>n \<in> set (db_nodes (w_db w)). ni_id n = i" using n by (auto simp: addr_book_def)
  obtain r w2 where conf: "tell e (\<lambda>eng now. ConfirmChunk eng now (hashData d) (int (length d)) i) w1 = (r, w2)" by fastforce
  note cq = confirm_quiet [where eng = ?eng and sz = "int (length d)", OF eng known of_nat_0_le_iff]
  have r: "r = Inr ()" using conf cq(1) tell_db(2) [of e "\<lambda>eng now. ConfirmChunk eng now (hashData d) (int (length d)) i" w1]
    by (simp add: db1)
  have db2: "w_db w2 = snd (ConfirmChunk ?eng ?now (hashData d) (int (length d)) i (w_db w))"
    using conf tell_db(1) [of e "\<lambda>eng now. ConfirmChunk eng now (hashData d) (int (length d)) i" w1]
    by (simp add: db1)
  have w2: "w_nodes w2 = w_nodes w1" "w_token w2 = w_token w"
    using conf tell_world [of e "\<lambda>eng now. ConfirmChunk eng now (hashData d) (int (length d)) i" w1] tok by simp_all
  have book: "addr_book (w_db w2) = addr_book (w_db w)" by (simp add: db2 world_simps)
  have uniq: "(i, a) \<in> addr_book (w_db w) \<Longrightarrow> (i', a) \<in> addr_book (w_db w) \<Longrightarrow> i = i'" for i i' a
    using assms(3) by (simp add: room_def) blast
  let ?c = "c(i := c i - int (length d))"
  have "s \<le> ni_lastSeen m \<and> ?c (ni_id m) \<le> ni_free m \<and> roomy w2 (?c (ni_id m)) (ni_address m)"
    if m: "m \<in> set (db_nodes (w_db w2))" for m
  proof -
    obtain n where n': "n \<in> set (db_nodes (w_db w))" "ni_id m = ni_id n" "ni_address m = ni_address n"
      "ni_lastSeen m = ni_lastSeen n \<or> ni_lastSeen m = rfc3339 ?now"
      "(if ni_id n = i then ni_free n - int (length d) else ni_free n) \<le> ni_free m"
      using cq(2) m unfolding db2 by blast
    have old: "s \<le> ni_lastSeen n" "c (ni_id n) \<le> ni_free n" "roomy w (c (ni_id n)) (ni_address n)"
      using assms(3) n'(1) by (simp_all add: room_def)
    have here: "(ni_id n, ni_address n) \<in> addr_book (w_db w)" using n'(1) by (simp add: addr_book_def)
    have "roomy w2 (?c (ni_id n)) (ni_address n)"
    proof (cases "ni_address n = a")
      case True
      have "ni_id n = i" by (rule uniq [OF _ n]) (use here True in simp)
      moreover have "\<exists>nd. w_nodes w (ni_address n) = Some nd \<and> nd_token nd = TrimSpace (w_token w) \<and>
          Used (nd_store nd) + 29 * c (ni_id n) \<le> nd_capacity nd \<and> nd_capacity nd < 2 ^ 63"
        using old(3) by (simp add: roomy_def)
      ultimately show ?thesis using True nd nd1 by (simp add: roomy_def w2 nodes1)
    next
      case False
      have "keys_ok (w_db w)" using assms(2) by (simp add: world_inv_def db_wf_def)
      then have "ni_id n \<noteq> i" using addr_book_unique [OF _ n, of "ni_address n"] here False by auto
      with False old(3) show ?thesis by (simp add: roomy_def w2 nodes1)
    qed
    moreover have "s \<le> ni_lastSeen m" using n'(4) old(1) in_time_confirm [OF assms(1), of "w_tick w1"] by auto
    ultimately show ?thesis using n'(2,3,5) old(2) by (simp split: if_splits)
  qed
  then have "room s ?c w2" using assms(3) unfolding room_def book by blast
  with put conf r book w2(2) show ?thesis by (intro that [of w1 w2]) simp_all
  qed
qed

lemma copy_inv:
  "world_inv w \<Longrightarrow> send_putChunk e a h d w = (r, w1) \<Longrightarrow>
     tell e (\<lambda>eng now. ConfirmChunk eng now h sz i) w1 = (r', w2) \<Longrightarrow> world_inv w2"
proof -
  assume w: "world_inv w" and p: "send_putChunk e a h d w = (r, w1)"
    and c: "tell e (\<lambda>eng now. ConfirmChunk eng now h sz i) w1 = (r', w2)"
  have "world_inv w1" using send_inv(1) [OF w, of e a h d] p by simp
  then show ?thesis by (rule tell_inv_eq [OF _ c]) (simp add: ConfirmChunk_wf \<open>world_inv w1\<close> [unfolded world_inv_def])
qed

lemma room_mono: "room s c w \<Longrightarrow> (\<And>i. c' i \<le> c i) \<Longrightarrow> room s c' w"
  unfolding room_def using roomy_mono by (meson order_trans)

lemma uploadCopies_quiet:
  assumes "in_time s e" and "world_inv w" and "room s c w" and "known w ns" and "distinct (map ni_id ns)"
    and "\<forall>n \<in> set ns. int (length d) \<le> c (ni_id n)" and "0 < length d"
  shows "\<exists>counts' w'. uploadCopies e (hashData d) d ns counts w = (Inr counts', w') \<and>
    room s (\<lambda>i. if i \<in> ni_id ` set ns then c i - int (length d) else c i) w' \<and>
    addr_book (w_db w') = addr_book (w_db w) \<and> w_token w' = w_token w"
  using assms(2-6)
proof (induction ns arbitrary: c counts w)
  case (Cons n ns)
  have n: "(ni_id n, ni_address n) \<in> addr_book (w_db w)" "int (length d) \<le> c (ni_id n)" using Cons.prems by simp_all
  show ?case
  proof (rule copy_quiet [OF assms(1) Cons.prems(1,2) n assms(7)])
    fix w1 w2
    assume put: "send_putChunk e (ni_address n) (hashData d) d w = (Inr (), w1)"
      and conf: "tell e (\<lambda>eng now. ConfirmChunk eng now (hashData d) (int (length d)) (ni_id n)) w1 = (Inr (), w2)"
      and room: "room s (c(ni_id n := c (ni_id n) - int (length d))) w2"
      and book: "addr_book (w_db w2) = addr_book (w_db w)" and tok: "w_token w2 = w_token w"
    let ?c = "c(ni_id n := c (ni_id n) - int (length d))" and ?counts = "counts(ni_id n := counts (ni_id n) + 1)"
    have new: "ni_id n \<notin> ni_id ` set ns" using Cons.prems(4) by simp
    have fits: "\<forall>m \<in> set ns. int (length d) \<le> ?c (ni_id m)"
      using Cons.prems(5) new by (auto simp: image_iff)
    have kn: "known w2 ns" using Cons.prems(3) by (simp add: book)
    have dist: "distinct (map ni_id ns)" using Cons.prems(4) by simp
    from Cons.IH [OF copy_inv [OF Cons.prems(1) put conf] room kn dist fits, of ?counts]
    obtain counts' w' where run: "uploadCopies e (hashData d) d ns ?counts w2 = (Inr counts', w')"
      and room': "room s (\<lambda>i. if i \<in> ni_id ` set ns then ?c i - int (length d) else ?c i) w'"
      and rest: "addr_book (w_db w') = addr_book (w_db w2)" "w_token w' = w_token w2"
      by blast
    have "room s (\<lambda>i. if i \<in> ni_id ` set (n # ns) then c i - int (length d) else c i) w'"
      by (rule room_mono [OF room']) (use new in auto)
    moreover have "uploadCopies e (hashData d) d (n # ns) counts w = (Inr counts', w')"
      using put conf run by simp
    ultimately show ?case using rest book tok by (intro exI [of _ counts'] exI [of _ w']) simp
  qed
qed simp

subsection \<open>An upload to a cluster with room succeeds\<close>

definition table_size :: "World \<Rightarrow> int" where
  "table_size w = int (card (fst ` addr_book (w_db w)))"

lemma table_size: "fst ` addr_book db = ni_id ` set (db_nodes db)"
  by (simp add: addr_book_def image_image)

lemma online_holders_all:
  assumes "in_time s e" and "world_inv w" and "room s c w" and "ev_eng e k 0"
  shows "onlineCount (ChunkLocations (ev_eng e k) (ev_now e j) (w_db w) h) = int (card (holders (w_db w) h))"
proof -
  let ?locs = "ChunkLocations (ev_eng e k) (ev_now e j) (w_db w) h"
  have wf: "db_wf (w_db w)" using assms(2) by (simp add: world_inv_def)
  have "ni_status (withDerivedStatus (ev_now e j) n) = ''online''" if "n \<in> set (db_nodes (w_db w))" for n
    by (rule in_time_online [OF assms(1)]) (use assms(3) wf that in \<open>simp_all add: room_def db_wf_def nodes_ok_def\<close>)
  then have "\<forall>n \<in> set ?locs. ni_status n = ''online''"
    by (auto simp: set_ChunkLocations [where eng = "ev_eng e k", OF assms(4)])
  then have all: "filter (\<lambda>n. ni_status n = ''online'') ?locs = ?locs" by (simp add: filter_id_conv)
  have "ni_id ` set ?locs = holders (w_db w) h"
    using wf by (force simp: set_ChunkLocations [where eng = "ev_eng e k", OF assms(4)] image_iff holders_def wf_defs)
  then show ?thesis using onlineCount_card [of "w_db w" "ev_eng e k" "ev_now e j" h] wf
    by (simp add: all db_wf_def)
qed

lemma plan_enough:
  assumes "in_time s e" and "world_inv w" and "room s (\<lambda>_. c) w" and "ev_eng e k 0"
    and "r \<le> table_size w" and "m = r - int (card (holders (w_db w) h))" and "0 < m" and "sz \<le> c"
  shows "int (length (PlanChunkSpread (ev_eng e k) (ev_now e j) (w_db w) h sz m counts)) = m"
proof -
  let ?now = "ev_now e j" and ?ids = "ni_id ` set (db_nodes (w_db w))"
  have wf: "db_wf (w_db w)" using assms(2) by (simp add: world_inv_def)
  have el: "plan_eligible ?now (w_db w) h sz n \<longleftrightarrow> ni_id n \<notin> holders (w_db w) h" if n: "n \<in> set (db_nodes (w_db w))" for n
  proof -
    have "alive ?now n"
      by (rule in_time_online(2) [OF assms(1)]) (use assms(3) wf n in \<open>simp_all add: room_def db_wf_def nodes_ok_def\<close>)
    moreover have "sz \<le> ni_free n" using assms(3,8) n by (force simp: room_def)
    ultimately show ?thesis by (simp add: plan_eligible_def alive_def holders_def)
  qed
  have dist: "distinct (map ni_id (db_nodes (w_db w)))" using wf by (simp add: wf_defs)
  let ?fit = "filter (\<lambda>n. ni_id n \<notin> holders (w_db w) h) (db_nodes (w_db w))"
  have "filter (plan_eligible ?now (w_db w) h sz) (db_nodes (w_db w)) = ?fit"
    by (rule filter_cong) (simp_all add: el)
  moreover have "length ?fit = card (ni_id ` set ?fit)"
    using distinct_card [OF distinct_map_filter [OF dist]] by simp
  moreover have "ni_id ` set ?fit = ?ids - holders (w_db w) h" by auto
  moreover have "holders (w_db w) h \<subseteq> ?ids" using wf by (auto simp: holders_def wf_defs)
  then have "int (card (?ids - holders (w_db w) h)) = table_size w - int (card (holders (w_db w) h))"
    by (simp add: card_Diff_subset table_size_def table_size card_mono of_nat_diff)
  ultimately have "int (length (filter (plan_eligible ?now (w_db w) h sz) (db_nodes (w_db w)))) =
      table_size w - int (card (holders (w_db w) h))" by simp
  then show ?thesis using assms(5-7)
    by (simp add: length_PlanChunkSpread [where eng = "ev_eng e k", OF assms(4)] normalizedReplication_def)
qed

lemma uploadChunk_quiet:
  assumes "in_time s e" and "world_inv w" and "room s (\<lambda>_. c) w" and "up_replication up \<le> table_size w"
    and "int (length d) \<le> c" and "0 < length d"
  shows "\<exists>up' w'. uploadChunk e up d rest w = (Inr up', w') \<and> room s (\<lambda>_. c - int (length d)) w' \<and>
    table_size w' = table_size w \<and> w_token w' = w_token w"
proof -
  have eng: "ev_eng e k i" for k i using assms(1) by (simp add: in_time_def quiet_def)
  define w0 where "w0 = (if hashData d \<in> set (up_seenHashes up) then w else tick w)"
  have w0: "w_db w0 = w_db w" "w_nodes w0 = w_nodes w" "w_token w0 = w_token w" by (simp_all add: w0_def)
  define look where "look = (if hashData d \<in> set (up_seenHashes up) then (True, w)
      else ask e (\<lambda>eng now db. ChunkInUse eng db (hashData d)) w)"
  have look: "snd look = w0" by (simp add: w0_def look_def)
  let ?h = "hashData d" and ?n = "int (length d)"
  define locs where "locs = ChunkLocations (ev_eng e (w_tick w0)) (ev_now e (w_tick w0)) (w_db w) ?h"
  define k where "k = up_replication up - onlineCount locs"
  define ns where "ns = PlanChunkSpread (ev_eng e (Suc (w_tick w0))) (ev_now e (Suc (w_tick w0))) (w_db w)
      ?h ?n k (up_selectedCounts up)"
  let ?w2 = "tick (tick w0)"
  have same: "room s c' w'' = room s c' w" "world_inv w'' = world_inv w" "addr_book (w_db w'') = addr_book (w_db w)"
    if "w_db w'' = w_db w" "w_nodes w'' = w_nodes w" "w_token w'' = w_token w" for c' w''
    using that by (simp_all add: room_def roomy_def world_inv_def)
  have on: "onlineCount locs = int (card (holders (w_db w) ?h))"
    unfolding locs_def by (rule online_holders_all [OF assms(1-3) eng])
  show ?thesis
  proof (cases "0 < k")
    case False
    then have "\<exists>up'. uploadChunk e up d rest w = (Inr up', tick w0)"
      unfolding uploadChunk_def Let_def split_beta look_def [symmetric] look
      by (cases "fst look") (simp_all add: ask_def w0 locs_def [symmetric] k_def)
    then obtain up' where "uploadChunk e up d rest w = (Inr up', tick w0)" by blast
    moreover have "room s (\<lambda>_. c - ?n) w" by (rule room_mono [OF assms(3)]) simp
    ultimately show ?thesis using same(1) [of "tick w0" "\<lambda>_. c - ?n"] w0
      by (intro exI [of _ up'] exI [of _ "tick w0"]) (simp add: table_size_def)
  next
    case True
    have len: "int (length ns) = k" unfolding ns_def
      by (rule plan_enough [OF assms(1-3) eng assms(4) _ True assms(5)]) (simp add: k_def on)
    have "known ?w2 ns" unfolding ns_def using PlanChunkSpread_known by (fastforce simp: w0)
    moreover have "distinct (map ni_id ns)"
      unfolding ns_def by (rule distinct_PlanChunkSpread) (use assms(2) in \<open>simp add: world_inv_def db_wf_def\<close>)
    ultimately obtain counts' w' where run: "uploadCopies e ?h d ns (up_selectedCounts up) ?w2 = (Inr counts', w')"
      and room: "room s (\<lambda>i. if i \<in> ni_id ` set ns then c - ?n else c) w'"
      and rest': "addr_book (w_db w') = addr_book (w_db ?w2)" "w_token w' = w_token ?w2"
      using uploadCopies_quiet [OF assms(1), of ?w2 "\<lambda>_. c" ns d "up_selectedCounts up"] assms(2,3,5,6)
        same [of ?w2] w0 by auto
    have "room s (\<lambda>_. c - ?n) w'" by (rule room_mono [OF room]) simp
    moreover have "\<exists>up'. uploadChunk e up d rest w = (Inr up', w')"
      unfolding uploadChunk_def Let_def split_beta look_def [symmetric] look
      using True len by (cases "fst look") (simp_all add: ask_def w0 locs_def [symmetric] k_def [symmetric] ns_def [symmetric] run)
    ultimately show ?thesis using rest' w0 by (auto simp: table_size_def)
  qed
qed

lemma uploadLoop_quiet:
  assumes "in_time s e" and "world_inv w" and "room s (\<lambda>_. int (length (rd_bytes (up_reader up)))) w"
    and "rd_end (up_reader up) = EOF" and "up_replication up \<le> table_size w"
  shows "\<exists>up' w'. uploadLoop e up w = (Uploaded up', w')"
  using assms(2-)
proof (induction "length (rd_bytes (up_reader up))" arbitrary: up w rule: less_induct)
  case less
  show ?case
  proof (cases "readContentDefinedChunk (up_reader up) (up_chunkSize up)")
    case EndOfFile
    then show ?thesis by (subst uploadLoop.simps) (simp add: uploadStep_def)
  next
    case (ReadFailed err)
    with read_ReadFailed [OF ReadFailed] less.prems(3) show ?thesis by simp
  next
    case (Chunk d rest)
    note rd = read_Chunk(1-3) [OF Chunk]
    have len: "int (length d) \<le> int (length (rd_bytes (up_reader up)))" "0 < length d" using rd by simp_all
    from uploadChunk_quiet [OF assms(1) less.prems(1,2,4) this, of rest] obtain up1 w1 where
      run: "uploadChunk e up d rest w = (Inr up1, w1)"
      and room: "room s (\<lambda>_. int (length (rd_bytes (up_reader up))) - int (length d)) w1"
      and size: "table_size w1 = table_size w" by blast
    note f = uploadChunk_fields [OF run]
    have "world_inv w1" using uploadChunk_inv [OF less.prems(1), of e up d rest] run by simp
    moreover have "room s (\<lambda>_. int (length (rd_bytes (up_reader up1)))) w1"
      by (rule room_mono [OF room]) (simp add: f rd)
    moreover have "length (rd_bytes (up_reader up1)) < length (rd_bytes (up_reader up))" using f rd by simp
    ultimately obtain up' w' where "uploadLoop e up1 w1 = (Uploaded up', w')"
      using less.hyps [of up1 w1] less.prems(3,4) f rd size by auto
    then show ?thesis by (subst uploadLoop.simps) (simp add: uploadStep_def Chunk run)
  qed
qed

lemma ConfirmChunk_manifests [simp]: "same_manifests db (snd (ConfirmChunk eng now h sz nid db))"
  by (simp add: ConfirmChunk_def same_manifests_def Let_def)

lemma tell_manifests:
  "(\<And>eng now. same_manifests (w_db w) (snd (f eng now (w_db w)))) \<Longrightarrow> same_manifests (w_db w) (w_db (snd (tell e f w)))"
  by (simp add: tell_db)

lemma uploadCopies_manifests: "same_manifests (w_db w) (w_db (snd (uploadCopies e h d ns c w)))"
proof (induction ns arbitrary: c w)
  case (Cons n ns)
  let ?w1 = "snd (send_putChunk e (ni_address n) h d w)"
  let ?w2 = "snd (tell e (\<lambda>eng now. ConfirmChunk eng now h (int (length d)) (ni_id n)) ?w1)"
  have "same_manifests (w_db ?w1) (w_db ?w2)" by (rule tell_manifests) simp
  then have "same_manifests (w_db w) (w_db ?w2)" by (simp add: world_simps)
  with Cons.IH [of ?w2] show ?case
    by (auto simp: split_beta world_simps split: sum.split intro: same_manifests_trans)
qed simp

lemma uploadLoop_manifests:
  assumes "uploadLoop e up w = (Uploaded up', w')"
  shows "same_manifests (w_db w) (w_db w')"
  using assms
proof (induction rule: uploadLoop_induct)
  case (Turn up w d rest up1 w1)
  from Turn(2) have "same_manifests (w_db w) (w_db w1)"
  proof (cases rule: uploadChunk_cases)
    case (copied eng now eng' now' k ns c' w0)
    with uploadCopies_manifests [of w0 e "hashData d" d ns "up_selectedCounts up"] show ?thesis by simp
  qed simp
  with Turn.IH same_manifests_trans show ?case by blast
qed simp

lemma beginUpload_fresh:
  "beginUpload h r = Inr up \<Longrightarrow> up_chunks up = [] \<and> up_index up = 0 \<and> up_totalSize up = 0 \<and>
     up_dedupNewBytes up = 0 \<and> up_dedupReusedBytes up = 0 \<and> 0 < up_chunkSize up \<and>
     up_chunkSize up \<le> maxChunkSize \<and> 0 \<le> up_retention up"
  by (auto simp: beginUpload_def Let_def split: if_splits sum.splits prod.splits)

lemma backup_created:
  assumes "in_time s e" and "world_inv w" and "beginUpload h r = Inr up" and "rd_end (up_reader up) = EOF"
    and "room s (\<lambda>_. int (length (rd_bytes (up_reader up)))) w" and "up_replication up \<le> table_size w"
    and "date @ ''-'' @ uuid \<notin> fr_id ` set (db_files (w_db w))"
  shows "rs_status (fst (backupFile h e date uuid r w)) = StatusCreated"
proof -
  obtain up' w' where loop: "uploadLoop e up w = (Uploaded up', w')"
    using uploadLoop_quiet [OF assms(1,2,5,4,6)] by blast
  have "quiet e" using assms(1) by (simp add: in_time_def)
  moreover have "db_wf (w_db w')"
    using uploadLoop_inv [OF assms(2), of e up] loop by (simp add: world_inv_def)
  moreover have "distinct (map cr_index (cf_chunks (uploadRequest up')))"
    using uploadLoop_records [OF loop, of "[]"] beginUpload_fresh [OF assms(3)] chunk_refs_index
    by (simp add: uploadRequest_def chunk_refs_def [of "[]"] distinct_map)
  moreover have "date @ ''-'' @ uuid \<notin> fr_id ` set (db_files (w_db w'))"
    using uploadLoop_manifests [OF loop] assms(7) by (simp add: same_manifests_def)
  ultimately have "rs_status (fst (saveManifest e date uuid (uploadRequest up') w')) = StatusCreated"
    by (rule saveManifest_quiet)
  then show ?thesis by (simp add: backupFile_def assms(3) loop)
qed

text \<open>
  C22: a backup succeeds when it can. In a run without failures that stays within the online
  window of the nodes, a well-formed request with a readable file part is answered 201, provided
  the cluster has at least \<open>replication\<close> nodes, every node of the tables answers with the shared
  token, and both the tables and the nodes have room for the file.
\<close>

theorem backup_succeeds:
  assumes "in_time s e" and "world_inv w" and "beginUpload h r = Inr up" and "rd_end (up_reader up) = EOF"
    and "room s (\<lambda>_. int (length (rd_bytes (up_reader up)))) w" and "up_replication up \<le> table_size w"
    and "date @ ''-'' @ uuid \<notin> fr_id ` set (db_files (w_db w))"
  shows "rs_status (fst (backupFile h e date uuid r w)) = StatusCreated"
  by (rule backup_created [OF assms])

subsection \<open>What requests can put on a node\<close>

text \<open>
  The nodes after some requests, each of which, if it is a complete upload, carries one of the
  contents \<open>D\<close>.
\<close>

definition carries :: "bytes set \<Rightarrow> node_body Request \<Rightarrow> bool" where
  "carries D r \<longleftrightarrow> (rq_method r = ''PUT'' \<and> rd_end (nb_reader (rq_body r)) = EOF \<longrightarrow> rd_bytes (nb_reader (rq_body r)) \<in> D)"

inductive evolves :: "bytes set \<Rightarrow> (string \<Rightarrow> Node option) \<Rightarrow> (string \<Rightarrow> Node option) \<Rightarrow> bool" for D where
  start [simp, intro]: "evolves D N N"
| request: "evolves D N N' \<Longrightarrow> N' a = Some n \<Longrightarrow> carries D r \<Longrightarrow> evolves D N (N'(a \<mapsto> snd (node_handler io r n)))"

lemma evolves_trans:
  assumes "evolves D N' N''" and "evolves D N N'"
  shows "evolves D N N''"
  using assms by induction (auto intro: evolves.request)

lemma evolves_mono: "evolves D N N' \<Longrightarrow> D \<subseteq> D' \<Longrightarrow> evolves D' N N'"
  by (induction rule: evolves.induct) (auto intro!: evolves.request simp: carries_def)

lemma map_of_filter_Some:
  "distinct (map fst fs) \<Longrightarrow> map_of (filter P fs) p = Some c \<Longrightarrow> map_of fs p = Some c"
  by (metis filter_is_subset map_of_SomeD map_of_is_SomeI subsetD)

lemma Clear_blob:
  assumes "store_inv s" and "blob (snd (Clear io s)) h = Some d"
  shows "blob s h = Some d"
proof -
  let ?s = "snd (Clear io s)"
  have env: "st_root ?s = st_root s" "st_aead ?s = st_aead s"
    and "\<exists>P. st_files ?s = filter P (st_files s)"
    by (auto simp: Clear_def Let_def intro: exI [of _ "\<lambda>_. True"] exI [of _ "\<lambda>_. False"])
  then obtain P where P: "st_files ?s = filter P (st_files s)" by blast
  obtain p where p: "Path s h = Inr p"
    using assms(2) by (cases "Path s h") (simp_all add: blob_alt [of ?s] Path_cong [OF env(1)])
  have "map_of (st_files s) p = Some c" if "map_of (filter P (st_files s)) p = Some c" for c
    by (rule map_of_filter_Some [OF _ that]) (use assms(1) in \<open>simp add: store_inv_def\<close>)
  with assms(2) p show ?thesis
    by (auto simp: blob_alt [of ?s] blob_alt [of s] Path_cong [OF env(1)] env(2) P split: option.splits)
qed

lemma Delete_blob_Some: "blob (snd (Delete io s h)) h' = Some d \<Longrightarrow> blob s h' = Some d"
proof (cases "fst (Delete io s h)")
  case (Inl err)
  then have "snd (Delete io s h) = s"
    by (auto simp: Delete_def Let_def split: sum.splits option.splits if_splits)
  then show "blob (snd (Delete io s h)) h' = Some d \<Longrightarrow> ?thesis" by simp
qed (simp add: Delete_blob split: if_splits)

lemma Put_blob_Some:
  assumes "store_inv s" and "blob (snd (Put io s h r)) h' = Some d"
  shows "blob s h' = Some d \<or> rd_end r = EOF \<and> d = rd_bytes r \<and> digest h' = digest (hashData d)"
proof -
  obtain res s' where p: "Put io s h r = (res, s')" by fastforce
  show ?thesis
  proof (cases res)
    case (Inl err)
    with p assms(2) same_chunks_blob [OF Put_Inl [of io s h r err s']] show ?thesis by simp
  next
    case (Inr k)
    with p have p': "Put io s h r = (Inr k, s')" by simp
    have "store_ok s" using assms(1) by (simp add: store_inv_def)
    then have "h = hashData (rd_bytes r) \<and> rd_end r = EOF"
      by (rule Put_Inr [OF p']) simp
    with Put_blob [OF assms(1) p', of h'] assms(2) p show ?thesis by (auto split: if_splits)
  qed
qed

lemma node_handler_cases:
  obtains (same) "snd (node_handler io r n) = n"
  | (put) "rq_method r = ''PUT''" "snd (node_handler io r n) = snd (putChunk io r n)"
  | (delete) "rq_method r = ''DELETE''" "snd (node_handler io r n) = snd (deleteChunk io r n)"
  | (clear) "rq_method r = ''DELETE''" "snd (node_handler io r n) = snd (clearStorage io r n)"
proof -
  have "snd (node_mux io r n) = n \<or> rq_method r = ''PUT'' \<and> snd (node_mux io r n) = snd (putChunk io r n) \<or>
      rq_method r = ''DELETE'' \<and> (snd (node_mux io r n) = snd (deleteChunk io r n) \<or> snd (node_mux io r n) = snd (clearStorage io r n))"
    by (simp add: node_mux_def Let_def)
  moreover have "snd (node_handler io r n) = n \<or> snd (node_handler io r n) = snd (node_mux io r n)"
    by (simp add: node_handler_def Middleware_def)
  ultimately consider "snd (node_handler io r n) = n"
    | "rq_method r = ''PUT''" "snd (node_handler io r n) = snd (putChunk io r n)"
    | "rq_method r = ''DELETE''" "snd (node_handler io r n) = snd (deleteChunk io r n)"
    | "rq_method r = ''DELETE''" "snd (node_handler io r n) = snd (clearStorage io r n)"
    by (elim disjE conjE) simp_all
  then show ?thesis by cases (fact same, fact put, fact delete, fact clear)
qed

lemma handler_blob_Some:
  assumes "node_inv n" and "carries D r" and "blob (nd_store (snd (node_handler io r n))) h = Some d"
  shows "blob (nd_store n) h = Some d \<or> d \<in> D \<and> digest h = digest (hashData d)"
proof -
  have inv: "store_inv (nd_store n)" using assms(1) by (simp add: node_inv_def)
  let ?body = "nb_reader (rq_body r)"
  have put: "blob (nd_store n) h = Some d \<or> d \<in> D \<and> digest h = digest (hashData d)"
    if b: "blob (nd_store (snd (putChunk io r n))) h = Some d" and m: "rq_method r = ''PUT''"
  proof (cases "snd (putChunk io r n) = n")
    case False
    then have "snd (putChunk io r n) = n\<lparr>nd_store := snd (Put io (nd_store n) (chunk_path_hash (rq_path r)) ?body)\<rparr>"
      unfolding putChunk_state by meson
    with b have "blob (snd (Put io (nd_store n) (chunk_path_hash (rq_path r)) ?body)) h = Some d" by simp
    from Put_blob_Some [OF inv this] show ?thesis using assms(2) m unfolding carries_def by blast
  qed (use b in simp)
  from assms(3) show ?thesis
  proof (cases rule: node_handler_cases [of io r n])
    case delete
    with assms(3) have "blob (snd (Delete io (nd_store n) (chunk_path_hash (rq_path r)))) h = Some d"
      by (simp add: deleteChunk_state)
    then show ?thesis by (intro disjI1) (rule Delete_blob_Some)
  next
    case clear
    then have "snd (node_handler io r n) = n \<or> nd_store (snd (node_handler io r n)) = snd (Clear io (nd_store n))"
      by (simp add: clearStorage_state)
    with assms(3) Clear_blob [OF inv] show ?thesis by metis
  next
    case same
    with assms(3) show ?thesis by (intro disjI1) metis
  next
    case p: put
    from assms(3) show ?thesis unfolding p(2) by (rule put) (rule p(1))
  qed
qed

lemma evolves_nodes:
  assumes "evolves D N N'" and "\<forall>a n. N a = Some n \<longrightarrow> node_inv n"
  shows "(\<forall>a n. N' a = Some n \<longrightarrow> node_inv n) \<and>
    (\<forall>a n'. N' a = Some n' \<longrightarrow> (\<exists>n. N a = Some n \<and> nd_token n' = nd_token n \<and>
       (\<forall>h d. blob (nd_store n') h = Some d \<longrightarrow> blob (nd_store n) h = Some d \<or> d \<in> D \<and> digest h = digest (hashData d))))"
  using assms
proof induction
  case (request N N' a n r io)
  note ih = request.IH [OF request.prems]
  have inv: "node_inv n" using ih request.hyps(2) by blast
  show ?case
    using ih request.hyps(2) node_handler_inv [OF inv, of io r] node_handler_env(2) [of io r n]
      handler_blob_Some [OF inv request.hyps(3), of io]
    by (auto split: if_splits) metis+
qed auto

named_theorems evolve \<open>what an operation can put on the nodes\<close>

lemma carries_simps [simp]:
  "carries D (RoundTrip t r) = carries D r" "carries D (cut_body j r)"
  "carries D (node_request ''DELETE'' p d)" "carries {d} (node_request ''PUT'' p d)"
  "carries D ((node_request ''DELETE'' p d)\<lparr>rq_query := q\<rparr>)"
  by (simp_all add: carries_def RoundTrip_def cut_body_def node_request_def)

lemma Do_evolves: "carries D rq \<Longrightarrow> evolves D (w_nodes w) (w_nodes (snd (Do e a rq w)))"
  by (auto simp: Do_def Let_def intro!: evolves.request split: option.split delivery.split)

lemma send_evolves [evolve]:
  "evolves {d} (w_nodes w) (w_nodes (snd (send_putChunk e a h d w)))"
  "evolves D (w_nodes w) (w_nodes (snd (send_deleteChunk e a h w)))"
  using Do_evolves [of "{d}" "node_request ''PUT'' (''/chunks/'' @ h) d" w e a]
    Do_evolves [of D "node_request ''DELETE'' (''/chunks/'' @ h) []" w e a]
  by (simp_all add: send_putChunk_def send_deleteChunk_def split_beta split: option.split)

lemma send_token [world_simps]:
  "w_token (snd (send_putChunk e a h d w)) = w_token w" "w_token (snd (send_deleteChunk e a h w)) = w_token w"
  by (simp_all add: send_putChunk_def send_deleteChunk_def split_beta world_simps split: option.split)

lemma uploadCopies_evolves [evolve]: "evolves {d} (w_nodes w) (w_nodes (snd (uploadCopies e h d ns c w)))"
proof (induction ns arbitrary: c w)
  case (Cons n ns)
  let ?w1 = "snd (send_putChunk e (ni_address n) h d w)"
  let ?w2 = "snd (tell e (\<lambda>eng now. ConfirmChunk eng now h (int (length d)) (ni_id n)) ?w1)"
  have "evolves {d} (w_nodes w) (w_nodes ?w2)" by (simp add: world_simps evolve)
  then have "evolves {d} (w_nodes w) (w_nodes (snd (uploadCopies e h d ns c' ?w2)))" for c'
    using Cons.IH evolves_trans by blast
  then show ?case by (simp add: split_beta world_simps evolve split: sum.split)
qed simp

lemma uploadCopies_token: "w_token (snd (uploadCopies e h d ns c w)) = w_token w"
  by (induction ns arbitrary: c w)
    (simp_all add: split_beta world_simps send_token split: sum.split)

lemma uploadLoop_evolves:
  assumes "uploadLoop e up w = (Uploaded up', w')"
  shows "evolves (set (fst (chunk_all (up_reader up) (up_chunkSize up)))) (w_nodes w) (w_nodes w') \<and> w_token w' = w_token w"
  using assms
proof (induction rule: uploadLoop_induct)
  case (Turn up w d rest up1 w1)
  have "evolves {d} (w_nodes w) (w_nodes w1) \<and> w_token w1 = w_token w"
    using Turn(2)
  proof (cases rule: uploadChunk_cases)
    case (copied eng now eng' now' k ns c' w0)
    with uploadCopies_evolves [of d w0 e "hashData d" ns "up_selectedCounts up"]
      uploadCopies_token [of e "hashData d" d ns "up_selectedCounts up" w0] show ?thesis by simp
  qed simp
  with Turn.IH uploadChunk_fields [OF Turn(2)] show ?case
    by (auto simp: chunk_all_Chunk [OF Turn(1)] intro: evolves_trans evolves_mono)
qed simp

lemma deleteCopies_evolves: "evolves D (w_nodes w) (w_nodes (snd (deleteCopies e h ns acc w)))"
proof (induction ns arbitrary: acc w)
  case (Cons n ns)
  obtain k fs where acc: "acc = (k, fs)" by fastforce
  let ?w1 = "snd (send_deleteChunk e (ni_address n) h w)"
  let ?w2 = "snd (removeLocation e h (ni_id n) ?w1)"
  have "evolves D (w_nodes w) (w_nodes ?w1)" "evolves D (w_nodes w) (w_nodes ?w2)" by (simp_all add: world_simps evolve)
  then have "evolves D (w_nodes w) (w_nodes (snd (deleteCopies e h ns acc' ?w1)))"
    "evolves D (w_nodes w) (w_nodes (snd (deleteCopies e h ns acc' ?w2)))" for acc'
    using Cons.IH evolves_trans by blast+
  with \<open>evolves D (w_nodes w) (w_nodes ?w2)\<close> show ?case
    by (simp add: acc split_beta split: sum.split bool.split)
qed (metis deleteCopies.simps(1) evolves.start prod.collapse snd_conv)

lemma deleteHashes_evolves: "evolves D (w_nodes w) (w_nodes (snd (deleteHashes e locs hs acc w)))"
proof (induction hs arbitrary: acc w)
  case (Cons h hs)
  with deleteCopies_evolves [of D w e h "locs h" acc] show ?case
    by (auto simp: split_beta split: option.split intro: evolves_trans)
qed simp

lemma saveManifest_evolves [evolve]: "evolves D (w_nodes w) (w_nodes (snd (saveManifest e date uuid req w)))"
proof -
  have "evolves D (w_nodes w1) (w_nodes (snd (deleteUnusedChunks e us w1)))" for us w1
    using deleteHashes_evolves [of D "tick w1"] by (simp add: deleteUnusedChunks_def split_beta)
  note d = this [of "snd (tell e f (snd (tell e g w)))" for f g, unfolded tell_world]
  show ?thesis by (auto simp: saveManifest_def split_beta tell_world d split: sum.split option.split)
qed

lemma deleteHashes_token: "w_token (snd (deleteHashes e locs hs acc w)) = w_token w"
proof (induction hs arbitrary: acc w)
  case (Cons h hs)
  have "w_token (snd (deleteCopies e h ns acc w)) = w_token w" for ns
  proof (induction ns arbitrary: acc w)
    case (Cons n ns)
    then show ?case
      by (cases acc) (simp add: split_beta world_simps split: sum.split bool.split)
  qed (metis deleteCopies.simps(1) prod.collapse snd_conv)
  with Cons show ?case by (simp add: split_beta split: option.split)
qed simp

lemma saveManifest_token: "w_token (snd (saveManifest e date uuid req w)) = w_token w"
  by (simp add: saveManifest_def deleteUnusedChunks_def split_beta deleteHashes_token world_simps
      split: sum.split option.split)

lemma evolves_intact:
  assumes "evolves D (w_nodes w) (w_nodes w')" and "world_inv w" and "intact w d"
    and "\<And>x. x \<in> D \<Longrightarrow> hashData x = hashData d \<Longrightarrow> x = d"
  shows "intact w' d"
  unfolding intact_def
proof (intro allI impI)
  fix a n' d'
  assume n': "w_nodes w' a = Some n'" and b: "blob (nd_store n') (hashData d) = Some d'"
  have "\<forall>a n. w_nodes w a = Some n \<longrightarrow> node_inv n" using assms(2) by (simp add: world_inv_def)
  from evolves_nodes [OF assms(1) this] n' obtain n where n: "w_nodes w a = Some n"
    and "blob (nd_store n') (hashData d) = Some d' \<longrightarrow>
      blob (nd_store n) (hashData d) = Some d' \<or> d' \<in> D \<and> digest (hashData d) = digest (hashData d')"
    by blast
  with b consider "blob (nd_store n) (hashData d) = Some d'" | "d' \<in> D" "digest (hashData d) = digest (hashData d')"
    by blast
  then show "d' = d"
  proof cases
    case 1
    with n assms(3) show ?thesis by (simp add: intact_def)
  next
    case 2
    with assms(4) hashData_digest_eq show ?thesis by metis
  qed
qed

text \<open>Every node expects the token the server sends.\<close>

definition one_token :: "World \<Rightarrow> bool" where
  "one_token w \<longleftrightarrow> (\<forall>a n. w_nodes w a = Some n \<longrightarrow> nd_token n = TrimSpace (w_token w))"

text \<open>In a backed world every recorded copy is served, if the nodes share the server's token.\<close>

lemma backed_available:
  assumes "world_inv w" and "backed w" and "one_token w"
    and "intact w d" and "holders (w_db w) (hashData d) \<noteq> {}"
  shows "available w d"
proof -
  obtain i where i: "i \<in> holders (w_db w) (hashData d)" using assms(5) by blast
  moreover have "\<forall>l \<in> set (db_locations (w_db w)). lo_nodeID l \<in> ni_id ` set (db_nodes (w_db w))"
    using assms(1) by (simp add: world_inv_def db_wf_def refs_ok_def)
  ultimately obtain n where "n \<in> set (db_nodes (w_db w))" "ni_id n = i" by (auto simp: holders_def)
  then obtain a where a: "(i, a) \<in> addr_book (w_db w)" by (auto simp: addr_book_def)
  with i assms(2) have "holds w a (hashData d)" unfolding backed_def by blast
  with assms(3) have "serves w a (hashData d)" by (auto simp: holds_def serves_def one_token_def)
  with i a assms(4) show ?thesis by (auto simp: available_def)
qed

lemma backup_available:
  assumes "in_time s e" and "world_inv w" and "backed w"
    and "one_token w"
    and "beginUpload h r = Inr up" and "rd_end (up_reader up) = EOF"
    and "room s (\<lambda>_. int (length (rd_bytes (up_reader up)))) w"
    and "1 \<le> up_replication up" and "up_replication up \<le> table_size w"
    and "date @ ''-'' @ uuid \<notin> fr_id ` set (db_files (w_db w))"
    and "ds = fst (chunk_all (up_reader up) (up_chunkSize up))"
    and "inj_on hashData (set ds)" and "\<forall>d \<in> set ds. intact w d"
  shows "\<exists>m ids w'. backupFile h e date uuid r w = (respond StatusCreated (RManifest (m\<lparr>fm_retentionDeleted := ids\<rparr>)), w') \<and>
    FileByID (\<lambda>_. True) (w_db w') (fm_id m) = Some m \<and> map cr_hash (fm_chunks m) = map hashData ds \<and>
    fm_size m = int (length (concat ds)) \<and> (\<forall>d \<in> set ds. available w' d) \<and> concat ds = rd_bytes (up_reader up)"
proof -
  obtain up' w1 where loop: "uploadLoop e up w = (Uploaded up', w1)"
    using uploadLoop_quiet [OF assms(1,2,7,6,9)] by blast
  note fresh = beginUpload_fresh [OF assms(5)]
  have q: "quiet e" using assms(1) by (simp add: in_time_def)
  then have calm: "calm e" by (simp add: quiet_def calm_def)
  have inv1: "world_inv w1" and b1: "backed w1"
    using uploadLoop_inv [OF assms(2), of e up] uploadLoop_backed [OF assms(2,3), of e up] loop by simp_all
  have rec: "up_chunks up' = chunk_refs ds" "up_totalSize up' = int (length (rd_bytes (up_reader up)))"
    using uploadLoop_records [OF loop, of "[]"] fresh by (simp_all add: assms(11) chunk_refs_def)
  have bytes: "concat ds = rd_bytes (up_reader up)"
    using chunk_all_concat [OF assms(6), of "up_chunkSize up"] by (simp add: assms(11))
  have copies: "holders (w_db w1) (hashData d) \<noteq> {}" if "d \<in> set ds" for d
    using uploadLoop_copies [OF assms(2) loop] fresh that assms(8,11) by fastforce
  obtain rs w2 where save: "saveManifest e date uuid (uploadRequest up') w1 = (rs, w2)" by fastforce
  have run: "backupFile h e date uuid r w = (rs, w2)" by (simp add: backupFile_def assms(5) loop save)
  have status: "rs_status rs = StatusCreated"
    using backup_created [OF assms(1,2,5,6,7,9,10)] run by simp
  have sorted: "sorted_wrt (<) (map cr_index (cf_chunks (uploadRequest up')))"
    by (simp add: uploadRequest_def rec chunk_refs_sorted)
  obtain m ids where m: "rs_body rs = RManifest (m\<lparr>fm_retentionDeleted := ids\<rparr>)"
    "FileByID (\<lambda>_. True) (w_db w2) (fm_id m) = Some m" "fm_chunks m = chunk_refs ds"
    "fm_size m = int (length (concat ds))"
    "\<forall>h \<in> used_hashes (w_db w2). holders (w_db w2) h = holders (w_db w1) h"
    using saveManifest_created [OF inv1 save status sorted] by (auto simp: uploadRequest_def rec bytes)
  have inv2: "world_inv w2" and b2: "backed w2"
    using saveManifest_inv [OF inv1, of e date uuid "uploadRequest up'"] saveManifest_backed [OF inv1 b1 calm save]
      status save by simp_all
  have ev: "evolves (set ds) (w_nodes w) (w_nodes w2)" "w_token w2 = w_token w"
    using uploadLoop_evolves [OF loop] saveManifest_evolves [of "set ds" w1 e date uuid "uploadRequest up'"]
      saveManifest_token [of e date uuid "uploadRequest up'" w1] save
    by (auto simp: assms(11) intro: evolves_trans)
  have "\<forall>a n. w_nodes w a = Some n \<longrightarrow> node_inv n" using assms(2) by (simp add: world_inv_def)
  then have tok: "one_token w2"
    using evolves_nodes [OF ev(1)] assms(4) unfolding one_token_def ev(2) by metis
  have "available w2 d" if d: "d \<in> set ds" for d
  proof (rule backed_available [OF inv2 b2 tok])
    show "intact w2 d"
      by (rule evolves_intact [OF ev(1) assms(2) bspec [OF assms(13) d]]) (use assms(12) d in \<open>auto simp: inj_on_def\<close>)
    have "hashData d \<in> used_hashes (w_db w2)"
    proof -
      have "cr_hash ` set (fm_chunks m) = file_hashes (w_db w2) (fm_id m)"
        using FileByID_hashes [OF m(2)] by simp
      moreover have "cr_hash ` set (fm_chunks m) = hashData ` set ds"
        unfolding m(3) by (metis chunk_refs_hashes set_map)
      ultimately show ?thesis using d by (auto simp: file_hashes_def used_hashes_def)
    qed
    then show "holders (w_db w2) (hashData d) \<noteq> {}" using m(5) copies [OF d] by simp
  qed
  then have avail: "\<forall>d \<in> set ds. available w2 d" by blast
  have hashes: "map cr_hash (fm_chunks m) = map hashData ds" by (simp add: m(3))
  have "rs = respond StatusCreated (RManifest (m\<lparr>fm_retentionDeleted := ids\<rparr>))"
    using status m(1) by (cases rs) (simp add: respond_def)
  with run m(2,4) hashes avail bytes show ?thesis by blast
qed


subsection \<open>An example\<close>

text \<open>Two empty nodes, and a backup of a one-byte file with two copies of each chunk.\<close>

definition demo_store :: Store where
  "demo_store = \<lparr>st_root = ''/srv'', st_aead = None, st_used = 0, st_files = []\<rparr>"

definition demo_cluster :: World where
  "demo_cluster = \<lparr>w_db = emptyDb\<lparr>db_nodes := [demo_node ''n1'' 50, demo_node ''n2'' 80]\<rparr>,
     w_nodes = (\<lambda>a. if a = ''http://n1'' \<or> a = ''http://n2''
       then Some \<lparr>nd_store = demo_store, nd_capacity = 100, nd_token = ''t''\<rparr> else None),
     w_token = ''t'', w_tick = 0\<rparr>"

definition demo_backup :: "server_body Request" where
  "demo_backup = \<lparr>rq_method = ''POST'', rq_path = ''/backups'', rq_query = [(''replication'', ''2'')],
     rq_authorization = ''Bearer t'',
     rq_body = \<lparr>sb_register = Inl ''-'', sb_plan = Inl ''-'', sb_confirm = Inl ''-'', sb_create = Inl ''-'',
       sb_replication = Inl ''-'', sb_parts = (\<lambda>_. Inr ([\<lparr>pa_formName = ''file'', pa_fileName = ''disk'',
         pa_reader = \<lparr>rd_bytes = [7], rd_end = EOF\<rparr>\<rparr>], EOF))\<rparr>\<rparr>"

definition demo_upload :: Upload where
  "demo_upload = \<lparr>up_filename = ''disk'', up_backupName = ''disk'', up_chunkSize = defaultChunkSize,
     up_replication = 2, up_retention = 0, up_reader = \<lparr>rd_bytes = [7], rd_end = EOF\<rparr>, up_index = 0,
     up_chunks = [], up_selectedCounts = (\<lambda>_. 0), up_seenHashes = [], up_totalSize = 0,
     up_dedupNewBytes = 0, up_dedupReusedBytes = 0\<rparr>"

lemma demo_begin: "beginUpload \<lparr>hd_token = ''t'', hd_maxUploadBytes = 0\<rparr> demo_backup = Inr demo_upload"
  by (simp add: beginUpload_def demo_backup_def demo_upload_def queryInt_def query_get_def parseInt_def
      is_digit_def digits_value_def TrimSpace_Nil Let_def defaultChunkSize_def maxChunkSize_def int64_def)

lemma demo_reads:
  "readContentDefinedChunk \<lparr>rd_bytes = [7], rd_end = EOF\<rparr> t = Chunk [7] \<lparr>rd_bytes = [], rd_end = EOF\<rparr>"
  "readContentDefinedChunk \<lparr>rd_bytes = [], rd_end = EOF\<rparr> t = EndOfFile"
proof -
  have "1 < cdc_min (cdc_target t)" "1 < cdc_max (cdc_target t)" "0 < cdc_max (cdc_target t)"
    using cdc_min_pos [of "cdc_target t"] cdc_min_le_max [of "cdc_target t"] by linarith+
  then show "readContentDefinedChunk \<lparr>rd_bytes = [7], rd_end = EOF\<rparr> t = Chunk [7] \<lparr>rd_bytes = [], rd_end = EOF\<rparr>"
    "readContentDefinedChunk \<lparr>rd_bytes = [], rd_end = EOF\<rparr> t = EndOfFile"
    by (simp_all add: readContentDefinedChunk_def Let_def not_le)
qed

lemma demo_chunks: "fst (chunk_all (up_reader demo_upload) (up_chunkSize demo_upload)) = [[7]]"
  by (simp add: demo_upload_def chunk_all.simps demo_reads)

lemma demo_time: "in_time 1000 (quiet_env (1000 * 10 ^ 9))"
  by (simp add: in_time_def) (simp add: quiet_env_def)

lemma demo_facts:
  "world_inv demo_cluster" "backed demo_cluster" "one_token demo_cluster" "table_size demo_cluster = 2"
  "room 1000 (\<lambda>_. 1) demo_cluster" "intact demo_cluster d"
proof -
  have t: "TrimSpace ''t'' = ''t''" by (simp add: TrimSpace_visible visible_def)
  have s: "store_inv demo_store" "blob demo_store h = None" for h
    by (simp_all add: demo_store_def store_inv_empty store_ok_def blob_alt split: sum.split)
  show "world_inv demo_cluster"
    by (simp add: world_inv_def demo_cluster_def node_inv_def s wf_defs emptyDb_def demo_node_def)
  show "backed demo_cluster"
    by (auto simp: backed_def demo_cluster_def addr_book_def holders_def emptyDb_def demo_node_def)
  show "one_token demo_cluster" by (simp add: one_token_def demo_cluster_def t)
  show "table_size demo_cluster = 2"
    by (simp add: table_size_def demo_cluster_def addr_book_def emptyDb_def demo_node_def)
  show "room 1000 (\<lambda>_. 1) demo_cluster"
    by (auto simp: room_def roomy_def demo_cluster_def addr_book_def emptyDb_def demo_node_def Used_def demo_store_def t)
  show "intact demo_cluster d" by (simp add: intact_def demo_cluster_def s)
qed

lemma demo_new: "date \<notin> fr_id ` set (db_files (w_db demo_cluster))"
  by (simp add: demo_cluster_def emptyDb_def)

lemma demo_sel [simp]:
  "rd_end (up_reader demo_upload) = EOF" "rd_bytes (up_reader demo_upload) = [7]"
  "up_replication demo_upload = 2" "up_chunks demo_upload = []" "up_index demo_upload = 0"
  by (simp_all add: demo_upload_def)

abbreviation demo_handler :: Handler where
  "demo_handler \<equiv> \<lparr>hd_token = ''t'', hd_maxUploadBytes = 0\<rparr>"

abbreviation demo_env :: env where
  "demo_env \<equiv> quiet_env (1000 * 10 ^ 9)"

lemma demo_run:
  "\<exists>m ids w'. backupFile demo_handler demo_env ''20260101'' ''u'' demo_backup demo_cluster =
      (respond StatusCreated (RManifest (m\<lparr>fm_retentionDeleted := ids\<rparr>)), w') \<and>
    FileByID (\<lambda>_. True) (w_db w') (fm_id m) = Some m \<and> map cr_hash (fm_chunks m) = map hashData [[7]] \<and>
    fm_size m = int (length (concat [[7 :: byte]])) \<and> (\<forall>d \<in> set [[7]]. available w' d)"
proof -
  have "room 1000 (\<lambda>_. int (length (rd_bytes (up_reader demo_upload)))) demo_cluster" using demo_facts(5) by simp
  moreover have "\<forall>d \<in> set [[7 :: byte]]. intact demo_cluster d" by (simp add: demo_facts(6))
  ultimately show ?thesis
    using backup_available [OF demo_time demo_facts(1-3) demo_begin _ _ _ _ demo_new demo_chunks [symmetric]] demo_facts(4)
    by simp
qed

theorem upload_is_replicated_witness:
  "\<exists>up' w'. uploadLoop demo_env demo_upload demo_cluster = (Uploaded up', w') \<and>
     up_chunks up' = chunk_refs [[7]] \<and> 2 \<le> card (holders (w_db w') (hashData [7]))"
proof -
  obtain up' w' where run: "uploadLoop demo_env demo_upload demo_cluster = (Uploaded up', w')"
    using uploadLoop_quiet [OF demo_time demo_facts(1), of demo_upload] demo_facts(4,5) by auto
  show ?thesis using upload_is_replicated [OF demo_facts(1) run] run demo_chunks by auto
qed

theorem backup_succeeds_witness:
  "rs_status (fst (backupFile demo_handler demo_env ''20260101'' ''u'' demo_backup demo_cluster)) = 201"
  using backup_succeeds [OF demo_time demo_facts(1) demo_begin _ _ _ demo_new] demo_facts(4,5) by simp



theorem download_integrity_witness:
  "\<exists>(m :: FileManifest) w' wr ds tail. rs_body (fst (downloadFile demo_env (demo_backup\<lparr>rq_path := ''/files/'' @ fm_id m @ ''/download''\<rparr>) w')) =
     RDownload (fm_name m) wr \<and> wr_body wr = concat ds @ tail \<and> map hashData ds = take (length ds) [hashData [7]] \<and>
     (length ds = 1 \<longrightarrow> tail = [])"
proof -
  obtain m and w' :: World where m: "FileByID (\<lambda>_. True) (w_db w') (fm_id m) = Some m"
    "map cr_hash (fm_chunks m) = map hashData [[7]]"
    using demo_run by blast
  let ?r = "demo_backup\<lparr>rq_path := ''/files/'' @ fm_id m @ ''/download''\<rparr>"
  have id: "fm_id m = TrimSuffix (TrimPrefix (rq_path ?r) ''/files/'') ''/download''"
    using download_path [of "fm_id m"] by simp
  have eng: "ev_eng demo_env k = (\<lambda>_. True)" for k by (simp add: quiet_env_def)
  have one: "length (fm_chunks m) = 1" using arg_cong [OF m(2), of length] by simp
  obtain rs w'' where run: "downloadFile demo_env ?r w' = (rs, w'')" by fastforce
  have "case FileByID (\<lambda>_. True) (w_db w') (fm_id m) of None \<Rightarrow> rs = respond StatusNotFound (RError ''file not found'')
     | Some m \<Rightarrow> \<exists>wr ds tail. rs_body rs = RDownload (fm_name m) wr \<and> wr_body wr = concat ds @ tail \<and>
         length ds \<le> length (fm_chunks m) \<and> map hashData ds = map cr_hash (take (length ds) (fm_chunks m)) \<and>
         (ds \<noteq> [] \<longrightarrow> rs_status rs = StatusOK) \<and>
         (tail = [] \<or> length ds < length (fm_chunks m) \<and> (\<exists>msg. tail = text_bytes (msg @ [CHR 0x0A])))"
    using download_integrity [OF run id] unfolding eng by (rule conjunct2)
  then obtain wr ds tail where "rs_body rs = RDownload (fm_name m) wr"
    "wr_body wr = concat ds @ tail" "map hashData ds = map cr_hash (take (length ds) (fm_chunks m))"
    "tail = [] \<or> length ds < length (fm_chunks m)"
    unfolding m(1) option.case by (elim exE conjE) (rule that, assumption, assumption, assumption, blast)
  moreover have "map cr_hash (take k (fm_chunks m)) = take k [hashData [7]]" for k
    unfolding take_map [symmetric] m(2) by simp
  moreover have "length ds = 1 \<longrightarrow> tail = []" using calculation(4) one by auto
  ultimately show ?thesis using run by (metis fst_conv)
qed

end
