(* ===== verification/Replication.thy ===== *)
theory Replication
  imports Progress
begin

text \<open>
  The replication pass of the scheduler in a run without failures: in a cluster whose tables and
  nodes agree and whose nodes have room, it makes up to a hundred chunks whole.
\<close>

subsection \<open>A sound cluster\<close>

text \<open>
  \<open>C\<close> gives each chunk of a manifest its content; no node has other bytes under its name. A sound
  cluster has well-formed and true tables, nodes that share the server's token and have, with the tables,
  \<open>c i\<close> bytes of room on node \<open>i\<close>, and manifests with the contents \<open>C\<close>.
\<close>

definition contents :: "(string \<Rightarrow> bytes) \<Rightarrow> World \<Rightarrow> bool" where
  "contents C w \<longleftrightarrow> (\<forall>c \<in> set (db_fileChunks (w_db w)).
     hashData (C (ck_hash c)) = ck_hash c \<and> ck_size c = int (length (C (ck_hash c))) \<and> C (ck_hash c) \<noteq> [] \<and>
     intact w (C (ck_hash c)))"

definition sound :: "seconds \<Rightarrow> (string \<Rightarrow> bytes) \<Rightarrow> (string \<Rightarrow> int) \<Rightarrow> World \<Rightarrow> bool" where
  "sound s C c w \<longleftrightarrow> world_inv w \<and> backed w \<and> one_token w \<and> contents C w \<and> room s c w \<and>
     (\<forall>n \<in> set (db_nodes (w_db w)). ni_free n \<le> ni_capacity n)"

lemma contents_used:
  "contents C w \<Longrightarrow> h \<in> used_hashes (w_db w) \<Longrightarrow> hashData (C h) = h \<and> C h \<noteq> [] \<and> intact w (C h)"
  by (auto simp: contents_def used_hashes_def)

lemma same_manifests_used: "same_manifests db db' \<Longrightarrow> used_hashes db' = used_hashes db"
  by (simp add: same_manifests_def used_hashes_def)

lemma same_manifests_wanted: "same_manifests db db' \<Longrightarrow> wanted_by db' h = wanted_by db h"
  by (simp add: same_manifests_def wanted_by_def)

text \<open>What the nodes may take in without spoiling a content.\<close>

lemma evolves_contents:
  assumes "contents C w" and "world_inv w" and "evolves D (w_nodes w) (w_nodes w')" and "same_manifests (w_db w) (w_db w')"
    and "\<And>x. x \<in> D \<Longrightarrow> C (hashData x) = x"
  shows "contents C w'"
  unfolding contents_def
proof
  fix c assume "c \<in> set (db_fileChunks (w_db w'))"
  then have c: "c \<in> set (db_fileChunks (w_db w))" using assms(4) by (simp add: same_manifests_def)
  then have "intact w (C (ck_hash c))" "hashData (C (ck_hash c)) = ck_hash c" using assms(1) by (simp_all add: contents_def)
  then have "intact w' (C (ck_hash c))"
    by (intro evolves_intact [OF assms(3,2)]) (use assms(5) in \<open>metis\<close>)+
  with c assms(1) show "hashData (C (ck_hash c)) = ck_hash c \<and> ck_size c = int (length (C (ck_hash c))) \<and>
      C (ck_hash c) \<noteq> [] \<and> intact w' (C (ck_hash c))"
    by (simp add: contents_def)
qed

lemma evolves_one_token:
  assumes "one_token w" and "world_inv w" and "evolves D (w_nodes w) (w_nodes w')" and "w_token w' = w_token w"
  shows "one_token w'"
proof -
  have "\<forall>a n. w_nodes w a = Some n \<longrightarrow> node_inv n" using assms(2) by (simp add: world_inv_def)
  from evolves_nodes [OF assms(3) this] assms(1) show ?thesis unfolding one_token_def assms(4) by metis
qed

lemma sound_mono: "sound s C c w \<Longrightarrow> (\<And>i. c' i \<le> c i) \<Longrightarrow> sound s C c' w"
  unfolding sound_def using room_mono by blast

lemma sound_cong:
  assumes "w_db w' = w_db w" and "w_nodes w' = w_nodes w" and "w_token w' = w_token w"
  shows "sound s C c w' = sound s C c w"
  using assms by (simp add: sound_def contents_def room_def roomy_def world_inv_def backed_def holds_def one_token_def intact_def)

lemma sound_tick [simp]: "sound s C c (tick w) = sound s C c w"
  by (rule sound_cong) simp_all

subsection \<open>Making copies\<close>

lemma confirm_holders:
  assumes "\<And>i. eng i" and "\<exists>n \<in> set (db_nodes db). ni_id n = nid"
  shows "holders (snd (ConfirmChunk eng now h sz nid db)) h' = (if h' = h then insert nid (holders db h') else holders db h')"
  using assms by (auto simp: ConfirmChunk_def Let_def holders_iff)

lemma confirm_capacity:
  assumes "0 \<le> sz" and "\<forall>n \<in> set (db_nodes db). 0 \<le> ni_free n \<and> ni_free n \<le> ni_capacity n"
    and "n \<in> set (db_nodes (snd (ConfirmChunk eng now h sz nid db)))"
  shows "ni_free n \<le> ni_capacity n"
  using assms by (auto simp: ConfirmChunk_def Let_def take_space_def split: if_splits)

lemma copy_sound:
  assumes "in_time s e" and "sound s C c w" and "\<And>i. 0 \<le> c i" and n: "(i, a) \<in> addr_book (w_db w)"
    and "int (length d) \<le> c i" and "d \<noteq> []" and "C (hashData d) = d"
  obtains w1 w2 where "send_putChunk e a (hashData d) d w = (Inr (), w1)"
    "tell e (\<lambda>eng now. ConfirmChunk eng now (hashData d) (int (length d)) i) w1 = (Inr (), w2)"
    "sound s C (c(i := c i - int (length d))) w2" "addr_book (w_db w2) = addr_book (w_db w)"
    "same_manifests (w_db w) (w_db w2)"
    "\<And>h. holders (w_db w2) h = (if h = hashData d then insert i (holders (w_db w) h) else holders (w_db w) h)"
proof -
  have so: "world_inv w" "backed w" "one_token w" "contents C w" "room s c w"
    "\<forall>n \<in> set (db_nodes (w_db w)). ni_free n \<le> ni_capacity n"
    using assms(2) by (simp_all add: sound_def)
  have "0 < length d" using assms(6) by simp
  then show ?thesis
  proof (rule copy_quiet [OF assms(1) so(1,5) n assms(5)])
    fix w1 w2 :: World
    let ?f = "\<lambda>eng now. ConfirmChunk eng now (hashData d) (int (length d)) i"
    let ?eng = "ev_eng e (w_tick w1)" and ?now = "ev_now e (w_tick w1)"
    assume put: "send_putChunk e a (hashData d) d w = (Inr (), w1)" and conf: "tell e ?f w1 = (Inr (), w2)"
      and room: "room s (c(i := c i - int (length d))) w2" and book: "addr_book (w_db w2) = addr_book (w_db w)"
      and tok: "w_token w2 = w_token w"
    have db1: "w_db w1 = w_db w" using send_db(1) [of e a "hashData d" d w] put by simp
    have db2: "w_db w2 = snd (ConfirmChunk ?eng ?now (hashData d) (int (length d)) i (w_db w))"
      using tell_db(1) [of e ?f w1] conf by (simp add: db1)
    have man: "same_manifests (w_db w) (w_db w2)" by (simp add: db2)
    have nodes: "w_nodes w2 = w_nodes w1" using tell_world(1) [of e ?f w1] conf by simp
    have ev: "evolves {d} (w_nodes w) (w_nodes w2)"
      using send_evolves(1) [of d w e a "hashData d"] put by (simp add: nodes)
    have inv2: "world_inv w2" by (rule copy_inv [OF so(1) put conf])
    have b2: "backed w2" using put_confirm_backed(1) [OF so(1,2) put n, of "int (length d)"] conf by simp
    have eng: "?eng k" for k using assms(1) by (simp add: in_time_def quiet_def)
    have "\<forall>n \<in> set (db_nodes (w_db w)). 0 \<le> ni_free n \<and> ni_free n \<le> ni_capacity n"
      using so(5,6) assms(3) unfolding room_def by (meson order_trans)
    then have cap: "\<forall>n \<in> set (db_nodes (w_db w2)). ni_free n \<le> ni_capacity n"
      unfolding db2 using confirm_capacity [of "int (length d)" "w_db w"] by simp
    have "sound s C (c(i := c i - int (length d))) w2"
      unfolding sound_def using inv2 b2 room cap evolves_one_token [OF so(3,1) ev tok]
        evolves_contents [OF so(4,1) ev man] assms(7) by simp
    moreover have "holders (w_db w2) h = (if h = hashData d then insert i (holders (w_db w) h) else holders (w_db w) h)" for h
      unfolding db2 by (rule confirm_holders [OF eng]) (use n in \<open>auto simp: addr_book_def\<close>)
    ultimately show ?thesis using put conf book man by (intro that [of w1 w2]) simp_all
  qed
qed

lemma copy_loop_sound:
  assumes "in_time s e" and "sound s C c w" and "\<And>i. 0 \<le> c i" and "known w ns" and "distinct (map ni_id ns)"
    and "\<forall>n \<in> set ns. int (length d) \<le> c (ni_id n)" and "d \<noteq> []" and "C (hashData d) = d"
    and "rt_hash t = hashData d" and "rt_size t = int (length d)" and "k + int (length ns) \<le> rt_missing t"
  shows "sound s C (\<lambda>i. if i \<in> ni_id ` set ns then c i - int (length d) else c i) (copy_loop e t d ns k w) \<and>
    same_manifests (w_db w) (w_db (copy_loop e t d ns k w)) \<and>
    addr_book (w_db (copy_loop e t d ns k w)) = addr_book (w_db w) \<and>
    (\<forall>h. holders (w_db (copy_loop e t d ns k w)) h = holders (w_db w) h \<union> (if h = rt_hash t then ni_id ` set ns else {}))"
  using assms(2-6,11)
proof (induction ns arbitrary: c k w)
  case (Cons n ns)
  have n: "(ni_id n, ni_address n) \<in> addr_book (w_db w)" "int (length d) \<le> c (ni_id n)" using Cons.prems by simp_all
  show ?case
  proof (rule copy_sound [OF assms(1) Cons.prems(1,2) n assms(7,8)])
    fix w1 w2 :: World
    assume put: "send_putChunk e (ni_address n) (hashData d) d w = (Inr (), w1)"
      and conf: "tell e (\<lambda>eng now. ConfirmChunk eng now (hashData d) (int (length d)) (ni_id n)) w1 = (Inr (), w2)"
      and so: "sound s C (c(ni_id n := c (ni_id n) - int (length d))) w2"
      and book: "addr_book (w_db w2) = addr_book (w_db w)" and man: "same_manifests (w_db w) (w_db w2)"
      and hold: "\<And>h. holders (w_db w2) h = (if h = hashData d then insert (ni_id n) (holders (w_db w) h) else holders (w_db w) h)"
    let ?c = "c(ni_id n := c (ni_id n) - int (length d))" and ?w' = "copy_loop e t d ns (k + 1) w2"
    have new: "ni_id n \<notin> ni_id ` set ns" using Cons.prems(4) by simp
    have "\<forall>m \<in> set ns. int (length d) \<le> ?c (ni_id m)" using Cons.prems(5) new by (auto simp: image_iff)
    moreover have "known w2 ns" using Cons.prems(3) by (simp add: book)
    moreover have "0 \<le> ?c i" for i using Cons.prems(2) n(2) by simp
    moreover have "distinct (map ni_id ns)" "k + 1 + int (length ns) \<le> rt_missing t" using Cons.prems(4,6) by simp_all
    ultimately have ih: "sound s C (\<lambda>i. if i \<in> ni_id ` set ns then ?c i - int (length d) else ?c i) ?w'"
      "same_manifests (w_db w2) (w_db ?w')" "addr_book (w_db ?w') = addr_book (w_db w2)"
      "\<forall>h. holders (w_db ?w') h = holders (w_db w2) h \<union> (if h = rt_hash t then ni_id ` set ns else {})"
      using Cons.IH [OF so] by blast+
    have run: "copy_loop e t d (n # ns) k w = ?w'" using put conf Cons.prems(6) by (simp add: assms(9,10))
    have "sound s C (\<lambda>i. if i \<in> ni_id ` set (n # ns) then c i - int (length d) else c i) ?w'"
      by (rule sound_mono [OF ih(1)]) (use new in auto)
    then show ?case unfolding run using ih(2,3) book man same_manifests_trans
      by (auto simp: ih(4) hold assms(9))
  qed
qed simp

text \<open>
  A task of the replication list, as it stands while the earlier tasks of the list are worked
  off: the chunk has content of the stated size, some source holds it, and as many
  nodes are planned as copies are missing.
\<close>

definition task_ok :: "(string \<Rightarrow> bytes) \<Rightarrow> World \<Rightarrow> ReplicationTask \<Rightarrow> bool" where
  "task_ok C w t \<longleftrightarrow> rt_hash t \<in> used_hashes (w_db w) \<and> rt_size t = int (length (C (rt_hash t))) \<and>
     0 < rt_missing t \<and> int (length (rt_candidates t)) = rt_missing t \<and> known w (rt_candidates t) \<and>
     distinct (map ni_id (rt_candidates t)) \<and>
     (\<exists>n \<in> set (rt_sources t). (ni_id n, ni_address n) \<in> addr_book (w_db w) \<and> ni_id n \<in> holders (w_db w) (rt_hash t))"

lemma task_ok_later:
  assumes "task_ok C w t" and "same_manifests (w_db w) (w_db w')" and "addr_book (w_db w') = addr_book (w_db w)"
    and "holders (w_db w) (rt_hash t) \<subseteq> holders (w_db w') (rt_hash t)"
  shows "task_ok C w' t"
  using assms by (auto simp: task_ok_def same_manifests_used)

lemma fetch_source:
  assumes "quiet e" and "sound s C c w" and "task_ok C w t"
  obtains w1 where "fetchFromAny e (rt_sources t) (rt_hash t) w = (Inr (C (rt_hash t)), w1)"
    "w_db w1 = w_db w" "w_nodes w1 = w_nodes w" "w_token w1 = w_token w"
proof -
  let ?d = "C (rt_hash t)"
  have so: "world_inv w" "backed w" "one_token w" "contents C w" using assms(2) by (simp_all add: sound_def)
  have d: "hashData ?d = rt_hash t" "intact w ?d"
    using contents_used [OF so(4)] assms(3) by (simp_all add: task_ok_def)
  obtain n where n: "n \<in> set (rt_sources t)" "(ni_id n, ni_address n) \<in> addr_book (w_db w)"
    "ni_id n \<in> holders (w_db w) (rt_hash t)"
    using assms(3) by (auto simp: task_ok_def)
  then have "holds w (ni_address n) (rt_hash t)" using so(2) unfolding backed_def by blast
  then have "serves w (ni_address n) (hashData ?d)" using so(3) by (auto simp: holds_def serves_def one_token_def d(1))
  then have "fst (fetchFrom e None (rt_sources t) (rt_hash t) w) = Inr ?d"
    using fetchFrom_quiet [OF assms(1) d(2), of "rt_sources t" None] n(1) by (auto simp: d(1))
  then show ?thesis
    by (intro that [of "snd (fetchFromAny e (rt_sources t) (rt_hash t) w)"])
      (simp_all add: fetchFromAny_def prod_eq_iff)
qed

lemma replicate_loop_sound:
  assumes "in_time s e" and "sound s C (\<lambda>_. c) w" and "\<forall>t \<in> set ts. task_ok C w t" and "distinct (map rt_hash ts)"
    and "\<And>h. h \<in> used_hashes (w_db w) \<Longrightarrow> int (length (C h)) \<le> m" and "int (length ts) * m \<le> c" and "0 \<le> m"
  shows "sound s C (\<lambda>_. c - int (length ts) * m) (replicate_loop e ts w) \<and>
    same_manifests (w_db w) (w_db (replicate_loop e ts w)) \<and>
    addr_book (w_db (replicate_loop e ts w)) = addr_book (w_db w) \<and>
    (\<forall>h. holders (w_db (replicate_loop e ts w)) h =
       holders (w_db w) h \<union> (\<Union>t \<in> {t \<in> set ts. rt_hash t = h}. ni_id ` set (rt_candidates t)))"
  using assms(2-6)
proof (induction ts arbitrary: c w)
  case (Cons t ts)
  have q: "quiet e" using assms(1) by (simp add: in_time_def)
  let ?d = "C (rt_hash t)" and ?ns = "rt_candidates t"
  have ok: "task_ok C w t" using Cons.prems(2) by simp
  obtain w1 where f: "fetchFromAny e (rt_sources t) (rt_hash t) w = (Inr ?d, w1)"
    and w1: "w_db w1 = w_db w" "w_nodes w1 = w_nodes w" "w_token w1 = w_token w"
    using fetch_source [OF q Cons.prems(1) ok] by blast
  have "contents C w" using Cons.prems(1) by (simp add: sound_def)
  then have d: "hashData ?d = rt_hash t" "?d \<noteq> []" using contents_used ok by (auto simp: task_ok_def)
  have small: "int (length ?d) \<le> m" using Cons.prems(4) ok by (simp add: task_ok_def)
  have cm: "m + int (length ts) * m \<le> c" using Cons.prems(5) by (simp add: distrib_right)
  moreover have "0 \<le> int (length ts) * m" using assms(7) by simp
  ultimately have room: "m \<le> c" by linarith
  let ?w2 = "copy_loop e t ?d ?ns 0 w1"
  have so1: "sound s C (\<lambda>_. c) w1" using Cons.prems(1) sound_cong [OF w1] by simp
  have copy: "sound s C (\<lambda>i. if i \<in> ni_id ` set ?ns then c - int (length ?d) else c) ?w2"
    "same_manifests (w_db w1) (w_db ?w2)" "addr_book (w_db ?w2) = addr_book (w_db w1)"
    "\<forall>h. holders (w_db ?w2) h = holders (w_db w1) h \<union> (if h = rt_hash t then ni_id ` set ?ns else {})"
    using copy_loop_sound [OF assms(1) so1, of ?ns ?d t 0] ok d small room assms(7) by (auto simp: task_ok_def w1)
  have so2: "sound s C (\<lambda>_. c - m) ?w2" by (rule sound_mono [OF copy(1)]) (use small assms(7) in auto)
  have "\<forall>t' \<in> set ts. task_ok C ?w2 t'"
  proof
    fix t' assume "t' \<in> set ts"
    then have "task_ok C w t'" using Cons.prems(2) by simp
    then show "task_ok C ?w2 t'" by (rule task_ok_later) (use copy(2-4) in \<open>simp_all add: w1\<close>)
  qed
  moreover have "distinct (map rt_hash ts)" using Cons.prems(3) by simp
  moreover have "int (length (C h)) \<le> m" if "h \<in> used_hashes (w_db ?w2)" for h
    using Cons.prems(4) that same_manifests_used [OF copy(2)] by (simp add: w1)
  moreover have "int (length ts) * m \<le> c - m" using cm by simp
  ultimately have ih: "sound s C (\<lambda>_. c - m - int (length ts) * m) (replicate_loop e ts ?w2)"
    "same_manifests (w_db ?w2) (w_db (replicate_loop e ts ?w2))"
    "addr_book (w_db (replicate_loop e ts ?w2)) = addr_book (w_db ?w2)"
    "\<forall>h. holders (w_db (replicate_loop e ts ?w2)) h =
       holders (w_db ?w2) h \<union> (\<Union>t \<in> {t \<in> set ts. rt_hash t = h}. ni_id ` set (rt_candidates t))"
    using Cons.IH [OF so2] by blast+
  have ne: "rt_sources t \<noteq> []" "rt_candidates t \<noteq> []" "\<not> rt_missing t \<le> 0" using ok by (auto simp: task_ok_def)
  have run: "replicate_loop e (t # ts) w = replicate_loop e ts ?w2" using ne f d(1) by simp
  have "sound s C (\<lambda>_. c - int (length (t # ts)) * m) (replicate_loop e ts ?w2)"
    by (rule sound_mono [OF ih(1)]) (simp add: distrib_right)
  then show ?case unfolding run using ih(2,3) copy(2,3) same_manifests_trans
    by (auto simp: ih(4) copy(4) w1)
qed simp

subsection \<open>The replication pass\<close>

text \<open>The chunks with fewer copies than wanted, those with more, and the copies no manifest needs.\<close>

definition short_chunks :: "Db \<Rightarrow> string set" where
  "short_chunks db = {h \<in> used_hashes db. int (card (holders db h)) < Max (wanted_by db h)}"

definition surplus_chunks :: "Db \<Rightarrow> string set" where
  "surplus_chunks db = {h \<in> used_hashes db. Max (wanted_by db h) < int (card (holders db h))}"

definition orphan_copies :: "Db \<Rightarrow> (string \<times> string) set" where
  "orphan_copies db = {(h, i). h \<notin> used_hashes db \<and> i \<in> holders db h}"

lemma finite_used [simp]: "finite (used_hashes db)"
  by (simp add: used_hashes_def)

lemma finite_task_sets [simp]: "finite (short_chunks db)" "finite (surplus_chunks db)" "finite (orphan_copies db)"
proof -
  have "orphan_copies db \<subseteq> (\<lambda>l. (lo_hash l, lo_nodeID l)) ` set (db_locations db)"
    by (auto simp: orphan_copies_def holders_iff)
  then show "finite (orphan_copies db)" by (rule finite_subset) simp
qed (simp_all add: short_chunks_def surplus_chunks_def)

lemma finite_wanted [simp]: "finite (wanted_by db h)"
  by (rule finite_subset [of _ "fr_replication ` set (db_files db)"]) (auto simp: wanted_by_def)

lemma wanted_nonempty: "refs_ok db \<Longrightarrow> h \<in> used_hashes db \<Longrightarrow> wanted_by db h \<noteq> {}"
  by (fastforce simp: wanted_by_def used_hashes_def refs_ok_def)

lemma sound_wf: "sound s C c w \<Longrightarrow> db_wf (w_db w)"
  by (simp add: sound_def world_inv_def)

text \<open>Within the window every node is alive and online.\<close>

lemma sound_alive:
  assumes "in_time s e" and "sound s C c w" and "n \<in> set (db_nodes (w_db w))"
  shows "alive (ev_now e k) n" "ni_status (withDerivedStatus (ev_now e k) n) = ''online''"
proof -
  have "s \<le> ni_lastSeen n" "ni_status n = ''online''"
    using assms(2,3) sound_wf [OF assms(2)] by (simp_all add: sound_def room_def db_wf_def nodes_ok_def)
  then show "alive (ev_now e k) n" "ni_status (withDerivedStatus (ev_now e k) n) = ''online''"
    using in_time_online [OF assms(1)] by blast+
qed

lemma holders_known: "db_wf db \<Longrightarrow> holders db h \<subseteq> ni_id ` set (db_nodes db)"
  by (auto simp: holders_def wf_defs)

lemma sound_live:
  assumes "in_time s e" and "sound s C c w"
  shows "live_holders (ev_now e k) (w_db w) h = holders (w_db w) h"
    and "ni_id ` online_holders (ev_now e k) (w_db w) h = holders (w_db w) h"
    and "deficit (ev_now e k) (w_db w) h = Max (wanted_by (w_db w) h) - int (card (holders (w_db w) h))"
proof -
  note known = holders_known [OF sound_wf [OF assms(2)], of h]
  show live: "live_holders (ev_now e k) (w_db w) h = holders (w_db w) h"
    using known sound_alive(1) [OF assms] by (fastforce simp: live_holders_def)
  show "ni_id ` online_holders (ev_now e k) (w_db w) h = holders (w_db w) h"
    using known sound_alive(2) [OF assms] by (auto simp: online_holders_def image_iff) fastforce
  show "deficit (ev_now e k) (w_db w) h = Max (wanted_by (w_db w) h) - int (card (holders (w_db w) h))"
    by (simp add: deficit_def live)
qed

lemma hash_rows_size:
  assumes "r \<in> set (hash_rows now db)" and "\<forall>c \<in> set (db_fileChunks db). ck_hash c = hr_hash r \<longrightarrow> ck_size c = z"
  shows "hr_size r = z"
proof -
  let ?g = "filter (\<lambda>(c, f). ck_hash c = hr_hash r) (chunks_of_files db)"
  obtain c f where "(c, f) \<in> set (chunks_of_files db)" "ck_hash c = hr_hash r"
    and r: "hr_size r = max_of (map (\<lambda>(c, f). ck_size c) ?g)"
    using assms(1) by (auto simp: hash_rows_def Let_def)
  then have "?g \<noteq> []" by (auto simp: filter_empty_conv)
  moreover have "ck_size c = z" if "(c, f) \<in> set ?g" for c f
    using that assms(2) by (simp add: set_chunks_of_files)
  then have "set (map (\<lambda>(c, f). ck_size c) ?g) \<subseteq> {z}" by auto
  ultimately have "set (map (\<lambda>(c, f). ck_size c) ?g) = {z}" by (cases ?g) auto
  with r \<open>?g \<noteq> []\<close> show ?thesis by (simp only: max_of_Max map_is_Nil_conv not_False_eq_True Max_singleton)
qed

lemma plan_later: "eng 0 \<Longrightarrow> eng' 0 \<Longrightarrow> PlanChunkSpread eng now db h sz r c = PlanChunkSpread eng' now db h sz r c"
  by (simp add: PlanChunkSpread_take)

lemma replication_task_ok:
  assumes "in_time s e" and "sound s C (\<lambda>_. c) w" and "t \<in> set (ReplicationTasks (ev_eng e k) (ev_now e k) limit (w_db w))"
    and "\<forall>f \<in> set (db_files (w_db w)). fr_replication f \<le> table_size w"
    and "\<And>h. h \<in> used_hashes (w_db w) \<Longrightarrow> int (length (C h)) \<le> c \<and> holders (w_db w) h \<noteq> {}"
  shows "task_ok C w t \<and> rt_missing t = Max (wanted_by (w_db w) (rt_hash t)) - int (card (holders (w_db w) (rt_hash t))) \<and>
    ni_id ` set (rt_candidates t) \<inter> holders (w_db w) (rt_hash t) = {}"
proof -
  let ?db = "w_db w" and ?h = "rt_hash t" and ?now = "ev_now e k"
  have eng: "ev_eng e i j" for i j using assms(1) by (simp add: in_time_def quiet_def)
  have wf: "db_wf ?db" by (rule sound_wf [OF assms(2)])
  have so: "world_inv w" "contents C w" "room s (\<lambda>_. c) w" using assms(2) by (simp_all add: sound_def)
  let ?ts = "ReplicationTasks (ev_eng e k) ?now limit ?db"
  note list = replication_list [where eng = "ev_eng e k" and now = ?now and limit = limit, OF wf eng, unfolded Let_def]
  have used: "?h \<in> used_hashes ?db" and pos: "0 < deficit ?now ?db ?h" using list assms(3) by blast+
  have t: "rt_missing t = deficit ?now ?db ?h" "set (rt_sources t) = online_holders ?now ?db ?h"
    "distinct (map ni_id (rt_candidates t))" "\<forall>n \<in> set (rt_candidates t). ni_id n \<notin> holders ?db ?h"
    using list assms(3) by blast+
  have miss: "rt_missing t = Max (wanted_by ?db ?h) - int (card (holders ?db ?h))"
    using t(1) sound_live(3) [OF assms(1,2)] by simp
  obtain rows where "set rows \<subseteq> set (hash_rows ?now ?db)" "t \<in> set (replication_tasks (ev_eng e k) 1 ?now ?db rows)"
  proof -
    let ?rows = "sort_by missing_less (filter (\<lambda>r. hr_active r < hr_desired r) (hash_rows ?now ?db))"
    have "t \<in> set (replication_tasks (ev_eng e k) 1 ?now ?db (take (if limit \<le> 0 then 100 else nat limit) ?rows))"
      using assms(3) eng by (auto simp: ReplicationTasks_def Let_def split: if_splits)
    moreover have "set (take i ?rows) \<subseteq> set (hash_rows ?now ?db)" for i by (auto dest: in_set_takeD)
    ultimately show ?thesis by (intro that)
  qed
  note rows = this
  from rows(2) obtain r j where r: "r \<in> set rows" "?h = hr_hash r" "rt_size t = hr_size r"
    and cand: "rt_candidates t = PlanChunkSpread (later (j + 1) (ev_eng e k)) ?now ?db ?h (rt_size t) (rt_missing t) (\<lambda>_. 0)"
    by (cases rule: replication_tasks_row) auto
  have size: "rt_size t = int (length (C ?h))" unfolding r(3)
    by (rule hash_rows_size) (use r(1,2) rows(1) so(2) in \<open>auto simp: contents_def\<close>)
  have cand': "rt_candidates t = PlanChunkSpread (ev_eng e k) ?now ?db ?h (rt_size t) (rt_missing t) (\<lambda>_. 0)"
    unfolding cand by (rule plan_later) (simp_all add: later_def eng)
  have refs: "refs_ok ?db" using wf by (simp add: db_wf_def)
  have "Max (wanted_by ?db ?h) \<in> wanted_by ?db ?h" by (rule Max_in) (simp_all add: wanted_nonempty [OF refs used])
  then have "Max (wanted_by ?db ?h) \<le> table_size w" using assms(4) by (auto simp: wanted_by_def)
  then have len: "int (length (rt_candidates t)) = rt_missing t" unfolding cand'
    by (rule plan_enough [OF assms(1) so(1,3) eng _ miss]) (use t(1) pos assms(5) [OF used] size in simp_all)
  obtain i where "i \<in> holders ?db ?h" using assms(5) [OF used] by blast
  then have "i \<in> ni_id ` set (rt_sources t)" using sound_live(2) [OF assms(1,2)] by (simp add: t(2))
  then obtain n where n: "n \<in> online_holders ?now ?db ?h" by (auto simp: t(2))
  then have "n \<in> set (rt_sources t)" "ni_id n \<in> holders ?db ?h" "(ni_id n, ni_address n) \<in> addr_book ?db"
    using t(2) by (simp_all add: online_holders_def) (auto simp: addr_book_def)
  moreover have "known w (rt_candidates t)" unfolding cand using PlanChunkSpread_known by blast
  ultimately have "task_ok C w t" unfolding task_ok_def using used size len t(1,3) pos by auto
  with miss t(4) show ?thesis by auto
qed

text \<open>One pass makes up to a hundred chunks whole, all of them if there are no more.\<close>

lemma replication_pass:
  assumes "in_time s e" and "sound s C (\<lambda>_. c) w" and "100 * m \<le> c" and "0 \<le> m"
    and "\<forall>f \<in> set (db_files (w_db w)). fr_replication f \<le> table_size w"
    and "\<And>h. h \<in> used_hashes (w_db w) \<Longrightarrow> int (length (C h)) \<le> m \<and> holders (w_db w) h \<noteq> {}"
    and "w' = replicateMissingCopies e w"
  shows "sound s C (\<lambda>_. c - 100 * m) w'" "same_manifests (w_db w) (w_db w')"
    "\<And>h. holders (w_db w) h \<subseteq> holders (w_db w') h"
    "\<And>h. h \<notin> short_chunks (w_db w) \<Longrightarrow> holders (w_db w') h = holders (w_db w) h"
    "short_chunks (w_db w') \<subseteq> short_chunks (w_db w)"
    "card (short_chunks (w_db w')) = card (short_chunks (w_db w)) - 100"
    "\<And>h. h \<in> short_chunks (w_db w) - short_chunks (w_db w') \<Longrightarrow>
       int (card (holders (w_db w') h)) = Max (wanted_by (w_db w') h)"
proof -
  define ts where "ts = ReplicationTasks (ev_eng e (w_tick w)) (ev_now e (w_tick w)) 100 (w_db w)"
  let ?db = "w_db w" and ?db' = "w_db w'"
  have w': "w' = replicate_loop e ts (tick w)" by (simp add: assms(7) replicateMissingCopies_def ask_def ts_def)
  have eng: "ev_eng e i j" for i j using assms(1) by (simp add: in_time_def quiet_def)
  have wf: "db_wf ?db" by (rule sound_wf [OF assms(2)])
  have mc: "m \<le> c" using assms(3,4) by linarith
  have "int (length (C h)) \<le> c \<and> holders ?db h \<noteq> {}" if "h \<in> used_hashes ?db" for h
    using assms(6) [OF that] mc by simp
  note ok = replication_task_ok [OF assms(1,2) _ assms(5) this, of _ "w_tick w" 100, folded ts_def]
  note list = replication_list [where eng = "ev_eng e (w_tick w)" and now = "ev_now e (w_tick w)" and limit = 100,
      OF wf eng, unfolded Let_def, folded ts_def]
  have short: "{h \<in> used_hashes ?db. 0 < deficit (ev_now e (w_tick w)) ?db h} = short_chunks ?db"
    by (simp add: short_chunks_def sound_live(3) [OF assms(1,2)])
  have dist: "distinct (map rt_hash ts)" and sub: "rt_hash ` set ts \<subseteq> short_chunks ?db"
    using list unfolding short by blast+
  have len: "length ts = min 100 (card (short_chunks ?db))" using list unfolding short by simp
  have tm: "int (length ts) * m \<le> 100 * m" by (rule mult_right_mono) (simp_all add: len assms(4))
  have "task_ok C (tick w) t = task_ok C w t" for t by (simp add: task_ok_def)
  then have "\<forall>t \<in> set ts. task_ok C (tick w) t" using ok [THEN conjunct1] by blast
  from replicate_loop_sound [OF assms(1) _ this dist, of c m, folded w'] assms(2,4,6) tm assms(3)
  have loop: "sound s C (\<lambda>_. c - int (length ts) * m) w'" "same_manifests ?db ?db'"
    "\<And>h. holders ?db' h = holders ?db h \<union> (\<Union>t \<in> {t \<in> set ts. rt_hash t = h}. ni_id ` set (rt_candidates t))"
    by simp_all
  show "sound s C (\<lambda>_. c - 100 * m) w'" by (rule sound_mono [OF loop(1)]) (use tm in simp)
  show man: "same_manifests ?db ?db'" by (rule loop(2))
  show "holders ?db h \<subseteq> holders ?db' h" for h by (simp add: loop(3))
  have other: "holders ?db' h = holders ?db h" if "h \<notin> rt_hash ` set ts" for h
    using that by (auto simp: loop(3))
  then show "holders ?db' h = holders ?db h" if "h \<notin> short_chunks ?db" for h using that sub by blast
  have whole: "int (card (holders ?db' h)) = Max (wanted_by ?db' h)" if h: "h \<in> rt_hash ` set ts" for h
  proof -
    obtain t where t: "t \<in> set ts" "rt_hash t = h" using h by blast
    have one: "{t' \<in> set ts. rt_hash t' = h} = {t}" using t dist by (auto simp: distinct_map inj_on_def)
    have tok: "task_ok C w t" "rt_missing t = Max (wanted_by ?db h) - int (card (holders ?db h))"
      "ni_id ` set (rt_candidates t) \<inter> holders ?db h = {}" using ok [OF t(1)] t(2) by simp_all
    have "holders ?db' h = holders ?db h \<union> ni_id ` set (rt_candidates t)" unfolding loop(3) one by simp
    then have "card (holders ?db' h) = card (holders ?db h) + card (ni_id ` set (rt_candidates t))"
      using tok(3) by (simp add: card_Un_disjoint Int_commute)
    moreover have "card (ni_id ` set (rt_candidates t)) = length (rt_candidates t)"
      using tok(1) distinct_card [of "map ni_id (rt_candidates t)"] by (simp add: task_ok_def)
    ultimately show ?thesis using tok by (simp add: task_ok_def same_manifests_wanted [OF man])
  qed
  have "h \<in> short_chunks ?db' \<longleftrightarrow> h \<in> short_chunks ?db \<and> h \<notin> rt_hash ` set ts" for h
    using whole [of h] other [of h]
    by (cases "h \<in> rt_hash ` set ts") (simp_all add: short_chunks_def same_manifests_used [OF man] same_manifests_wanted [OF man])
  then have eq: "short_chunks ?db' = short_chunks ?db - rt_hash ` set ts" by blast
  then show "short_chunks ?db' \<subseteq> short_chunks ?db" by blast
  have "card (rt_hash ` set ts) = length ts" using distinct_card [OF dist] by simp
  then show "card (short_chunks ?db') = card (short_chunks ?db) - 100"
    unfolding eq using card_Diff_subset [OF _ sub] by (simp add: len)
  show "int (card (holders ?db' h)) = Max (wanted_by ?db' h)" if "h \<in> short_chunks ?db - short_chunks ?db'" for h
    by (rule whole) (use that eq in blast)
qed

end
