(* ===== verification/Convergence.thy ===== *)
theory Convergence
  imports Replication
begin

text \<open>
  A whole run of the scheduler without failures: the cleaning and the pruning pass delete what
  is not wanted, the replication pass makes what is missing, and together they bring the
  copies of every chunk to the number its manifests ask for.
\<close>

subsection \<open>Deleting copies\<close>

lemma Delete_quiet:
  assumes "io_ok io 0" and "store_inv s" and "h \<in> range hashData"
  shows "fst (Delete io s h) = Inr ()" "Used (snd (Delete io s h)) \<le> Used s"
proof -
  obtain p where p: "Path s h = Inr p" using assms(3) Path_hashData by blast
  have "0 \<le> st_used s" by (rule store_inv_used [OF assms(2)])
  moreover have "0 \<le> fileSize fs p" for fs p by (simp add: fileSize_def split: option.split)
  ultimately show "fst (Delete io s h) = Inr ()" "Used (snd (Delete io s h)) \<le> Used s"
    using assms(1) by (auto simp: Delete_def Used_def addUsed_def Let_def p split: option.split)
qed

lemma delete_quiet:
  assumes "quiet e" and "world_inv w" and "h \<in> range hashData" and "roomy w c a"
  obtains w1 nd nd1 where "send_deleteChunk e a h w = (Inr (), w1)" "w_db w1 = w_db w" "w_token w1 = w_token w"
    "w_nodes w a = Some nd" "w_nodes w1 = (w_nodes w)(a \<mapsto> nd1)" "nd_token nd1 = nd_token nd"
    "nd_capacity nd1 = nd_capacity nd" "Used (nd_store nd1) \<le> Used (nd_store nd)"
proof -
  let ?r = "node_request ''DELETE'' (''/chunks/'' @ h) []" and ?io = "ev_io e (w_tick w)"
  let ?rq = "RoundTrip (w_token w) ?r"
  obtain nd where nd: "w_nodes w a = Some nd" "nd_token nd = TrimSpace (w_token w)" using assms(4) by (auto simp: roomy_def)
  have inv: "store_inv (nd_store nd)" using assms(2) nd(1) by (auto simp: world_inv_def node_inv_def)
  have io: "io_ok ?io 0" using assms(1) by (simp add: quiet_def)
  note del = Delete_quiet [OF io inv assms(3)]
  have path: "chunk_path_hash (rq_path ?rq) = h" by (rule chunk_path_hash_simp) simp
  have "HasPrefix (rq_path ?rq) ''/chunks/''" by simp
  from node_handler_chunks(2) [OF this] nd(2) have "node_handler ?io ?rq nd = deleteChunk ?io ?rq nd" by simp
  also have "\<dots> = (respond StatusOK (NodeStatus ''deleted''), nd\<lparr>nd_store := snd (Delete ?io (nd_store nd) h)\<rparr>)"
    unfolding deleteChunk_def Let_def path using del(1) by (cases "Delete ?io (nd_store nd) h") simp
  finally have "Do e a ?r w = (Some (respond StatusOK (NodeStatus ''deleted''), True),
      tick (w\<lparr>w_nodes := (w_nodes w)(a \<mapsto> nd\<lparr>nd_store := snd (Delete ?io (nd_store nd) h)\<rparr>)\<rparr>))"
    by (simp add: Do_quiet [OF assms(1)] nd(1))
  with nd(1) del(2) show ?thesis
    by (intro that [of "tick (w\<lparr>w_nodes := (w_nodes w)(a \<mapsto> nd\<lparr>nd_store := snd (Delete ?io (nd_store nd) h)\<rparr>)\<rparr>)" nd
        "nd\<lparr>nd_store := snd (Delete ?io (nd_store nd) h)\<rparr>"])
      (simp_all add: send_deleteChunk_def)
qed

lemma remove_quiet:
  assumes "\<And>k. eng k"
  obtains db' where "RemoveChunkLocation eng h i db = Some db'" "same_manifests db db'"
    "\<And>n'. n' \<in> set (db_nodes db') \<Longrightarrow> \<exists>n \<in> set (db_nodes db). ni_id n' = ni_id n \<and> ni_address n' = ni_address n \<and>
       ni_lastSeen n' = ni_lastSeen n \<and> ni_capacity n' = ni_capacity n \<and>
       (ni_free n \<le> ni_capacity n \<longrightarrow> ni_free n \<le> ni_free n' \<and> ni_free n' \<le> ni_capacity n')"
proof -
  obtain db' where db': "RemoveChunkLocation eng h i db = Some db'"
    using assms by (simp add: RemoveChunkLocation_def Let_def)
  then have "same_manifests db db'"
    by (auto simp: RemoveChunkLocation_def same_manifests_def Let_def split: if_splits)
  with db' show ?thesis
    by (intro that [of db'])
      (auto simp: RemoveChunkLocation_def give_space_def Let_def split: if_splits option.splits, auto)
qed

lemma delete_sound:
  assumes "quiet e" and "sound s C c w" and "(i, a) \<in> addr_book (w_db w)" and "h \<in> range hashData"
  obtains w1 w2 where "send_deleteChunk e a h w = (Inr (), w1)" "removeLocation e h i w1 = (True, w2)"
    "sound s C c w2" "addr_book (w_db w2) = addr_book (w_db w)" "same_manifests (w_db w) (w_db w2)"
    "\<And>h'. holders (w_db w2) h' = (if h' = h then holders (w_db w) h' - {i} else holders (w_db w) h')"
proof -
  have so: "world_inv w" "backed w" "one_token w" "contents C w" "room s c w"
    "\<forall>n \<in> set (db_nodes (w_db w)). ni_free n \<le> ni_capacity n"
    using assms(2) by (simp_all add: sound_def)
  obtain m where m: "m \<in> set (db_nodes (w_db w))" "ni_id m = i" "ni_address m = a"
    using assms(3) by (auto simp: addr_book_def)
  then have "roomy w (c i) a" using so(5) unfolding room_def by blast
  then obtain w1 nd nd1 where del: "send_deleteChunk e a h w = (Inr (), w1)" and w1: "w_db w1 = w_db w" "w_token w1 = w_token w"
    "w_nodes w a = Some nd" "w_nodes w1 = (w_nodes w)(a \<mapsto> nd1)" "nd_token nd1 = nd_token nd"
    "nd_capacity nd1 = nd_capacity nd" "Used (nd_store nd1) \<le> Used (nd_store nd)"
    using delete_quiet [OF assms(1) so(1) assms(4)] by blast
  have eng: "ev_eng e (w_tick w1) k" for k using assms(1) by (simp add: quiet_def)
  obtain db' where db': "RemoveChunkLocation (ev_eng e (w_tick w1)) h i (w_db w) = Some db'" "same_manifests (w_db w) db'"
    and nodes: "\<And>n'. n' \<in> set (db_nodes db') \<Longrightarrow> \<exists>n \<in> set (db_nodes (w_db w)). ni_id n' = ni_id n \<and>
       ni_address n' = ni_address n \<and> ni_lastSeen n' = ni_lastSeen n \<and> ni_capacity n' = ni_capacity n \<and>
       (ni_free n \<le> ni_capacity n \<longrightarrow> ni_free n \<le> ni_free n' \<and> ni_free n' \<le> ni_capacity n')"
    using remove_quiet [of "ev_eng e (w_tick w1)", OF eng] by metis
  let ?w2 = "tick (w1\<lparr>w_db := db'\<rparr>)"
  have rem: "removeLocation e h i w1 = (True, ?w2)" using db'(1) by (simp add: removeLocation_def w1(1))
  note dr = delete_remove_backed [OF so(2) assms(3,4) del rem]
  have "world_inv w1" using send_inv(2) [OF so(1), of e a h] del by simp
  then have inv2: "world_inv ?w2" using removeLocation_inv [of w1 e h i] rem by simp
  have ev: "evolves {} (w_nodes w) (w_nodes ?w2)" using send_evolves(2) [of "{}" w e a h] del by simp
  have man: "same_manifests (w_db w) (w_db ?w2)" using db'(2) by simp
  have rm: "roomy ?w2 c' a'" if "roomy w c' a'" for c' a'
    using that w1(3,5-7) by (auto simp: roomy_def w1(2,4))
  have "s \<le> ni_lastSeen n \<and> c (ni_id n) \<le> ni_free n \<and> roomy ?w2 (c (ni_id n)) (ni_address n) \<and> ni_free n \<le> ni_capacity n"
    if n: "n \<in> set (db_nodes db')" for n
  proof -
    obtain n0 where n0: "n0 \<in> set (db_nodes (w_db w))" "ni_id n = ni_id n0" "ni_address n = ni_address n0"
      "ni_lastSeen n = ni_lastSeen n0" "ni_free n0 \<le> ni_free n" "ni_free n \<le> ni_capacity n"
      using nodes [OF n] so(6) by metis
    have "s \<le> ni_lastSeen n0" "c (ni_id n0) \<le> ni_free n0" "roomy w (c (ni_id n0)) (ni_address n0)"
      using so(5) n0(1) by (simp_all add: room_def)
    with n0 rm show ?thesis by simp
  qed
  moreover have book: "addr_book (w_db ?w2) = addr_book (w_db w)" by (rule dr(2))
  ultimately have "room s c ?w2" "\<forall>n \<in> set (db_nodes (w_db ?w2)). ni_free n \<le> ni_capacity n"
    using so(5) unfolding room_def book by simp_all
  moreover have "one_token ?w2" by (rule evolves_one_token [OF so(3,1) ev]) (simp add: w1(2))
  moreover have "contents C ?w2" by (rule evolves_contents [OF so(4,1) ev man]) simp
  ultimately have "sound s C c ?w2" unfolding sound_def using inv2 dr(1) by simp
  moreover have "holders (w_db ?w2) h' = (if h' = h then holders (w_db w) h' - {i} else holders (w_db w) h')" for h'
    using remove_facts(2) [OF db'(1)] by simp
  ultimately show ?thesis using del rem book man by (intro that [of w1 ?w2]) simp_all
qed

lemma prune_copies_sound:
  assumes "quiet e" and "pt_hash t \<in> range hashData" and "pt_active t - pt_desired t = pt_extra t"
    and "sound s C c w" and "known w ns"
  shows "\<exists>w'. prune_copies e t ns k w = (True, w') \<and> sound s C c w' \<and> addr_book (w_db w') = addr_book (w_db w) \<and>
    same_manifests (w_db w) (w_db w') \<and>
    (\<forall>h. holders (w_db w') h = holders (w_db w) h - (if h = pt_hash t then ni_id ` set (take (nat (pt_extra t - k)) ns) else {}))"
  using assms(4,5)
proof (induction ns arbitrary: k w)
  case (Cons n ns)
  show ?case
  proof (cases "pt_extra t \<le> k")
    case True
    with Cons.prems show ?thesis by (intro exI [of _ w]) simp
  next
    case False
    have "(ni_id n, ni_address n) \<in> addr_book (w_db w)" using Cons.prems by simp
    then obtain w1 w2 where run: "send_deleteChunk e (ni_address n) (pt_hash t) w = (Inr (), w1)"
      "removeLocation e (pt_hash t) (ni_id n) w1 = (True, w2)"
      and so: "sound s C c w2" and book: "addr_book (w_db w2) = addr_book (w_db w)" and man: "same_manifests (w_db w) (w_db w2)"
      and hold: "\<And>h. holders (w_db w2) h = (if h = pt_hash t then holders (w_db w) h - {ni_id n} else holders (w_db w) h)"
      using delete_sound [OF assms(1) Cons.prems(1) _ assms(2)] by metis
    have "known w2 ns" using Cons.prems(2) by (simp add: book)
    then obtain w' where ih: "prune_copies e t ns (k + 1) w2 = (True, w')" "sound s C c w'"
      "addr_book (w_db w') = addr_book (w_db w2)" "same_manifests (w_db w2) (w_db w')"
      "\<And>h. holders (w_db w') h = holders (w_db w2) h - (if h = pt_hash t then ni_id ` set (take (nat (pt_extra t - (k + 1))) ns) else {})"
      using Cons.IH [OF so, of "k + 1"] by metis
    have "nat (pt_extra t - k) = Suc (nat (pt_extra t - (k + 1)))" using False by simp
    then have "holders (w_db w') h = holders (w_db w) h - (if h = pt_hash t then ni_id ` set (take (nat (pt_extra t - k)) (n # ns)) else {})" for h
      by (auto simp: ih(5) hold)
    then show ?thesis using run ih(1-4) book False assms(3) same_manifests_trans [OF man ih(4)]
      by (intro exI [of _ w']) auto
  qed
qed simp

subsection \<open>The pruning pass\<close>

lemma prune_loop_sound:
  assumes "quiet e" and "sound s C c w" and "distinct (map pt_hash ts)"
    and "\<forall>t \<in> set ts. pt_hash t \<in> range hashData \<and> pt_active t - pt_desired t = pt_extra t \<and> known w (pt_locations t)"
  shows "\<exists>w'. prune_loop e ts w = (True, w') \<and> sound s C c w' \<and> addr_book (w_db w') = addr_book (w_db w) \<and>
    same_manifests (w_db w) (w_db w') \<and>
    (\<forall>h. holders (w_db w') h =
       holders (w_db w) h - (\<Union>t \<in> {t \<in> set ts. pt_hash t = h}. ni_id ` set (take (nat (pt_extra t)) (pt_locations t))))"
  using assms(2-4)
proof (induction ts arbitrary: w)
  case Nil
  then show ?case by (intro exI [of _ w]) simp
next
  case (Cons t ts)
  let ?gone = "\<lambda>t. ni_id ` set (take (nat (pt_extra t)) (pt_locations t))"
  have t: "pt_hash t \<in> range hashData" "pt_active t - pt_desired t = pt_extra t" "known w (pt_locations t)"
    using Cons.prems(3) by simp_all
  obtain w1 where p: "prune_copies e t (pt_locations t) 0 w = (True, w1)" "sound s C c w1"
    "addr_book (w_db w1) = addr_book (w_db w)" "same_manifests (w_db w) (w_db w1)"
    "\<And>h. holders (w_db w1) h = holders (w_db w) h - (if h = pt_hash t then ?gone t else {})"
    using prune_copies_sound [OF assms(1) t(1,2) Cons.prems(1) t(3), of 0] by auto
  have "distinct (map pt_hash ts)" using Cons.prems(2) by simp
  moreover have "\<forall>t \<in> set ts. pt_hash t \<in> range hashData \<and> pt_active t - pt_desired t = pt_extra t \<and> known w1 (pt_locations t)"
    using Cons.prems(3) by (simp add: p(3))
  ultimately obtain w' where ih: "prune_loop e ts w1 = (True, w')" "sound s C c w'"
    "addr_book (w_db w') = addr_book (w_db w1)" "same_manifests (w_db w1) (w_db w')"
    "\<And>h. holders (w_db w') h = holders (w_db w1) h - (\<Union>t \<in> {t \<in> set ts. pt_hash t = h}. ?gone t)"
    using Cons.IH [OF p(2)] by blast
  have run: "prune_loop e (t # ts) w = (True, w')"
  proof (cases "pt_extra t \<le> 0")
    case True
    then have "prune_copies e t (pt_locations t) 0 w = (True, w)" by (cases "pt_locations t") simp_all
    with p(1) ih(1) True show ?thesis by simp
  qed (use p(1) ih(1) in simp)
  have "holders (w_db w') h = holders (w_db w) h - (\<Union>x \<in> {x \<in> set (t # ts). pt_hash x = h}. ?gone x)" for h
    by (auto simp: ih(5) p(5))
  then show ?case using run ih(2,3) p(3) same_manifests_trans [OF p(4) ih(4)] by (intro exI [of _ w']) simp
qed

lemma pruning_pass:
  assumes "in_time s e" and "sound s C c w" and "\<forall>f \<in> set (db_files (w_db w)). 0 \<le> fr_replication f"
  obtains w' where "pruneExtraCopies e w = (True, w')" "sound s C c w'" "same_manifests (w_db w) (w_db w')"
    "addr_book (w_db w') = addr_book (w_db w)"
    "\<And>h. holders (w_db w') h \<subseteq> holders (w_db w) h"
    "\<And>h. h \<notin> surplus_chunks (w_db w) \<Longrightarrow> holders (w_db w') h = holders (w_db w) h"
    "surplus_chunks (w_db w') \<subseteq> surplus_chunks (w_db w)"
    "card (surplus_chunks (w_db w')) = card (surplus_chunks (w_db w)) - 100"
    "\<And>h. h \<in> surplus_chunks (w_db w) - surplus_chunks (w_db w') \<Longrightarrow>
       int (card (holders (w_db w') h)) = Max (wanted_by (w_db w') h)"
proof -
  define ts where "ts = PruneTasks (ev_eng e (w_tick w)) (ev_now e (w_tick w)) 100 (w_db w)"
  let ?db = "w_db w" and ?now = "ev_now e (w_tick w)"
  let ?gone = "\<lambda>t. ni_id ` set (take (nat (pt_extra t)) (pt_locations t))"
  have q: "quiet e" using assms(1) by (simp add: in_time_def)
  have eng: "ev_eng e i j" for i j using q by (simp add: quiet_def)
  have wf: "db_wf ?db" by (rule sound_wf [OF assms(2)])
  have surplus: "{h \<in> used_hashes ?db. deficit ?now ?db h < 0} = surplus_chunks ?db"
    by (simp add: surplus_chunks_def sound_live(3) [OF assms(1,2)])
  note list = prune_list [where eng = "ev_eng e (w_tick w)" and now = ?now and limit = 100, OF wf eng, folded ts_def, unfolded surplus]
  have con: "contents C w" using assms(2) by (simp add: sound_def)
  have "pt_hash t \<in> range hashData" if "t \<in> set ts" for t
  proof -
    have "pt_hash t \<in> used_hashes ?db" using list(2) that by (auto simp: surplus_chunks_def)
    then show ?thesis using contents_used [OF con] by (metis rangeI)
  qed
  moreover have "known (tick w) (pt_locations t)" if "t \<in> set ts" for t
    using list(4) [OF that] by (auto simp: online_holders_def addr_book_def)
  ultimately have "\<forall>t \<in> set ts. pt_hash t \<in> range hashData \<and> pt_active t - pt_desired t = pt_extra t \<and> known (tick w) (pt_locations t)"
    using list(4) by blast
  then obtain w' where loop: "prune_loop e ts (tick w) = (True, w')" "sound s C c w'" "addr_book (w_db w') = addr_book ?db"
    "same_manifests ?db (w_db w')"
    "\<And>h. holders (w_db w') h = holders ?db h - (\<Union>t \<in> {t \<in> set ts. pt_hash t = h}. ?gone t)"
    using prune_loop_sound [OF q _ list(1), of s C c "tick w"] assms(2) by auto
  note man = loop(4)
  have other: "holders (w_db w') h = holders ?db h" if "h \<notin> pt_hash ` set ts" for h using that by (auto simp: loop(5))
  have whole: "int (card (holders (w_db w') h)) = Max (wanted_by (w_db w') h)" if h: "h \<in> pt_hash ` set ts" for h
  proof -
    obtain t where t: "t \<in> set ts" "pt_hash t = h" using h by blast
    have one: "{t' \<in> set ts. pt_hash t' = h} = {t}" using t list(1) by (auto simp: distinct_map inj_on_def)
    have used: "h \<in> used_hashes ?db" and neg: "Max (wanted_by ?db h) < int (card (holders ?db h))"
      using list(2) h by (auto simp: surplus_chunks_def)
    have extra: "pt_extra t = int (card (holders ?db h)) - Max (wanted_by ?db h)"
      and ids: "ni_id ` set (pt_locations t) = holders ?db h" and dist: "distinct (map ni_id (pt_locations t))"
      using list(4) [OF t(1)] sound_live [OF assms(1,2)] by (simp_all add: t(2))
    have "refs_ok ?db" using wf by (simp add: db_wf_def)
    then have "Max (wanted_by ?db h) \<in> wanted_by ?db h" by (intro Max_in) (simp_all add: wanted_nonempty [OF _ used])
    then have "0 \<le> Max (wanted_by ?db h)" using assms(3) by (auto simp: wanted_by_def)
    moreover have len: "length (pt_locations t) = card (holders ?db h)" using distinct_card [OF dist] by (simp add: ids)
    moreover have "card (?gone t) = min (nat (pt_extra t)) (length (pt_locations t))"
      using distinct_card [OF distinct_map_take [OF dist]] by (simp add: min.commute)
    ultimately have "card (?gone t) = nat (pt_extra t)" using extra by linarith
    moreover have sub: "?gone t \<subseteq> holders ?db h" unfolding ids [symmetric] by (auto dest: in_set_takeD)
    moreover have "card (?gone t) \<le> card (holders ?db h)" by (rule card_mono [OF finite_holders sub])
    moreover have "holders (w_db w') h = holders ?db h - ?gone t" unfolding loop(5) one by simp
    moreover have "card (holders ?db h - ?gone t) = card (holders ?db h) - card (?gone t)"
      by (rule card_Diff_subset [OF _ sub]) simp
    ultimately have "int (card (holders (w_db w') h)) = int (card (holders ?db h)) - pt_extra t"
      using neg extra by simp
    then show ?thesis using extra same_manifests_wanted [OF man] by simp
  qed
  have "h \<in> surplus_chunks (w_db w') \<longleftrightarrow> h \<in> surplus_chunks ?db \<and> h \<notin> pt_hash ` set ts" for h
    using whole [of h] other [of h]
    by (cases "h \<in> pt_hash ` set ts") (simp_all add: surplus_chunks_def same_manifests_used [OF man] same_manifests_wanted [OF man])
  then have eq: "surplus_chunks (w_db w') = surplus_chunks ?db - pt_hash ` set ts" by blast
  have card: "card (pt_hash ` set ts) = length ts" using distinct_card [OF list(1)] by simp
  show ?thesis
  proof (rule that)
    show "pruneExtraCopies e w = (True, w')" by (simp add: pruneExtraCopies_def ask_def loop(1) flip: ts_def)
    show "holders (w_db w') h \<subseteq> holders ?db h" for h by (auto simp: loop(5))
    show "holders (w_db w') h = holders ?db h" if "h \<notin> surplus_chunks ?db" for h
      by (rule other) (use that list(2) in blast)
    show "surplus_chunks (w_db w') \<subseteq> surplus_chunks ?db" by (simp add: eq Diff_subset)
    show "card (surplus_chunks (w_db w')) = card (surplus_chunks ?db) - 100"
      unfolding eq using card_Diff_subset [OF _ list(2)] by (simp add: card list(3))
    show "int (card (holders (w_db w') h)) = Max (wanted_by (w_db w') h)"
      if "h \<in> surplus_chunks ?db - surplus_chunks (w_db w')" for h
      by (rule whole) (use that eq in blast)
  qed (fact loop)+
qed

subsection \<open>The cleaning pass\<close>

definition orphan_copy :: "OrphanChunkTask \<Rightarrow> string \<times> string" where
  "orphan_copy t = (ot_hash t, ni_id (ot_node t))"

lemma cleanup_loop_sound:
  assumes "quiet e" and "sound s C c w"
    and "\<forall>t \<in> set ts. ot_hash t \<in> range hashData \<and> (ni_id (ot_node t), ni_address (ot_node t)) \<in> addr_book (w_db w)"
  shows "\<exists>w'. cleanup_loop e ts w = (True, w') \<and> sound s C c w' \<and> addr_book (w_db w') = addr_book (w_db w) \<and>
    same_manifests (w_db w) (w_db w') \<and>
    (\<forall>h i. i \<in> holders (w_db w') h \<longleftrightarrow> i \<in> holders (w_db w) h \<and> (h, i) \<notin> orphan_copy ` set ts)"
  using assms(2,3)
proof (induction ts arbitrary: w)
  case Nil
  then show ?case by (intro exI [of _ w]) simp
next
  case (Cons t ts)
  let ?n = "ot_node t"
  have t: "ot_hash t \<in> range hashData" "(ni_id ?n, ni_address ?n) \<in> addr_book (w_db w)" using Cons.prems(2) by simp_all
  obtain w1 w2 where run: "send_deleteChunk e (ni_address ?n) (ot_hash t) w = (Inr (), w1)"
    "removeLocation e (ot_hash t) (ni_id ?n) w1 = (True, w2)"
    and so: "sound s C c w2" and book: "addr_book (w_db w2) = addr_book (w_db w)" and man: "same_manifests (w_db w) (w_db w2)"
    and hold: "\<And>h. holders (w_db w2) h = (if h = ot_hash t then holders (w_db w) h - {ni_id ?n} else holders (w_db w) h)"
    using delete_sound [OF assms(1) Cons.prems(1) t(2,1)] by metis
  have "\<forall>t \<in> set ts. ot_hash t \<in> range hashData \<and> (ni_id (ot_node t), ni_address (ot_node t)) \<in> addr_book (w_db w2)"
    using Cons.prems(2) by (simp add: book)
  then obtain w' where ih: "cleanup_loop e ts w2 = (True, w')" "sound s C c w'"
    "addr_book (w_db w') = addr_book (w_db w2)" "same_manifests (w_db w2) (w_db w')"
    "\<And>h i. i \<in> holders (w_db w') h \<longleftrightarrow> i \<in> holders (w_db w2) h \<and> (h, i) \<notin> orphan_copy ` set ts"
    using Cons.IH [OF so] by metis
  have "i \<in> holders (w_db w') h \<longleftrightarrow> i \<in> holders (w_db w) h \<and> (h, i) \<notin> orphan_copy ` set (t # ts)" for h i
    by (auto simp: ih(5) hold orphan_copy_def)
  then show ?case using run ih(1-3) book same_manifests_trans [OF man ih(4)] by (intro exI [of _ w']) simp
qed

lemma filter_key: "distinct (map f xs) \<Longrightarrow> x \<in> set xs \<Longrightarrow> filter (\<lambda>y. f y = f x) xs = [x]"
  by (induction xs) (auto simp: filter_empty_conv rev_image_eqI)

text \<open>Within the window the query's rows are the locations no manifest needs, each once.\<close>

lemma orphan_rows_copies:
  assumes "in_time s e" and "sound s C c w"
  shows "map orphan_copy (orphan_rows (ev_now e k) (w_db w)) =
    map (\<lambda>l. (lo_hash l, lo_nodeID l)) (filter (\<lambda>l. lo_hash l \<notin> used_hashes (w_db w)) (db_locations (w_db w)))"
proof -
  let ?db = "w_db w" and ?now = "ev_now e k"
  have wf: "db_wf ?db" by (rule sound_wf [OF assms(2)])
  have "map orphan_copy (map (\<lambda>n. \<lparr>ot_hash = lo_hash l, ot_size = lo_size l, ot_node = n\<rparr>)
      (filter (\<lambda>n. ni_id n = lo_nodeID l \<and> cutoff ?now \<le> ni_lastSeen n) (db_nodes ?db))) = [(lo_hash l, lo_nodeID l)]"
    if l: "l \<in> set (db_locations ?db)" for l
  proof -
    obtain n where n: "n \<in> set (db_nodes ?db)" "ni_id n = lo_nodeID l" using wf l by (auto simp: wf_defs)
    have "cutoff ?now \<le> ni_lastSeen m" if "m \<in> set (db_nodes ?db)" for m
      using sound_alive(1) [OF assms that] by (simp add: alive_def)
    then have "filter (\<lambda>m. ni_id m = lo_nodeID l \<and> cutoff ?now \<le> ni_lastSeen m) (db_nodes ?db) =
        filter (\<lambda>m. ni_id m = ni_id n) (db_nodes ?db)"
      by (intro filter_cong) (simp_all add: n(2))
    also have "\<dots> = [n]" by (rule filter_key [OF _ n(1)]) (use wf in \<open>simp add: wf_defs\<close>)
    finally show ?thesis by (simp add: orphan_copy_def n(2))
  qed
  moreover have "(\<exists>c \<in> set (db_fileChunks ?db). ck_hash c = h) \<longleftrightarrow> h \<in> used_hashes ?db" for h
    by (auto simp: used_hashes_def)
  ultimately have "map orphan_copy (orphan_rows ?now ?db) = concat (map (\<lambda>l. [(lo_hash l, lo_nodeID l)])
      (filter (\<lambda>l. lo_hash l \<notin> used_hashes ?db) (db_locations ?db)))"
    unfolding orphan_rows_def map_concat map_map by (intro arg_cong [of _ _ concat] map_cong) simp_all
  then show ?thesis by simp
qed

lemma cleaning_pass:
  assumes "in_time s e" and "sound s C c w"
  obtains w' where "cleanupOrphanChunks e w = (True, w')" "sound s C c w'" "same_manifests (w_db w) (w_db w')"
    "addr_book (w_db w') = addr_book (w_db w)"
    "\<And>h. h \<in> used_hashes (w_db w) \<Longrightarrow> holders (w_db w') h = holders (w_db w) h"
    "orphan_copies (w_db w') \<subseteq> orphan_copies (w_db w)"
    "card (orphan_copies (w_db w')) = card (orphan_copies (w_db w)) - 100"
proof -
  let ?db = "w_db w" and ?now = "ev_now e (w_tick w)" and ?pair = "\<lambda>l. (lo_hash l, lo_nodeID l)"
  let ?unused = "filter (\<lambda>l. lo_hash l \<notin> used_hashes ?db) (db_locations ?db)"
  define ts where "ts = OrphanChunkTasks (ev_eng e (w_tick w)) ?now 100 ?db"
  have q: "quiet e" using assms(1) by (simp add: in_time_def)
  have eng: "ev_eng e i j" for i j using q by (simp add: quiet_def)
  have wf: "db_wf ?db" by (rule sound_wf [OF assms(2)])
  define top where "top = take 100 (sort_by orphan_less (orphan_rows ?now ?db))"
  have "map orphan_copy (map (\<lambda>t. t\<lparr>ot_node := withDerivedStatus ?now (ot_node t)\<rparr>) xs) = map orphan_copy xs" for xs
    by (simp add: orphan_copy_def)
  then have ts: "map orphan_copy ts = map orphan_copy top" by (simp add: ts_def top_def OrphanChunkTasks_def eng)
  note rows = orphan_rows_copies [OF assms, of "w_tick w"]
  have dist: "distinct (map ?pair ?unused)" using wf by (simp add: wf_defs distinct_map_filter)
  have all: "orphan_copy ` set (orphan_rows ?now ?db) = orphan_copies ?db"
    using arg_cong [OF rows, of set] by (auto simp: orphan_copies_def holders_iff image_iff)
  have dist_ts: "distinct (map orphan_copy ts)" unfolding ts top_def
    by (rule distinct_map_take) (simp add: rows dist)
  have sub: "orphan_copy ` set ts \<subseteq> orphan_copies ?db"
  proof -
    have "orphan_copy ` set ts = orphan_copy ` set top" by (metis ts set_map)
    then show ?thesis unfolding all [symmetric] top_def by (auto dest!: in_set_takeD)
  qed
  have "card (orphan_copies ?db) = length (orphan_rows ?now ?db)"
    using distinct_card [OF dist [folded rows]] by (simp add: all)
  moreover have "length ts = length top" using arg_cong [OF ts, of length] by simp
  ultimately have len: "length ts = min 100 (card (orphan_copies ?db))" by (simp add: top_def min.commute)
  have card: "card (orphan_copy ` set ts) = length ts" using distinct_card [OF dist_ts] by simp
  have "ot_hash t \<in> range hashData \<and> (ni_id (ot_node t), ni_address (ot_node t)) \<in> addr_book (w_db (tick w))" if "t \<in> set ts" for t
  proof -
    have b: "backed w" using assms(2) by (simp add: sound_def)
    note k = orphan_known [OF that [unfolded ts_def]]
    with backed_hash [OF b k [THEN conjunct2] k [THEN conjunct1]] show ?thesis by simp
  qed
  then obtain w' where loop: "cleanup_loop e ts (tick w) = (True, w')" "sound s C c w'" "addr_book (w_db w') = addr_book ?db"
    "same_manifests ?db (w_db w')"
    "\<And>h i. i \<in> holders (w_db w') h \<longleftrightarrow> i \<in> holders ?db h \<and> (h, i) \<notin> orphan_copy ` set ts"
    using cleanup_loop_sound [OF q, of s C c "tick w" ts] assms(2) by auto
  have eq: "orphan_copies (w_db w') = orphan_copies ?db - orphan_copy ` set ts"
    using same_manifests_used [OF loop(4)] by (auto simp: orphan_copies_def loop(5))
  show ?thesis
  proof (rule that)
    show "cleanupOrphanChunks e w = (True, w')" by (simp add: cleanupOrphanChunks_def ask_def loop(1) flip: ts_def)
    show "holders (w_db w') h = holders ?db h" if "h \<in> used_hashes ?db" for h
      using that sub by (auto simp: loop(5) orphan_copies_def)
    show "orphan_copies (w_db w') \<subseteq> orphan_copies ?db" by (simp add: eq Diff_subset)
    show "card (orphan_copies (w_db w')) = card (orphan_copies ?db) - 100"
      unfolding eq using card_Diff_subset [OF _ sub] by (simp add: card len)
  qed (fact loop)+
qed

subsection \<open>A whole run\<close>

lemma table_size_cong: "addr_book (w_db w') = addr_book (w_db w) \<Longrightarrow> table_size w' = table_size w"
  by (simp add: table_size_def)

lemma used_split: "h \<in> used_hashes db \<Longrightarrow>
  h \<in> short_chunks db \<or> h \<in> surplus_chunks db \<or> int (card (holders db h)) = Max (wanted_by db h)"
  by (auto simp: short_chunks_def surplus_chunks_def)

lemma not_short_and_surplus: "h \<in> short_chunks db \<Longrightarrow> h \<notin> surplus_chunks db"
  by (simp add: short_chunks_def surplus_chunks_def)

text \<open>A pass that changes only chunks of one kind, and none of them into the other kind.\<close>

lemma other_kind:
  assumes "same_manifests db db'" and "\<And>h. h \<in> used_hashes db \<Longrightarrow> h \<notin> H \<Longrightarrow> holders db' h = holders db h"
  shows "H \<inter> short_chunks db = {} \<Longrightarrow> H \<inter> short_chunks db' = {} \<Longrightarrow> short_chunks db' = short_chunks db"
    and "H \<inter> surplus_chunks db = {} \<Longrightarrow> H \<inter> surplus_chunks db' = {} \<Longrightarrow> surplus_chunks db' = surplus_chunks db"
proof -
  have "h \<in> short_chunks db' \<longleftrightarrow> h \<in> short_chunks db" "h \<in> surplus_chunks db' \<longleftrightarrow> h \<in> surplus_chunks db" if "h \<notin> H" for h
    using assms(2) [of h] that
    by (auto simp: short_chunks_def surplus_chunks_def same_manifests_used [OF assms(1)] same_manifests_wanted [OF assms(1)])
  then show "H \<inter> short_chunks db = {} \<Longrightarrow> H \<inter> short_chunks db' = {} \<Longrightarrow> short_chunks db' = short_chunks db"
    "H \<inter> surplus_chunks db = {} \<Longrightarrow> H \<inter> surplus_chunks db' = {} \<Longrightarrow> surplus_chunks db' = surplus_chunks db"
    by blast+
qed

lemma orphan_copies_cong:
  assumes "same_manifests db db'" and "\<And>h. h \<notin> used_hashes db \<Longrightarrow> holders db' h = holders db h"
  shows "orphan_copies db' = orphan_copies db"
  using assms by (auto simp: orphan_copies_def same_manifests_used)

lemma wanted_bounds:
  assumes "db_wf db" and "h \<in> used_hashes db" and "\<forall>f \<in> set (db_files db). l \<le> fr_replication f"
  shows "l \<le> Max (wanted_by db h)"
proof -
  have "refs_ok db" using assms(1) by (simp add: db_wf_def)
  then have "Max (wanted_by db h) \<in> wanted_by db h" by (intro Max_in) (simp_all add: wanted_nonempty [OF _ assms(2)])
  then show ?thesis using assms(3) by (auto simp: wanted_by_def)
qed

lemma scheduler_run:
  assumes "in_time s e" and "sound s C (\<lambda>_. 100 * int m) w"
    and rep: "\<forall>f \<in> set (db_files (w_db w)). 1 \<le> fr_replication f \<and> fr_replication f \<le> table_size w"
    and use: "\<And>h. h \<in> used_hashes (w_db w) \<Longrightarrow> length (C h) \<le> m \<and> holders (w_db w) h \<noteq> {}"
  obtains w' where "runReplicationOnce e w = (True, w')" "sound s C (\<lambda>_. 0) w'" "same_manifests (w_db w) (w_db w')"
    "\<And>h. h \<in> used_hashes (w_db w) \<Longrightarrow> h \<notin> surplus_chunks (w_db w) \<Longrightarrow> holders (w_db w) h \<subseteq> holders (w_db w') h"
    "card (short_chunks (w_db w')) = card (short_chunks (w_db w)) - 100"
    "card (surplus_chunks (w_db w')) = card (surplus_chunks (w_db w)) - 100"
    "card (orphan_copies (w_db w')) = card (orphan_copies (w_db w)) - 100"
proof -
  obtain w1 where c: "cleanupOrphanChunks e w = (True, w1)" "sound s C (\<lambda>_. 100 * int m) w1" "same_manifests (w_db w) (w_db w1)"
    "addr_book (w_db w1) = addr_book (w_db w)" "\<And>h. h \<in> used_hashes (w_db w) \<Longrightarrow> holders (w_db w1) h = holders (w_db w) h"
    "card (orphan_copies (w_db w1)) = card (orphan_copies (w_db w)) - 100"
    using cleaning_pass [OF assms(1,2)] by metis
  have kinds1: "short_chunks (w_db w1) = short_chunks (w_db w)" "surplus_chunks (w_db w1) = surplus_chunks (w_db w)"
    using other_kind [OF c(3), of "{}"] c(5) by simp_all
  have files1: "db_files (w_db w1) = db_files (w_db w)" using c(3) by (simp add: same_manifests_def)
  have "\<forall>f \<in> set (db_files (w_db w1)). 0 \<le> fr_replication f" using rep by (auto simp: files1)
  then obtain w2 where p: "pruneExtraCopies e w1 = (True, w2)" "sound s C (\<lambda>_. 100 * int m) w2" "same_manifests (w_db w1) (w_db w2)"
    "addr_book (w_db w2) = addr_book (w_db w1)"
    "\<And>h. h \<notin> surplus_chunks (w_db w1) \<Longrightarrow> holders (w_db w2) h = holders (w_db w1) h"
    "card (surplus_chunks (w_db w2)) = card (surplus_chunks (w_db w1)) - 100"
    "\<And>h. h \<in> surplus_chunks (w_db w1) - surplus_chunks (w_db w2) \<Longrightarrow> int (card (holders (w_db w2) h)) = Max (wanted_by (w_db w2) h)"
    using pruning_pass [OF assms(1) c(2)] by metis
  have surplus2: "Max (wanted_by (w_db w2) h) \<le> int (card (holders (w_db w2) h))" if "h \<in> surplus_chunks (w_db w1)" for h
    using p(7) [of h] that by (cases "h \<in> surplus_chunks (w_db w2)") (simp_all add: surplus_chunks_def)
  have man2: "same_manifests (w_db w) (w_db w2)" by (rule same_manifests_trans [OF c(3) p(3)])
  have "surplus_chunks (w_db w1) \<inter> short_chunks (w_db w1) = {}" using not_short_and_surplus by blast
  moreover have "surplus_chunks (w_db w1) \<inter> short_chunks (w_db w2) = {}" using surplus2 by (fastforce simp: short_chunks_def)
  ultimately have short2: "short_chunks (w_db w2) = short_chunks (w_db w1)" by (intro other_kind(1) [OF p(3) p(5)])
  have orphan2: "orphan_copies (w_db w2) = orphan_copies (w_db w1)"
    by (rule orphan_copies_cong [OF p(3) p(5)]) (auto simp: surplus_chunks_def)
  have files2: "db_files (w_db w2) = db_files (w_db w)" using man2 by (simp add: same_manifests_def)
  have used2: "used_hashes (w_db w2) = used_hashes (w_db w)" by (rule same_manifests_used [OF man2])
  have "int (length (C h)) \<le> int m \<and> holders (w_db w2) h \<noteq> {}" if h: "h \<in> used_hashes (w_db w2)" for h
  proof (cases "h \<in> surplus_chunks (w_db w1)")
    case True
    have "1 \<le> Max (wanted_by (w_db w2) h)"
      by (rule wanted_bounds [OF sound_wf [OF p(2)] h]) (use rep in \<open>simp add: files2\<close>)
    with surplus2 [OF True] use [of h] h used2 show ?thesis by fastforce
  qed (use p(5) c(5) use h used2 in auto)
  note use2 = this
  have ts2: "table_size w2 = table_size w" by (rule table_size_cong) (simp add: p(4) c(4))
  have rep2: "\<forall>f \<in> set (db_files (w_db w2)). fr_replication f \<le> table_size w2" using rep by (simp add: files2 ts2)
  define w' where "w' = replicateMissingCopies e w2"
  note r = replication_pass [OF assms(1) p(2) order_refl _ rep2 use2 w'_def, simplified]
  have "short_chunks (w_db w2) \<inter> surplus_chunks (w_db w2) = {}" using not_short_and_surplus by blast
  moreover have "short_chunks (w_db w2) \<inter> surplus_chunks (w_db w') = {}"
  proof -
    have "h \<notin> surplus_chunks (w_db w')" if "h \<in> short_chunks (w_db w2)" for h
      using r(7) [of h] that not_short_and_surplus [of h "w_db w'"]
      by (cases "h \<in> short_chunks (w_db w')") (simp_all add: surplus_chunks_def)
    then show ?thesis by blast
  qed
  ultimately have surplus3: "surplus_chunks (w_db w') = surplus_chunks (w_db w2)" by (intro other_kind(2) [OF r(2) r(4)])
  have orphan3: "orphan_copies (w_db w') = orphan_copies (w_db w2)"
    by (rule orphan_copies_cong [OF r(2) r(4)]) (auto simp: short_chunks_def)
  show ?thesis
  proof (rule that)
    show "runReplicationOnce e w = (True, w')" by (simp add: runReplicationOnce_def c(1) p(1) w'_def)
    show "sound s C (\<lambda>_. 0) w'" by (rule r(1))
    show "same_manifests (w_db w) (w_db w')" by (rule same_manifests_trans [OF man2 r(2)])
    show "holders (w_db w) h \<subseteq> holders (w_db w') h" if "h \<in> used_hashes (w_db w)" "h \<notin> surplus_chunks (w_db w)" for h
      using r(3) [of h] p(5) [of h] c(5) [of h] that by (simp add: kinds1)
    show "card (short_chunks (w_db w')) = card (short_chunks (w_db w)) - 100" using r(6) by (simp add: short2 kinds1)
    show "card (surplus_chunks (w_db w')) = card (surplus_chunks (w_db w)) - 100" using p(6) by (simp add: surplus3 kinds1)
    show "card (orphan_copies (w_db w')) = card (orphan_copies (w_db w)) - 100" using c(6) by (simp add: orphan3 orphan2)
  qed
qed


subsection \<open>An example\<close>

text \<open>Two large nodes, one of which has the only copy of a one-byte file that is wanted twice.\<close>

definition large_node :: "string \<Rightarrow> NodeInfo" where
  "large_node i = (demo_node i 5000)\<lparr>ni_capacity := 10000\<rparr>"

definition large_cluster :: World where
  "large_cluster = \<lparr>w_db = \<lparr>db_nodes = [large_node ''n1'', large_node ''n2''], db_files = [demo_file ''f'' 1],
       db_fileChunks = [demo_chunk ''f'' 0 (hashData [7])], db_locations = []\<rparr>,
     w_nodes = (\<lambda>a. if a = ''http://n1'' \<or> a = ''http://n2''
       then Some \<lparr>nd_store = demo_store, nd_capacity = 10000, nd_token = ''t''\<rparr> else None),
     w_token = ''t'', w_tick = 0\<rparr>"

lemma large_sound: "sound 1000 (\<lambda>_. [7]) (\<lambda>_. 101) large_cluster"
proof -
  have t: "TrimSpace ''t'' = ''t''" by (simp add: TrimSpace_visible visible_def)
  have s: "store_inv demo_store" "blob demo_store h = None" for h
    by (simp_all add: demo_store_def store_inv_empty store_ok_def blob_alt split: sum.split)
  have "world_inv large_cluster"
    by (simp add: world_inv_def large_cluster_def node_inv_def s wf_defs demo_node_def large_node_def demo_file_def demo_chunk_def)
  moreover have "backed large_cluster"
    by (auto simp: backed_def large_cluster_def addr_book_def holders_def demo_node_def large_node_def)
  moreover have "one_token large_cluster" by (simp add: one_token_def large_cluster_def t)
  moreover have "room 1000 (\<lambda>_. 101) large_cluster"
    by (auto simp: room_def roomy_def large_cluster_def addr_book_def demo_node_def large_node_def
        Used_def demo_store_def t)
  moreover have "contents (\<lambda>_. [7]) large_cluster" by (simp add: contents_def intact_def large_cluster_def s demo_chunk_def)
  moreover have "\<forall>n \<in> set (db_nodes (w_db large_cluster)). ni_free n \<le> ni_capacity n"
    by (simp add: large_cluster_def large_node_def demo_node_def)
  ultimately show ?thesis by (simp add: sound_def)
qed

text \<open>The first copy has been made.\<close>

lemma large_hurt:
  obtains w where "sound 1000 (\<lambda>_. [7]) (\<lambda>_. 100 * int 1) w" "used_hashes (w_db w) = {hashData [7]}"
    "db_files (w_db w) = [demo_file ''f'' 1]" "wanted_by (w_db w) (hashData [7]) = {2}" "table_size w = 2"
    "\<And>h. holders (w_db w) h = (if h = hashData [7] then {''n1''} else {})"
proof -
  have n1: "(''n1'', ''http://n1'') \<in> addr_book (w_db large_cluster)"
    by (simp add: large_cluster_def addr_book_def large_node_def demo_node_def)
  have none: "holders (w_db large_cluster) h = {}" for h by (simp add: large_cluster_def holders_def)
  obtain w :: World where w: "sound 1000 (\<lambda>_. [7]) ((\<lambda>_. 101)(''n1'' := 101 - int (length [7 :: byte]))) w"
    "addr_book (w_db w) = addr_book (w_db large_cluster)" "same_manifests (w_db large_cluster) (w_db w)"
    "\<And>h. holders (w_db w) h = (if h = hashData [7] then insert ''n1'' (holders (w_db large_cluster) h) else holders (w_db large_cluster) h)"
    by (rule copy_sound [OF demo_time large_sound _ n1, of "[7]"]) (simp_all only:, simp_all)
  show ?thesis
  proof (rule that [of w])
    show "sound 1000 (\<lambda>_. [7]) (\<lambda>_. 100 * int 1) w" by (rule sound_mono [OF w(1)]) simp
    show "used_hashes (w_db w) = {hashData [7]}" "db_files (w_db w) = [demo_file ''f'' 1]" "wanted_by (w_db w) (hashData [7]) = {2}"
      using w(3) by (auto simp: same_manifests_def used_hashes_def wanted_by_def large_cluster_def demo_chunk_def demo_file_def)
    show "table_size w = 2" unfolding table_size_def w(2)
      by (simp add: large_cluster_def addr_book_def large_node_def demo_node_def)
    show "holders (w_db w) h = (if h = hashData [7] then {''n1''} else {})" for h by (simp add: w(4) none)
  qed
qed


end
