(* ===== verification/System.thy ===== *)
theory System
  imports Progress
begin

text \<open>
  The running server: the world and the uploads in flight. Requests, turns of the upload loops,
  scheduler rounds, and what happens on the nodes behind the server's back interleave in any
  order; one step is one request (a backup is split into its beginning, the turns of its loop
  and its end) or one scheduler round. The invariants are proved by induction over the runs.
\<close>

subsection \<open>Steps\<close>

record Sys =
  sy_world :: World
  sy_uploads :: "Upload list"

datatype event =
    Request env string string "server_body Request" "server_reply Response"
  | Begin "server_body Request"
  | Turn env
  | Reject env
  | Finish env string string "server_reply Response"
  | Schedule env
  | Panic env
  | NodeCall io_env "node_body Request"
  | NodeDown
  | NodeUp

text \<open>
  \<open>Panic\<close>: a scheduler round in which \<^verbatim>\<open>RemoveChunkLocation\<close> panicked; the process ends and
  starts again with the tables. \<open>NodeCall\<close>: a request to a node from somewhere else.
\<close>

inductive sys_step :: "(string \<Rightarrow> string result) \<Rightarrow> Handler \<Rightarrow> Sys \<Rightarrow> event \<Rightarrow> Sys \<Rightarrow> bool" for nrm h where
  request: "Routes nrm h e date uuid r (sy_world s) = (rs, w') \<Longrightarrow>
    sys_step nrm h s (Request e date uuid r rs) (s\<lparr>sy_world := w'\<rparr>)"
| begin_upload: "ValidBearer (rq_authorization r) (hd_token h) \<Longrightarrow> beginUpload h r = Inr up \<Longrightarrow>
    sys_step nrm h s (Begin r) (s\<lparr>sy_uploads := up # sy_uploads s\<rparr>)"
| turn: "sy_uploads s = us @ up # vs \<Longrightarrow> uploadStep e up (sy_world s) = (Uploading up', w') \<Longrightarrow>
    sys_step nrm h s (Turn e) \<lparr>sy_world = w', sy_uploads = us @ up' # vs\<rparr>"
| reject: "sy_uploads s = us @ up # vs \<Longrightarrow> uploadStep e up (sy_world s) = (Rejected rs, w') \<Longrightarrow>
    sys_step nrm h s (Reject e) \<lparr>sy_world = w', sy_uploads = us @ vs\<rparr>"
| finish: "sy_uploads s = us @ up # vs \<Longrightarrow> uploadStep e up (sy_world s) = (Uploaded up', w') \<Longrightarrow>
    saveManifest e date uuid (uploadRequest up') w' = (rs, w'') \<Longrightarrow>
    sys_step nrm h s (Finish e date uuid rs) \<lparr>sy_world = w'', sy_uploads = us @ vs\<rparr>"
| schedule: "runReplicationOnce e (sy_world s) = (True, w') \<Longrightarrow>
    sys_step nrm h s (Schedule e) (s\<lparr>sy_world := w'\<rparr>)"
| panic: "runReplicationOnce e (sy_world s) = (False, w') \<Longrightarrow>
    sys_step nrm h s (Panic e) \<lparr>sy_world = w', sy_uploads = []\<rparr>"
| node_call: "w_nodes (sy_world s) a = Some n \<Longrightarrow> w' = (sy_world s)\<lparr>w_nodes := (w_nodes (sy_world s))(a \<mapsto> snd (node_handler io r n))\<rparr> \<Longrightarrow>
    sys_step nrm h s (NodeCall io r) (s\<lparr>sy_world := w'\<rparr>)"
| node_down: "w' = (sy_world s)\<lparr>w_nodes := (w_nodes (sy_world s))(a := None)\<rparr> \<Longrightarrow>
    sys_step nrm h s NodeDown (s\<lparr>sy_world := w'\<rparr>)"
| node_up: "node_inv n \<Longrightarrow> w' = (sy_world s)\<lparr>w_nodes := (w_nodes (sy_world s))(a \<mapsto> n)\<rparr> \<Longrightarrow>
    sys_step nrm h s NodeUp (s\<lparr>sy_world := w'\<rparr>)"

inductive run :: "(string \<Rightarrow> string result) \<Rightarrow> Handler \<Rightarrow> Sys \<Rightarrow> event list \<Rightarrow> Sys \<Rightarrow> bool" for nrm h where
  idle [simp, intro]: "run nrm h s [] s"
| next_event: "run nrm h s es s' \<Longrightarrow> sys_step nrm h s' ev s'' \<Longrightarrow> run nrm h s (es @ [ev]) s''"

subsection \<open>Invariants\<close>

text \<open>
  A property that every admitted step preserves, and therefore every run of admitted events.
\<close>

locale step_invariant =
  fixes nrm :: "string \<Rightarrow> string result" and h :: Handler and admitted :: "event \<Rightarrow> bool" and holds_in :: "Sys \<Rightarrow> bool"
  assumes step_keeps: "sys_step nrm h s ev s' \<Longrightarrow> admitted ev \<Longrightarrow> holds_in s \<Longrightarrow> holds_in s'"
begin

lemma run_keeps: "run nrm h s es s' \<Longrightarrow> list_all admitted es \<Longrightarrow> holds_in s \<Longrightarrow> holds_in s'"
  by (induction rule: run.induct) (auto intro: step_keeps)

end

text \<open>An upload in flight: the chunks so far are an initial part of the file, and the totals are theirs.\<close>

definition upload_ok :: "Upload \<Rightarrow> bool" where
  "upload_ok up \<longleftrightarrow> (\<exists>ds. up_chunks up = chunk_refs ds \<and> up_index up = int (length ds) \<and>
     up_totalSize up = int (length (concat ds)) \<and>
     up_dedupNewBytes up + up_dedupReusedBytes up = up_totalSize up) \<and>
     0 < up_chunkSize up \<and> up_chunkSize up \<le> maxChunkSize \<and> 0 \<le> up_retention up"

definition sys_inv :: "Sys \<Rightarrow> bool" where
  "sys_inv s \<longleftrightarrow> world_inv (sy_world s) \<and> (\<forall>up \<in> set (sy_uploads s). upload_ok up)"

lemma beginUpload_ok: "beginUpload h r = Inr up \<Longrightarrow> upload_ok up"
  using beginUpload_fresh [of h r up] unfolding upload_ok_def
  by (intro conjI exI [of _ "[]"]) (simp_all add: chunk_refs_def)

lemma uploadStep_ok:
  assumes "uploadStep e up w = (Uploading up', w')" and "upload_ok up"
  shows "upload_ok up'"
proof -
  from assms(1) obtain d rest where "uploadChunk e up d rest w = (Inr up', w')"
    by (auto simp: uploadStep_def split: chunk_read.splits prod.splits sum.splits)
  note f = uploadChunk_fields [OF this]
  from assms(2) obtain ds where "up_chunks up = chunk_refs ds" "up_index up = int (length ds)"
    "up_totalSize up = int (length (concat ds))" "up_dedupNewBytes up + up_dedupReusedBytes up = up_totalSize up"
    "0 < up_chunkSize up" "up_chunkSize up \<le> maxChunkSize" "0 \<le> up_retention up"
    by (auto simp: upload_ok_def)
  with f show ?thesis unfolding upload_ok_def
    by (intro conjI exI [of _ "ds @ [d]"]) (simp_all add: chunk_refs_snoc)
qed

lemma uploadStep_inv_eq: "uploadStep e up w = (st, w') \<Longrightarrow> world_inv w \<Longrightarrow> world_inv w'"
  using uploadStep_inv [of w e up] by simp

lemma saveManifest_inv_eq: "saveManifest e date uuid req w = (rs, w') \<Longrightarrow> world_inv w \<Longrightarrow> world_inv w'"
  using saveManifest_inv [of w e date uuid req] by simp

lemma runReplicationOnce_inv_eq: "runReplicationOnce e w = (ok, w') \<Longrightarrow> world_inv w \<Longrightarrow> world_inv w'"
  using runReplicationOnce_inv [of w e] by simp

lemma sys_step_inv: "sys_step nrm h s ev s' \<Longrightarrow> sys_inv s \<Longrightarrow> sys_inv s'"
proof (induction rule: sys_step.induct)
  case (request e date uuid r s rs w')
  then show ?case using Routes_inv [of "sy_world s" nrm h e date uuid r] by (simp add: sys_inv_def)
next
  case (begin_upload r up s)
  then show ?case using beginUpload_ok by (simp add: sys_inv_def)
next
  case (turn s us up vs e up' w')
  then show ?case using uploadStep_ok uploadStep_inv_eq by (simp add: sys_inv_def)
next
  case (reject s us up vs e rs w')
  then show ?case using uploadStep_inv_eq by (simp add: sys_inv_def)
next
  case (finish s us up vs e up' w' date uuid rs w'')
  then show ?case using uploadStep_inv_eq saveManifest_inv_eq by (simp add: sys_inv_def)
next
  case (schedule e s w')
  then show ?case using runReplicationOnce_inv_eq by (simp add: sys_inv_def)
next
  case (panic e s w')
  then show ?case using runReplicationOnce_inv_eq by (simp add: sys_inv_def)
qed (auto simp: sys_inv_def world_inv_def node_handler_inv)

interpretation well_formed: step_invariant nrm h "\<lambda>_. True" sys_inv for nrm h
  by unfold_locales (rule sys_step_inv)

text \<open>
  C8: the invariants of the running server. From a state in which they hold, whatever requests,
  uploads, scheduler rounds, panics, node requests, failures and outages follow in whatever
  order, the tables stay well formed, no node ever serves bytes under a name that is not their
  SHA-256, and every upload in flight has recorded an initial part of its file.
\<close>

theorem system_invariant:
  assumes "run nrm h s es s'" and "sys_inv s"
  shows "db_wf (w_db (sy_world s')) \<and>
    (\<forall>a n io hash d. w_nodes (sy_world s') a = Some n \<and> Open io (nd_store n) hash = Inr d \<longrightarrow>
       digest hash = hex_encode (sha256 d)) \<and>
    (\<forall>up \<in> set (sy_uploads s'). upload_ok up)"
proof -
  have inv: "sys_inv s'" using well_formed.run_keeps [OF assms(1) _ assms(2)] by (simp add: list_all_iff)
  have "digest hash = hex_encode (sha256 d)"
    if "w_nodes (sy_world s') a = Some n" "Open io (nd_store n) hash = Inr d" for a n io hash d
    using blob_sound [OF _ Open_blob [OF that(2)]] inv that(1) by (auto simp: sys_inv_def world_inv_def node_inv_def)
  with inv show ?thesis by (auto simp: sys_inv_def world_inv_def)
qed

subsection \<open>The tables stay true\<close>

definition stays_backed :: "server_reply Response \<times> World \<Rightarrow> bool" where
  "stays_backed x \<longleftrightarrow> (rs_status (fst x) \<noteq> 0 \<longrightarrow> backed (snd x))"

lemma backed_same:
  "backed w \<Longrightarrow> w_nodes w' = w_nodes w \<Longrightarrow> w_db w' = w_db w \<Longrightarrow> backed w'"
  by (simp add: backed_def holds_def)

lemma stays_readers:
  assumes "backed w"
  shows "stays_backed (nodes e r w)" "stays_backed (planChunk e r w)" "stays_backed (chunkLocations e r w)"
    "stays_backed (files e r w)" "stays_backed (fileAvailability e r w)"
  using assms by (simp_all add: stays_backed_def nodes_def planChunk_def chunkLocations_def files_def
      fileAvailability_def ask_def Let_def split: sum.split option.split)

lemma sendChunks_world: "w_nodes (snd (sendChunks e cs wr w)) = w_nodes w"
  by (induction cs arbitrary: wr w) (simp_all add: split_beta Let_def fetchFromAny_def split: sum.split)

lemma stays_download: "backed w \<Longrightarrow> stays_backed (downloadFile e r w)"
  by (rule stays_backed_def [THEN iffD2], rule impI, erule backed_same)
    (simp_all add: downloadFile_def ask_def Let_def split_beta sendChunks_world sendChunks_db split: option.split)

lemma stays_manifest: "backed w \<Longrightarrow> stays_backed (fileManifest e r w)"
  by (simp add: fileManifest_def Let_def stays_download stays_readers)
    (simp add: stays_backed_def ask_def split: option.split)

lemma stays_patch: "backed w \<Longrightarrow> stays_backed (patchFile e r w)"
proof -
  assume b: "backed w"
  have "backed (snd (tell e (\<lambda>eng now. UpdateFileReplication eng fid k) w))" for fid k
    by (rule tell_backed(1) [OF b]) (simp_all add: UpdateFileReplication_def Let_def split: option.split)
  with b show ?thesis
    by (simp add: stays_backed_def patchFile_def updateFileReplication_def Let_def split_beta split: sum.split option.split)
qed

lemma stays_save:
  assumes "world_inv w" "backed w" "calm e"
  shows "stays_backed (saveManifest e date uuid req w)"
  using saveManifest_backed [OF assms, of date uuid req] by (cases "saveManifest e date uuid req w") (simp add: stays_backed_def)

lemma stays_create:
  "world_inv w \<Longrightarrow> backed w \<Longrightarrow> calm e \<Longrightarrow> stays_backed (createFile e date uuid r w)"
  using stays_save [of w e date uuid] by (simp add: createFile_def Let_def split: sum.split) (simp add: stays_backed_def)

lemma stays_delete:
  "backed w \<Longrightarrow> calm e \<Longrightarrow> stays_backed (deleteFile e r w)"
  using deleteFile_backed [of w e r] by (cases "deleteFile e r w") (simp add: stays_backed_def)

lemma stays_backup:
  assumes "world_inv w" "backed w" "calm e"
  shows "stays_backed (backupFile h e date uuid r w)"
proof -
  have "stays_backed (saveManifest e date uuid req (snd (uploadLoop e up w)))" for up req
    by (intro stays_save uploadLoop_inv uploadLoop_backed assms)
  moreover have "backed (snd (uploadLoop e up w))" for up by (intro uploadLoop_backed assms)
  ultimately show ?thesis using assms(2)
    by (simp add: backupFile_def split_beta split: sum.split upload_state.split) (simp add: stays_backed_def)
qed

lemma backed_subset:
  assumes "backed w" and "w_nodes w' = w_nodes w" and "addr_book (w_db w') \<subseteq> addr_book (w_db w)"
    and "\<And>h. holders (w_db w') h \<subseteq> holders (w_db w) h"
  shows "backed w'"
proof -
  have h: "holds w' a k = holds w a k" for a k by (rule holds_cong [OF assms(2)])
  have "i = i'" if "(i, a) \<in> addr_book (w_db w')" "(i', a) \<in> addr_book (w_db w')" for i i' a
    using assms(1) subsetD [OF assms(3) that(1)] subsetD [OF assms(3) that(2)] unfolding backed_def by blast
  moreover have "holds w a k" if "i \<in> holders (w_db w') k" "(i, a) \<in> addr_book (w_db w')" for k i a
    using assms(1) subsetD [OF assms(4) that(1)] subsetD [OF assms(3) that(2)] unfolding backed_def by blast
  ultimately show ?thesis unfolding backed_def h by blast
qed

lemma stays_delete_node:
  assumes "backed w" and "query_get (rq_query r) ''purge'' \<noteq> ''true''"
  shows "stays_backed (deleteNode e r w)"
proof -
  have "backed (snd (tell e (\<lambda>eng now. DeleteNode eng now nid) w))" for nid
  proof (rule backed_subset [OF assms(1)])
    let ?d = "DeleteNode (ev_eng e (w_tick w)) (ev_now e (w_tick w)) nid (w_db w)"
    have "db_nodes (snd ?d) = db_nodes (w_db w) \<or> (\<exists>P. db_nodes (snd ?d) = filter P (db_nodes (w_db w)))"
      "db_locations (snd ?d) = db_locations (w_db w) \<or> (\<exists>P. db_locations (snd ?d) = filter P (db_locations (w_db w)))"
      by (auto simp: DeleteNode_def Let_def split: option.split)
    then show "addr_book (w_db (snd (tell e (\<lambda>eng now. DeleteNode eng now nid) w))) \<subseteq> addr_book (w_db w)"
      "holders (w_db (snd (tell e (\<lambda>eng now. DeleteNode eng now nid) w))) h \<subseteq> holders (w_db w) h" for h
      by (auto simp: tell_db addr_book_def holders_def)
  qed (simp add: tell_world)
  with assms show ?thesis
    by (simp add: stays_backed_def deleteNode_def Let_def split_beta split: option.split)
qed

text \<open>
  The requests that take nobody's word for where chunks are: all but registrations, the
  confirmations a client sends, and the purge of a node.
\<close>

definition harmless :: "server_body Request \<Rightarrow> bool" where
  "harmless r \<longleftrightarrow>
     \<not> (rq_method r = ''POST'' \<and> rq_path r \<in> {''/nodes/register'', ''/nodes/heartbeat'', ''/chunks/confirm''}) \<and>
     \<not> (rq_method r = ''DELETE'' \<and> HasPrefix (rq_path r) ''/nodes/'' \<and> query_get (rq_query r) ''purge'' = ''true'')"

lemma stays_respond: "backed w \<Longrightarrow> stays_backed (respond c b, w)"
  by (simp add: stays_backed_def)

lemma stays_if: "(P \<Longrightarrow> stays_backed x) \<Longrightarrow> (\<not> P \<Longrightarrow> stays_backed y) \<Longrightarrow> stays_backed (if P then x else y)"
  by simp

lemma stays_mux:
  assumes "world_inv w" "backed w" "calm e" and "harmless r"
  shows "stays_backed (server_mux nrm h e date uuid r w)"
  unfolding server_mux_def Let_def
  by (intro stays_if stays_respond stays_readers stays_manifest stays_patch stays_delete stays_delete_node stays_backup
      stays_create assms(1-3)) (use assms(4) in \<open>auto simp: harmless_def\<close>)

lemma stays_Routes:
  assumes "world_inv w" "backed w" "calm e" and "harmless r"
  shows "stays_backed (Routes nrm h e date uuid r w)"
  using stays_mux [OF assms, of nrm h date uuid] assms(2)
  by (simp add: Routes_def Middleware_def stays_respond)

text \<open>
  Events that keep the tables true: no answer of a node is lost, no handler panics, no node loses
  its chunks or is wiped, and nobody but the server says where chunks are. The environment of the
  turns of an upload is arbitrary.
\<close>

fun trusted :: "event \<Rightarrow> bool" where
  "trusted (Request e date uuid r rs) \<longleftrightarrow> calm e \<and> harmless r \<and> rs_status rs \<noteq> 0"
| "trusted (Finish e date uuid rs) \<longleftrightarrow> calm e \<and> rs_status rs \<noteq> 0"
| "trusted (Schedule e) \<longleftrightarrow> calm e"
| "trusted (NodeCall io r) \<longleftrightarrow> rq_method r \<noteq> ''DELETE''"
| "trusted (Begin r) \<longleftrightarrow> True"
| "trusted (Turn e) \<longleftrightarrow> True"
| "trusted (Reject e) \<longleftrightarrow> True"
| "trusted (Panic e) \<longleftrightarrow> False"
| "trusted NodeDown \<longleftrightarrow> False"
| "trusted NodeUp \<longleftrightarrow> False"

lemma handler_keeps_chunk:
  assumes "node_inv n" and "rq_method r \<noteq> ''DELETE''" and "has_chunk n h"
  shows "has_chunk (snd (node_handler io r n)) h"
  by (cases rule: node_handler_cases [of io r n]) (use assms has_chunk_put in simp_all)

lemma sys_step_backed:
  assumes "sys_step nrm h s ev s'" and "trusted ev" and "sys_inv s" and "backed (sy_world s)"
  shows "backed (sy_world s')"
  using assms
proof (induction rule: sys_step.induct)
  case (request e date uuid r s rs w')
  then show ?case using stays_Routes [of "sy_world s" e r nrm h date uuid]
    by (simp add: sys_inv_def stays_backed_def)
next
  case (turn s us up vs e up' w')
  then show ?case using uploadStep_backed [of "sy_world s" e up] by (simp add: sys_inv_def)
next
  case (reject s us up vs e rs w')
  then show ?case using uploadStep_backed [of "sy_world s" e up] by (simp add: sys_inv_def)
next
  case (finish s us up vs e up' w' date uuid rs w'')
  then have "world_inv w'" "backed w'"
    using uploadStep_backed [of "sy_world s" e up] uploadStep_inv_eq by (simp_all add: sys_inv_def)
  with finish show ?case using saveManifest_backed by auto
next
  case (schedule e s w')
  then show ?case using runReplicationOnce_backed [of "sy_world s" e w'] by (simp add: sys_inv_def)
next
  case (node_call s a n w' io r)
  let ?w = "sy_world s"
  have n: "node_inv n" using node_call by (auto simp: sys_inv_def world_inv_def)
  have "backed w'"
  proof (rule backed_cong [OF node_call.prems(3)])
    show "holds w' a' k" if "holds ?w a' k" for a' k
    proof (rule holds_update [OF _ node_call.hyps(1) _ that])
      show "w_nodes w' = (w_nodes ?w)(a \<mapsto> snd (node_handler io r n))" by (simp add: node_call.hyps(2))
    qed (use node_call.prems(1) n handler_keeps_chunk in simp)
  qed (simp_all add: node_call.hyps(2))
  then show ?case by simp
qed simp_all

interpretation stored: step_invariant nrm h trusted "\<lambda>s. sys_inv s \<and> backed (sy_world s)" for nrm h
  by unfold_locales (auto intro: sys_step_inv sys_step_backed)

text \<open>
  C6: the tables stay true. Start from a state in which every copy the tables record is on its
  node, under the hash of its content. Through any interleaving of uploads (with any failures),
  saved and deleted manifests, retention, scheduler rounds, listings, downloads and uploads to
  nodes by others, every recorded copy is on its node at every moment, as long as no answer of a
  node is lost, no handler panics and no node loses its disk.
\<close>

theorem tables_stay_true:
  assumes "run nrm h s es s'" and "sys_inv s" and "backed (sy_world s)" and "list_all trusted es"
    and "i \<in> holders (w_db (sy_world s')) hash"
  shows "\<exists>m \<in> set (db_nodes (w_db (sy_world s'))). ni_id m = i \<and>
    (\<exists>n d. w_nodes (sy_world s') (ni_address m) = Some n \<and> blob (nd_store n) hash = Some d \<and> hashData d = hash)"
proof -
  have "sys_inv s' \<and> backed (sy_world s')"
    using stored.run_keeps [OF assms(1,4)] assms(2,3) by blast
  then have b: "backed (sy_world s')" and wf: "refs_ok (w_db (sy_world s'))"
    by (simp_all add: sys_inv_def world_inv_def db_wf_def)
  obtain m where m: "m \<in> set (db_nodes (w_db (sy_world s')))" "ni_id m = i"
    using wf assms(5) by (auto simp: refs_ok_def holders_def)
  then have "(i, ni_address m) \<in> addr_book (w_db (sy_world s'))" by (auto simp: addr_book_def)
  with b assms(5) have "holds (sy_world s') (ni_address m) hash" unfolding backed_def by blast
  with m show ?thesis by (auto simp: holds_def has_chunk_def)
qed

subsection \<open>An example\<close>

lemma demo_sys: "sys_inv \<lparr>sy_world = demo_cluster, sy_uploads = []\<rparr>"
  by (simp add: sys_inv_def demo_facts)

text \<open>One upload turn on the example cluster.\<close>

lemma demo_turn:
  "\<exists>up' w'. uploadStep demo_env demo_upload demo_cluster = (Uploading up', w') \<and>
     2 \<le> card (holders (w_db w') (hashData [7]))"
proof -
  have c: "readContentDefinedChunk (up_reader demo_upload) (up_chunkSize demo_upload) = Chunk [7] \<lparr>rd_bytes = [], rd_end = EOF\<rparr>"
    by (simp add: demo_upload_def demo_reads)
  obtain up' w' where run: "uploadChunk demo_env demo_upload [7] \<lparr>rd_bytes = [], rd_end = EOF\<rparr> demo_cluster = (Inr up', w')"
    using uploadChunk_quiet [OF demo_time demo_facts(1,5), of demo_upload "[7]" "\<lparr>rd_bytes = [], rd_end = EOF\<rparr>"] demo_facts(4)
    by auto
  with c uploadChunk_copies [OF demo_facts(1) run] show ?thesis by (simp add: uploadStep_def)
qed

lemma demo_runs:
  "\<exists>w' up'. run nrm demo_handler \<lparr>sy_world = demo_cluster, sy_uploads = []\<rparr> [Begin demo_backup, Turn demo_env]
      \<lparr>sy_world = w', sy_uploads = [up']\<rparr> \<and> 2 \<le> card (holders (w_db w') (hashData [7]))"
proof -
  let ?s = "\<lparr>sy_world = demo_cluster, sy_uploads = []\<rparr>" and ?s1 = "\<lparr>sy_world = demo_cluster, sy_uploads = [demo_upload]\<rparr>"
  obtain up' w' where t: "uploadStep demo_env demo_upload demo_cluster = (Uploading up', w')"
    "2 \<le> card (holders (w_db w') (hashData [7]))" using demo_turn by blast
  have "ValidBearer (rq_authorization demo_backup) (hd_token demo_handler)"
    using ValidBearer_own [of "''t''" "''t''"]
    by (simp add: demo_backup_def bearerPrefix_def TrimSpace_visible visible_def)
  then have "sys_step nrm demo_handler ?s (Begin demo_backup) ?s1"
    using sys_step.begin_upload [of demo_backup demo_handler demo_upload nrm ?s] demo_begin by simp
  moreover have "sys_step nrm demo_handler ?s1 (Turn demo_env) \<lparr>sy_world = w', sy_uploads = [up']\<rparr>"
    using sys_step.turn [of ?s1 "[]" demo_upload "[]" demo_env up' w' nrm demo_handler] t(1) by simp
  ultimately have "run nrm demo_handler ?s (([] @ [Begin demo_backup]) @ [Turn demo_env]) \<lparr>sy_world = w', sy_uploads = [up']\<rparr>"
    using run.next_event [OF run.next_event [OF run.idle]] by metis
  with t(2) show ?thesis by auto
qed

theorem system_invariant_witness:
  "\<exists>s'. run Inr demo_handler \<lparr>sy_world = demo_cluster, sy_uploads = []\<rparr> [Begin demo_backup, Turn demo_env] s' \<and>
     db_wf (w_db (sy_world s')) \<and> list_all upload_ok (sy_uploads s')"
proof -
  obtain w' up' where r: "run Inr demo_handler \<lparr>sy_world = demo_cluster, sy_uploads = []\<rparr> [Begin demo_backup, Turn demo_env]
      \<lparr>sy_world = w', sy_uploads = [up']\<rparr>" using demo_runs by blast
  from system_invariant [OF r demo_sys] have "db_wf (w_db w')" "upload_ok up'" by simp_all
  with r show ?thesis by (intro exI [of _ "\<lparr>sy_world = w', sy_uploads = [up']\<rparr>"]) simp
qed

theorem tables_stay_true_witness:
  "\<exists>s' i m. run Inr demo_handler \<lparr>sy_world = demo_cluster, sy_uploads = []\<rparr> [Begin demo_backup, Turn demo_env] s' \<and>
     i \<in> holders (w_db (sy_world s')) (hashData [7]) \<and> m \<in> set (db_nodes (w_db (sy_world s'))) \<and> ni_id m = i \<and>
     holds (sy_world s') (ni_address m) (hashData [7])"
proof -
  obtain w' up' where r: "run Inr demo_handler \<lparr>sy_world = demo_cluster, sy_uploads = []\<rparr> [Begin demo_backup, Turn demo_env]
      \<lparr>sy_world = w', sy_uploads = [up']\<rparr>" and two: "2 \<le> card (holders (w_db w') (hashData [7]))"
    using demo_runs by blast
  then obtain i where i: "i \<in> holders (w_db w') (hashData [7])" by fastforce
  have "\<exists>m \<in> set (db_nodes (w_db w')). ni_id m = i \<and>
      (\<exists>n d. w_nodes w' (ni_address m) = Some n \<and> blob (nd_store n) (hashData [7]) = Some d \<and> hashData d = hashData [7])"
    using tables_stay_true [OF r demo_sys, of i "hashData [7]"] i demo_facts(2) by simp
  with r i show ?thesis
    by (intro exI [of _ "\<lparr>sy_world = w', sy_uploads = [up']\<rparr>"] exI [of _ i]) (auto simp: holds_def has_chunk_def)
qed

end
