(* ===== verification/Utf8.thy ===== *)
theory Utf8
  imports Handlers
begin

text \<open>
  UTF-8 as \<^verbatim>\<open>unicode/utf8\<close> reads it: what \<^verbatim>\<open>regexp\<close> makes of the bytes of a pattern and of a
  path. Bytes and runes are natural numbers.
\<close>

text \<open>The code unit of a byte of a string.\<close>

abbreviation code :: "char \<Rightarrow> nat" where
  "code c \<equiv> of_char c"

definition continues :: "nat \<Rightarrow> bool" where
  "continues b \<longleftrightarrow> 0x80 \<le> b \<and> b \<le> 0xBF"

abbreviation RuneError :: nat where
  "RuneError \<equiv> 0xFFFD"

text \<open>
  The length of the well-formed encoding a byte string starts with, 0 when there is none: the
  lead bytes and the ranges of the second byte of \<^verbatim>\<open>unicode/utf8\<close>.
\<close>

fun encoding_length :: "nat list \<Rightarrow> nat" where
  "encoding_length (a # bs) =
     (if a < 0x80 then 1
      else case bs of
        b # cs \<Rightarrow>
          if 0xC2 \<le> a \<and> a \<le> 0xDF \<and> continues b then 2
          else (case cs of
              c # ds \<Rightarrow>
                if 0xE0 \<le> a \<and> a \<le> 0xEF \<and> continues b \<and> continues c \<and>
                   (a = 0xE0 \<longrightarrow> 0xA0 \<le> b) \<and> (a = 0xED \<longrightarrow> b \<le> 0x9F) then 3
                else (case ds of
                    d # _ \<Rightarrow>
                      if 0xF0 \<le> a \<and> a \<le> 0xF4 \<and> continues b \<and> continues c \<and> continues d \<and>
                         (a = 0xF0 \<longrightarrow> 0x90 \<le> b) \<and> (a = 0xF4 \<longrightarrow> b \<le> 0x8F) then 4
                      else 0
                  | [] \<Rightarrow> 0)
            | [] \<Rightarrow> 0)
      | [] \<Rightarrow> 0)"
| "encoding_length [] = 0"

text \<open>The bits the bytes of an encoding carry.\<close>

definition rune_of :: "nat list \<Rightarrow> nat" where
  "rune_of bs =
     (case bs of
        [a] \<Rightarrow> a
      | [a, b] \<Rightarrow> (a - 0xC0) * 64 + (b - 0x80)
      | [a, b, c] \<Rightarrow> ((a - 0xE0) * 64 + (b - 0x80)) * 64 + (c - 0x80)
      | [a, b, c, d] \<Rightarrow> (((a - 0xF0) * 64 + (b - 0x80)) * 64 + (c - 0x80)) * 64 + (d - 0x80)
      | _ \<Rightarrow> RuneError)"

text \<open>\<^verbatim>\<open>[]rune(s)\<close>: a byte that starts no well-formed encoding is one \<^verbatim>\<open>U+FFFD\<close>.\<close>

function decode_runes :: "nat list \<Rightarrow> nat list" where
  "decode_runes [] = []"
| "decode_runes (a # bs) =
     (let n = encoding_length (a # bs) in
      if n = 0 then RuneError # decode_runes bs
      else rune_of (take n (a # bs)) # decode_runes (drop n (a # bs)))"
  by pat_completeness auto
termination by (relation "measure length") (auto simp del: encoding_length.simps)

function valid_utf8 :: "nat list \<Rightarrow> bool" where
  "valid_utf8 [] = True"
| "valid_utf8 (a # bs) =
     (let n = encoding_length (a # bs) in if n = 0 then False else valid_utf8 (drop n (a # bs)))"
  by pat_completeness auto
termination by (relation "measure length") (auto simp del: encoding_length.simps)

declare encoding_length.simps [simp del]

definition runes :: "string \<Rightarrow> nat list" where
  "runes s = decode_runes (map code s)"

definition ValidString :: "string \<Rightarrow> bool" where
  "ValidString s = valid_utf8 (map code s)"

lemma code_eq_iff [simp]: "code c = code d \<longleftrightarrow> c = d"
  by (rule of_char_eq_iff)

lemma encoding_length_ascii [simp]: "a < 128 \<Longrightarrow> encoding_length (a # bs) = 1"
  by (simp add: encoding_length.simps)

lemma rune_of_single [simp]: "rune_of [a] = a"
  by (simp add: rune_of_def)

lemma decode_ascii [simp]: "a < 128 \<Longrightarrow> decode_runes (a # bs) = a # decode_runes bs"
  by simp

lemma valid_ascii [simp]: "a < 128 \<Longrightarrow> valid_utf8 (a # bs) = valid_utf8 bs"
  by simp

declare decode_runes.simps(2) [simp del] valid_utf8.simps(2) [simp del]

text \<open>An encoding of more than one byte has no ASCII byte in it, and does not depend on what follows.\<close>

lemma encoding_length_le: "encoding_length bs \<le> length bs"
  by (induction bs rule: encoding_length.induct) (auto simp: encoding_length.simps split: list.splits)

lemma encoding_length_append:
  assumes "encoding_length bs \<noteq> 0"
  shows "encoding_length (bs @ cs) = encoding_length bs"
  using assms
  by (cases bs rule: encoding_length.cases) (auto simp: encoding_length.simps split: list.splits if_splits)

lemma encoding_bytes:
  assumes "128 \<le> a" and "b \<in> set (take (encoding_length (a # bs)) (a # bs))"
  shows "128 \<le> b"
  using assms
  by (auto simp: encoding_length.simps continues_def split: list.splits if_splits)

lemma rune_of_ge:
  assumes "128 \<le> a" and "encoding_length (a # bs) \<noteq> 0"
  shows "128 \<le> rune_of (take (encoding_length (a # bs)) (a # bs))"
  using assms
  by (auto simp: encoding_length.simps continues_def rune_of_def split: list.splits if_splits)

text \<open>Induction over a valid string, one rune at a time.\<close>

lemma valid_runes_induct [consumes 1, case_names Nil Ascii Wide]:
  assumes "valid_utf8 s"
    and "P []"
    and "\<And>a s. a < 128 \<Longrightarrow> valid_utf8 s \<Longrightarrow> P s \<Longrightarrow> P (a # s)"
    and "\<And>u r s. u \<noteq> [] \<Longrightarrow> \<forall>b \<in> set u. 128 \<le> b \<Longrightarrow> 128 \<le> r \<Longrightarrow> r = rune_of u \<Longrightarrow>
      (\<And>t. encoding_length (u @ t) = length u) \<Longrightarrow> valid_utf8 s \<Longrightarrow> P s \<Longrightarrow> P (u @ s)"
  shows "P s"
  using assms(1)
proof (induction s rule: valid_utf8.induct)
  case 1
  show ?case by (rule assms(2))
next
  case (2 a bs)
  let ?n = "encoding_length (a # bs)" and ?u = "take (encoding_length (a # bs)) (a # bs)"
  have n: "?n \<noteq> 0" and v: "valid_utf8 (drop ?n (a # bs))" using "2.prems" by (simp_all add: Let_def valid_utf8.simps(2) split: if_splits)
  have IH: "P (drop ?n (a # bs))" using "2.IH" n v by simp
  show ?case
  proof (cases "a < 128")
    case True
    with IH v show ?thesis using assms(3) [of a bs] by simp
  next
    case False
    have len: "length ?u = ?n" using encoding_length_le [of "a # bs"] by simp
    have u: "encoding_length ?u = ?n"
      using n by (auto simp: encoding_length.simps split: list.splits if_splits)
    then have "encoding_length (?u @ t) = length ?u" for t
      using encoding_length_append [of ?u t] n len by simp
    moreover have "?u \<noteq> []" using n by simp
    moreover have "\<forall>b \<in> set ?u. 128 \<le> b" using encoding_bytes [of a _ bs] False by auto
    ultimately have "P (?u @ drop ?n (a # bs))"
      using assms(4) [of ?u "rune_of ?u" "drop ?n (a # bs)"] rune_of_ge [of a bs] False n v IH by simp
    then show ?thesis by simp
  qed
qed

lemma wide_cons:
  assumes "u \<noteq> []" and "encoding_length (u @ t) = length u"
  shows "decode_runes (u @ t) = rune_of u # decode_runes t" and "valid_utf8 (u @ t) = valid_utf8 t"
  using assms by (cases u; simp add: Let_def decode_runes.simps(2) valid_utf8.simps(2))+

end
