(* ===== verification/Glob.thy ===== *)
theory Glob
  imports Utf8
begin

text \<open>
  The exclude patterns of a backup job (\<^verbatim>\<open>globToRegexp\<close>, \<^verbatim>\<open>newExcludeMatcher\<close> and
  \<^verbatim>\<open>match\<close> in \<^verbatim>\<open>cmd/backupctl/main.go\<close>): a glob is rewritten into the text of a regular
  expression, which \<^verbatim>\<open>regexp\<close> compiles and matches. The relation \<open>glob\<close> says what a pattern
  means, and the route through the expression is proved to agree with it.
\<close>

subsection \<open>The pattern as a regular expression\<close>

text \<open>\<^verbatim>\<open>ToSlash\<close> and \<^verbatim>\<open>FromSlash\<close> are the identity on Unix; \<^verbatim>\<open>strings.Trim(s, "/")\<close>:\<close>

definition trim_slashes :: "string \<Rightarrow> string" where
  "trim_slashes s = rev (dropWhile (\<lambda>c. c = CHR ''/'') (rev (dropWhile (\<lambda>c. c = CHR ''/'') s)))"

definition meta_chars :: string where
  "meta_chars = ''.+()|{}[]^$'' @ [CHR 0x5C]"

fun globToRegexp :: "string \<Rightarrow> string" where
  "globToRegexp [] = []"
| "globToRegexp (c # cs) =
     (if c = CHR ''*'' then
        (case cs of
           d # ds \<Rightarrow>
             if d = CHR ''*'' then
               (case ds of
                  e # es \<Rightarrow>
                    if e = CHR ''/'' then ''(?:.*/)?'' @ globToRegexp es
                    else ''.*'' @ globToRegexp ds
                | [] \<Rightarrow> ''.*'' @ globToRegexp ds)
             else ''[^/]*'' @ globToRegexp cs
         | [] \<Rightarrow> ''[^/]*'' @ globToRegexp cs)
      else if c = CHR ''?'' then ''[^/]'' @ globToRegexp cs
      else if c \<in> set meta_chars then CHR 0x5C # c # globToRegexp cs
      else c # globToRegexp cs)"

subsection \<open>The part of \<^verbatim>\<open>regexp\<close> these expressions use\<close>

text \<open>
  One rune out of a class, repetition, option, sequence. \<^verbatim>\<open>.\<close> is any rune but a newline, a
  negated class matches a newline.
\<close>

datatype rune_class = Literal nat | NotNewline | NotRune nat

datatype regex = Class rune_class | Repeat regex | Optional regex | Sequence "regex list"

fun in_class :: "rune_class \<Rightarrow> nat \<Rightarrow> bool" where
  "in_class (Literal r) x = (x = r)"
| "in_class NotNewline x = (x \<noteq> 10)"
| "in_class (NotRune r) x = (x \<noteq> r)"

text \<open>What is left of the input after a match at its beginning, for every such match.\<close>

function rests :: "regex \<Rightarrow> nat list \<Rightarrow> nat list list" where
  "rests (Class c) s = (case s of [] \<Rightarrow> [] | x # xs \<Rightarrow> if in_class c x then [xs] else [])"
| "rests (Repeat e) s = s # concat (map (rests (Repeat e)) (filter (\<lambda>t. length t < length s) (rests e s)))"
| "rests (Optional e) s = s # rests e s"
| "rests (Sequence []) s = [s]"
| "rests (Sequence (e # es)) s = concat (map (rests (Sequence es)) (rests e s))"
  by pat_completeness auto
termination by (relation "inv_image (less_than <*lex*> less_than) (\<lambda>(e, s). (size e, length s))") auto

text \<open>
  The syntax of \<^verbatim>\<open>regexp\<close> on the forms that occur: the four groups, an escaped
  punctuation character, a literal. Another operator is outside of this fragment.
\<close>

abbreviation cps :: "string \<Rightarrow> nat list" where
  "cps \<equiv> map code"

function parse_regex :: "nat list \<Rightarrow> regex list option" where
  "parse_regex s =
     (if s = [] then Some []
      else if HasPrefix s (cps ''(?:.*/)?'') then
        map_option ((#) (Optional (Sequence [Repeat (Class NotNewline), Class (Literal (code (CHR ''/'')))])))
          (parse_regex (drop 8 s))
      else if HasPrefix s (cps ''.*'') then map_option ((#) (Repeat (Class NotNewline))) (parse_regex (drop 2 s))
      else if HasPrefix s (cps ''[^/]*'') then
        map_option ((#) (Repeat (Class (NotRune (code (CHR ''/'')))))) (parse_regex (drop 5 s))
      else if HasPrefix s (cps ''[^/]'') then
        map_option ((#) (Class (NotRune (code (CHR ''/''))))) (parse_regex (drop 4 s))
      else if hd s = 0x5C then
        (case tl s of
           r # t \<Rightarrow> if r \<in> code ` set meta_chars then map_option ((#) (Class (Literal r))) (parse_regex (drop 2 s)) else None
         | [] \<Rightarrow> None)
      else if hd s \<in> code ` set (''*?'' @ meta_chars) then None
      else map_option ((#) (Class (Literal (hd s)))) (parse_regex (drop 1 s)))"
  by pat_completeness auto
termination by (relation "measure length") (auto simp: neq_Nil_conv)

declare parse_regex.simps [simp del]

text \<open>\<^verbatim>\<open>regexp.Compile\<close> of an expression between \<^verbatim>\<open>^\<close> and \<^verbatim>\<open>$\<close>: an anchored match is a match of the whole text.\<close>

definition compile_anchored :: "string \<Rightarrow> regex result" where
  "compile_anchored e =
     (if \<not> ValidString e then Inl ''invalid UTF-8''
      else case parse_regex (runes e) of None \<Rightarrow> Inl ''unsupported'' | Some es \<Rightarrow> Inr (Sequence es))"

definition MatchString :: "regex \<Rightarrow> string \<Rightarrow> bool" where
  "MatchString re s \<longleftrightarrow> [] \<in> set (rests re (runes s))"

subsection \<open>The exclude matcher\<close>

record excludePattern =
  ep_raw :: string
  ep_re :: regex

fun newExcludeMatcher :: "string list \<Rightarrow> excludePattern list result" where
  "newExcludeMatcher [] = Inr []"
| "newExcludeMatcher (p # ps) =
     (let pattern = trim_slashes (TrimSpace p) in
      if pattern = [] then newExcludeMatcher ps
      else case compile_anchored (globToRegexp pattern) of
          Inl err \<Rightarrow> Inl ''invalid exclude pattern''
        | Inr re \<Rightarrow> map_sum id ((#) \<lparr>ep_raw = pattern, ep_re = re\<rparr>) (newExcludeMatcher ps))"

definition exclude_match :: "excludePattern list \<Rightarrow> string \<Rightarrow> bool \<Rightarrow> bool" where
  "exclude_match m path isDir =
     (let path = trim_slashes path in
      list_ex (\<lambda>p. MatchString (ep_re p) path \<or> isDir \<and> MatchString (ep_re p) (path @ ''/'')) m)"

subsection \<open>What a pattern means\<close>

text \<open>
  \<^verbatim>\<open>?\<close> is one rune of a name and \<^verbatim>\<open>*\<close> any number of them, \<^verbatim>\<open>**\<close> crosses directories and
  \<^verbatim>\<open>**/\<close> is any number of leading directories, none included. Only \<^verbatim>\<open>**\<close> stops at a newline.
\<close>

abbreviation "rune_slash \<equiv> 0x2F :: nat"
abbreviation "rune_star \<equiv> 0x2A :: nat"
abbreviation "rune_question \<equiv> 0x3F :: nat"

inductive glob :: "nat list \<Rightarrow> nat list \<Rightarrow> bool" where
  empty: "glob [] []"
| literal: "r \<notin> {rune_star, rune_question} \<Longrightarrow> glob p s \<Longrightarrow> glob (r # p) (r # s)"
| one: "r \<noteq> rune_slash \<Longrightarrow> glob p s \<Longrightarrow> glob (rune_question # p) (r # s)"
| name: "\<not> HasPrefix p [rune_star] \<Longrightarrow> rune_slash \<notin> set u \<Longrightarrow> glob p s \<Longrightarrow> glob (rune_star # p) (u @ s)"
| tree: "\<not> HasPrefix p [rune_slash] \<Longrightarrow> 10 \<notin> set u \<Longrightarrow> glob p s \<Longrightarrow> glob (rune_star # rune_star # p) (u @ s)"
| here: "glob p s \<Longrightarrow> glob (rune_star # rune_star # rune_slash # p) s"
| below: "10 \<notin> set u \<Longrightarrow> glob p s \<Longrightarrow>
    glob (rune_star # rune_star # rune_slash # p) (u @ rune_slash # s)"

inductive_simps glob_Nil: "glob [] s"
inductive_simps glob_Cons: "glob (r # p) s"

subsection \<open>The same, expression by expression\<close>

fun items :: "nat list \<Rightarrow> regex list" where
  "items [] = []"
| "items (c # cs) =
     (if c = rune_star then
        (case cs of
           d # ds \<Rightarrow>
             if d = rune_star then
               (case ds of
                  e # es \<Rightarrow>
                    if e = rune_slash then
                      Optional (Sequence [Repeat (Class NotNewline), Class (Literal rune_slash)]) # items es
                    else Repeat (Class NotNewline) # items ds
                | [] \<Rightarrow> Repeat (Class NotNewline) # items ds)
             else Repeat (Class (NotRune rune_slash)) # items cs
         | [] \<Rightarrow> Repeat (Class (NotRune rune_slash)) # items cs)
      else if c = rune_question then Class (NotRune rune_slash) # items cs
      else Class (Literal c) # items cs)"

declare rests.simps(2) [simp del]

lemma rests_Repeat_Nil [simp]: "rests (Repeat e) [] = [[]]"
  by (simp add: rests.simps(2))

lemma rests_Repeat_Class_Cons:
  "rests (Repeat (Class c)) (x # s) =
     (if in_class c x then (x # s) # rests (Repeat (Class c)) s else [x # s])"
  by (subst rests.simps(2)) simp

lemma rests_Repeat_Class:
  "set (rests (Repeat (Class c)) s) = {t. \<exists>u. s = u @ t \<and> (\<forall>x \<in> set u. in_class c x)}"
proof (induction s)
  case (Cons x s)
  then show ?case
    by (auto simp: rests_Repeat_Class_Cons Cons_eq_append_conv)
qed auto

lemma accepts_Cons:
  "[] \<in> set (rests (Sequence (e # es)) s) \<longleftrightarrow> (\<exists>t \<in> set (rests e s). [] \<in> set (rests (Sequence es) t))"
  by auto

lemma rests_Dirs:
  "set (rests (Optional (Sequence [Repeat (Class NotNewline), Class (Literal r)])) s) =
     insert s {t. \<exists>u. s = u @ r # t \<and> 10 \<notin> set u}"
proof -
  have "set (rests (Sequence [Repeat (Class NotNewline), Class (Literal r)]) s) =
      (\<Union>t \<in> set (rests (Repeat (Class NotNewline)) s). {v. t = r # v})"
    by (auto split: list.splits)
  then show ?thesis by (auto simp: rests_Repeat_Class)
qed

lemma pattern_cases [case_names empty dirs tree name one literal]:
  obtains "p = []" | es where "p = rune_star # rune_star # rune_slash # es"
  | ds where "p = rune_star # rune_star # ds" "\<not> HasPrefix ds [rune_slash]"
  | cs where "p = rune_star # cs" "\<not> HasPrefix cs [rune_star]"
  | cs where "p = rune_question # cs"
  | c cs where "p = c # cs" "c \<notin> {rune_star, rune_question}"
proof (cases p)
  case (Cons c cs)
  show thesis
  proof (cases "c = rune_star \<and> HasPrefix cs [rune_star]")
    case True
    then obtain ds where ds: "p = rune_star # rune_star # ds" using Cons by (auto simp: HasPrefix_iff)
    show thesis
    proof (cases "HasPrefix ds [rune_slash]")
      case True
      with ds that(2) show thesis by (auto simp: HasPrefix_iff)
    next
      case False
      with ds that(3) show thesis by blast
    qed
  qed (use that Cons in auto)
qed (use that in auto)

lemma items_glob: "[] \<in> set (rests (Sequence (items p)) s) \<longleftrightarrow> glob p s"
proof (induction p arbitrary: s rule: measure_induct_rule [of length])
  case (less p)
  note IH = less.IH
  show ?case
  proof (cases p rule: pattern_cases)
    case empty
    then show ?thesis by (auto simp: glob_Nil)
  next
    case (dirs es)
    then have it: "items p = Optional (Sequence [Repeat (Class NotNewline), Class (Literal rune_slash)]) # items es"
      by simp
    have "[] \<in> set (rests (Sequence (items es)) t) \<longleftrightarrow> glob es t" for t
      using IH [of es] dirs by simp
    then show ?thesis
      unfolding it accepts_Cons rests_Dirs unfolding dirs glob_Cons by auto
  next
    case (tree ds)
    then have it: "items p = Repeat (Class NotNewline) # items ds" by (auto split: list.split)
    have "[] \<in> set (rests (Sequence (items ds)) t) \<longleftrightarrow> glob ds t" for t
      using IH [of ds] tree by simp
    then show ?thesis
      unfolding it accepts_Cons rests_Repeat_Class using tree(2) unfolding tree(1) glob_Cons by auto blast
  next
    case (name cs)
    then have it: "items p = Repeat (Class (NotRune rune_slash)) # items cs" by (auto split: list.split)
    have "[] \<in> set (rests (Sequence (items cs)) t) \<longleftrightarrow> glob cs t" for t
      using IH [of cs] name by simp
    then show ?thesis
      unfolding it accepts_Cons rests_Repeat_Class using name(2) unfolding name(1) glob_Cons by auto blast
  next
    case (one cs)
    then show ?thesis using IH [of cs] by (auto simp: glob_Cons split: list.splits)
  next
    case (literal c cs)
    then show ?thesis using IH [of cs] by (auto simp: glob_Cons split: list.splits)
  qed
qed

subsection \<open>The text of the expression\<close>

text \<open>\<open>globToRegexp\<close> on the runes of a pattern: every special character is ASCII.\<close>

fun rune_regexp :: "nat list \<Rightarrow> nat list" where
  "rune_regexp [] = []"
| "rune_regexp (c # cs) =
     (if c = rune_star then
        (case cs of
           d # ds \<Rightarrow>
             if d = rune_star then
               (case ds of
                  e # es \<Rightarrow>
                    if e = rune_slash then cps ''(?:.*/)?'' @ rune_regexp es else cps ''.*'' @ rune_regexp ds
                | [] \<Rightarrow> cps ''.*'' @ rune_regexp ds)
             else cps ''[^/]*'' @ rune_regexp cs
         | [] \<Rightarrow> cps ''[^/]*'' @ rune_regexp cs)
      else if c = rune_question then cps ''[^/]'' @ rune_regexp cs
      else if c \<in> code ` set meta_chars then 0x5C # c # rune_regexp cs
      else c # rune_regexp cs)"

lemma code_chars: "code CHR ''*'' = rune_star" "code CHR ''?'' = rune_question" "code CHR ''/'' = rune_slash"
  "code (CHR 0x5C) = 0x5C"
  by simp_all

lemma char_codes: "c = CHR ''*'' \<longleftrightarrow> code c = rune_star" "c = CHR ''?'' \<longleftrightarrow> code c = rune_question"
  "c = CHR ''/'' \<longleftrightarrow> code c = rune_slash" "c \<in> set meta_chars \<longleftrightarrow> code c \<in> code ` set meta_chars"
  unfolding code_chars [symmetric] code_eq_iff by auto

lemma rune_regexp_tree: "\<not> HasPrefix ds [rune_slash] \<Longrightarrow>
    rune_regexp (rune_star # rune_star # ds) = cps ''.*'' @ rune_regexp ds"
  by (cases ds) auto

lemma rune_regexp_name: "\<not> HasPrefix cs [rune_star] \<Longrightarrow>
    rune_regexp (rune_star # cs) = cps ''[^/]*'' @ rune_regexp cs"
  by (cases cs) auto

lemma globToRegexp_tree: "\<not> HasPrefix ds ''/'' \<Longrightarrow>
    globToRegexp (CHR ''*'' # CHR ''*'' # ds) = ''.*'' @ globToRegexp ds"
  by (cases ds) auto

lemma globToRegexp_name: "\<not> HasPrefix cs ''*'' \<Longrightarrow>
    globToRegexp (CHR ''*'' # cs) = ''[^/]*'' @ globToRegexp cs"
  by (cases cs) auto

lemma codes_Cons: "cps p = r # rs \<longleftrightarrow> (\<exists>c q. p = c # q \<and> code c = r \<and> cps q = rs)"
  by auto

lemma codes_slash: "HasPrefix (cps p) [rune_slash] \<longleftrightarrow> HasPrefix p ''/''"
proof (cases p)
  case (Cons c q)
  then show ?thesis using char_codes(3) [of c] by (simp del: of_char_Char)
qed (simp add: HasPrefix_def)

lemma codes_star: "HasPrefix (cps p) [rune_star] \<longleftrightarrow> HasPrefix p ''*''"
proof (cases p)
  case (Cons c q)
  then show ?thesis using char_codes(1) [of c] by (simp del: of_char_Char)
qed (simp add: HasPrefix_def)

lemmas codes_prefix = codes_slash codes_star

lemma globToRegexp_codes: "cps (globToRegexp p) = rune_regexp (cps p)"
proof (induction p rule: measure_induct_rule [of length])
  case (less p)
  note IH = less.IH
  show ?case
  proof (cases "cps p" rule: pattern_cases)
    case (dirs es)
    then obtain q where "p = CHR ''*'' # CHR ''*'' # CHR ''/'' # q" "es = cps q"
      by (auto simp: codes_Cons char_codes(1-3) [symmetric] simp del: of_char_Char)
    then show ?thesis using IH [of q] by simp
  next
    case (tree ds)
    then obtain q where "p = CHR ''*'' # CHR ''*'' # q" "ds = cps q"
      by (auto simp: codes_Cons char_codes(1-3) [symmetric] simp del: of_char_Char)
    then show ?thesis using IH [of q] tree
      by (simp add: rune_regexp_tree globToRegexp_tree codes_prefix del: rune_regexp.simps globToRegexp.simps)
  next
    case (name cs)
    then obtain q where "p = CHR ''*'' # q" "cs = cps q"
      by (auto simp: codes_Cons char_codes(1-3) [symmetric] simp del: of_char_Char)
    then show ?thesis using IH [of q] name
      by (simp add: rune_regexp_name globToRegexp_name codes_prefix del: rune_regexp.simps globToRegexp.simps)
  next
    case (one cs)
    then obtain q where "p = CHR ''?'' # q" "cs = cps q"
      by (auto simp: codes_Cons char_codes(1-3) [symmetric] simp del: of_char_Char)
    then show ?thesis using IH [of q] by simp
  next
    case (literal r cs)
    then obtain c q where "p = c # q" "code c = r" "cs = cps q" by (auto simp: codes_Cons)
    then show ?thesis using IH [of q] literal(2)
      by (auto simp: char_codes [symmetric] code_chars(4) simp del: of_char_Char)
  qed simp
qed

lemma meta_ascii: "c \<in> set meta_chars \<Longrightarrow> code c < 128"
  by (auto simp: meta_chars_def)

lemma meta_code: "128 \<le> c \<Longrightarrow> c \<notin> code ` set meta_chars"
  using meta_ascii by fastforce

text \<open>Runes beyond ASCII are copied.\<close>

lemma rune_regexp_wide: "\<forall>b \<in> set u. 128 \<le> b \<Longrightarrow> rune_regexp (u @ s) = u @ rune_regexp s"
  by (induction u) (simp_all add: meta_code)

lemma takeWhile_wide:
  "takeWhile (\<lambda>b. 128 \<le> b) (rune_regexp s) = takeWhile (\<lambda>b. 128 \<le> b) s"
  by (induction s rule: rune_regexp.induct) (simp_all add: meta_code split: list.splits)

lemma encoding_length_takeWhile:
  assumes "128 \<le> a"
  shows "encoding_length (a # takeWhile (\<lambda>b. 128 \<le> b) s) = encoding_length (a # s)"
  using assms
  by (cases s; cases "tl s"; cases "tl (tl s)"; auto simp: encoding_length.simps continues_def)

lemma valid_regexp: "valid_utf8 (rune_regexp s) = valid_utf8 s"
proof (induction s rule: measure_induct_rule [of length])
  case (less s)
  note IH = less.IH
  show ?case
  proof (cases s rule: pattern_cases)
    case (dirs es)
    then show ?thesis using IH [of es] by simp
  next
    case (tree ds)
    then show ?thesis using IH [of ds] by (simp add: rune_regexp_tree del: rune_regexp.simps)
  next
    case (name cs)
    then show ?thesis using IH [of cs] by (simp add: rune_regexp_name del: rune_regexp.simps)
  next
    case (one cs)
    then show ?thesis using IH [of cs] by simp
  next
    case (literal a t)
    show ?thesis
    proof (cases "a < 128")
      case True
      then show ?thesis using literal IH [of t] by simp
    next
      case False
      then have out: "rune_regexp s = a # rune_regexp t"
        using rune_regexp_wide [of "[a]" t] by (simp add: literal)
      let ?n = "encoding_length s"
      have n: "encoding_length (a # rune_regexp t) = ?n"
        using False encoding_length_takeWhile [of a t] encoding_length_takeWhile [of a "rune_regexp t"]
        by (simp add: takeWhile_wide literal)
      show ?thesis
      proof (cases "?n = 0")
        case True
        then show ?thesis using out n by (simp add: literal Let_def valid_utf8.simps(2))
      next
        case nz: False
        let ?u = "take ?n s"
        have "\<forall>b \<in> set ?u. 128 \<le> b" using encoding_bytes [of a _ t] False by (auto simp: literal)
        then have d: "rune_regexp s = ?u @ rune_regexp (drop ?n s)"
          using rune_regexp_wide [of ?u "drop ?n s"] by simp
        have len: "length ?u = ?n" using encoding_length_le [of s] by simp
        have "drop ?n (a # rune_regexp t) = rune_regexp (drop ?n s)"
          using d len unfolding out by (metis append_eq_conv_conj)
        moreover have "valid_utf8 (rune_regexp (drop ?n s)) = valid_utf8 (drop ?n s)"
          using nz by (intro IH) (simp add: literal)
        ultimately show ?thesis using n nz unfolding out
          by (simp add: literal(1) Let_def valid_utf8.simps(2))
      qed
    qed
  qed simp
qed

lemma valid_cases:
  "valid_utf8 s \<Longrightarrow> s = [] \<or> (\<exists>a t. s = a # t \<and> a < 128 \<and> valid_utf8 t) \<or>
     (\<exists>u t. s = u @ t \<and> u \<noteq> [] \<and> (\<forall>b \<in> set u. 128 \<le> b) \<and> 128 \<le> rune_of u \<and>
       (\<forall>t. encoding_length (u @ t) = length u) \<and> valid_utf8 t)"
  by (induction rule: valid_runes_induct) blast+

lemma decode_head:
  assumes "valid_utf8 s" and "r < 128"
  shows "HasPrefix (decode_runes s) [r] \<longleftrightarrow> HasPrefix s [r]"
  using valid_cases [OF assms(1)]
proof (elim disjE exE conjE)
  fix u t assume s: "s = u @ t" and u: "u \<noteq> []" "\<forall>b \<in> set u. 128 \<le> b" "128 \<le> rune_of u"
    "\<forall>t. encoding_length (u @ t) = length u"
  then show ?thesis using assms(2) wide_cons(1) [of u t] by (cases u) auto
qed auto

lemma decode_regexp: "valid_utf8 s \<Longrightarrow> decode_runes (rune_regexp s) = rune_regexp (decode_runes s)"
proof (induction s rule: measure_induct_rule [of length])
  case (less s)
  have IH: "decode_runes (rune_regexp t) = rune_regexp (decode_runes t)" if "length t < length s" "valid_utf8 t" for t
    using less.IH [OF that] .
  show ?case
  proof (cases s rule: pattern_cases)
    case (dirs es)
    then show ?thesis using IH [of es] less.prems by simp
  next
    case (tree ds)
    then have v: "valid_utf8 ds" using less.prems by simp
    then have "\<not> HasPrefix (decode_runes ds) [rune_slash]" using tree decode_head [of ds rune_slash] by simp
    then show ?thesis using IH [of ds] v tree
      by (simp add: rune_regexp_tree del: rune_regexp.simps)
  next
    case (name cs)
    then have v: "valid_utf8 cs" using less.prems by simp
    then have "\<not> HasPrefix (decode_runes cs) [rune_star]" using name decode_head [of cs rune_star] by simp
    then show ?thesis using IH [of cs] v name
      by (simp add: rune_regexp_name del: rune_regexp.simps)
  next
    case (one cs)
    then show ?thesis using IH [of cs] less.prems by simp
  next
    case (literal c cs)
    show ?thesis
    proof (cases "c < 128")
      case True
      then show ?thesis using literal IH [of cs] less.prems by simp
    next
      case False
      then obtain u t where s: "s = u @ t" and u: "u \<noteq> []" "\<forall>b \<in> set u. 128 \<le> b" "128 \<le> rune_of u"
        "\<forall>t. encoding_length (u @ t) = length u" "valid_utf8 t"
        using valid_cases [OF less.prems] literal by auto
      then have "decode_runes (rune_regexp t) = rune_regexp (decode_runes t)" by (intro IH) simp_all
      then show ?thesis
        using s u wide_cons(1) [of u] rune_regexp_wide [OF u(2), of t] by (simp add: meta_code)
    qed
  qed simp
qed

text \<open>Reading the expression back.\<close>

lemma rune_regexp_head: "\<not> HasPrefix (rune_regexp s) [rune_star]"
  by (cases s rule: pattern_cases)
    (simp_all add: rune_regexp_tree rune_regexp_name HasPrefix_def split: list.splits)

lemma HasPrefix_long: "length s < length p \<Longrightarrow> \<not> HasPrefix s p"
  by (auto simp: HasPrefix_def)

lemma parse_tree: "parse_regex (cps ''.*'' @ t) = map_option ((#) (Repeat (Class NotNewline))) (parse_regex t)"
  by (subst parse_regex.simps) simp

lemma parse_dirs: "parse_regex (cps ''(?:.*/)?'' @ t) =
    map_option ((#) (Optional (Sequence [Repeat (Class NotNewline), Class (Literal rune_slash)]))) (parse_regex t)"
  by (subst parse_regex.simps) simp

lemma parse_name: "parse_regex (cps ''[^/]*'' @ t) = map_option ((#) (Repeat (Class (NotRune rune_slash)))) (parse_regex t)"
  by (subst parse_regex.simps) simp

lemma parse_one: "\<not> HasPrefix t [rune_star] \<Longrightarrow>
    parse_regex (cps ''[^/]'' @ t) = map_option ((#) (Class (NotRune rune_slash))) (parse_regex t)"
  by (subst parse_regex.simps) simp

lemma parse_escaped: "r \<in> code ` set meta_chars \<Longrightarrow>
    parse_regex (0x5C # r # t) = map_option ((#) (Class (Literal r))) (parse_regex t)"
  by (subst parse_regex.simps) simp

lemma parse_literal: "r \<notin> {rune_star, rune_question} \<Longrightarrow> r \<notin> code ` set meta_chars \<Longrightarrow>
    parse_regex (r # t) = map_option ((#) (Class (Literal r))) (parse_regex t)"
  by (subst parse_regex.simps) (auto simp: meta_chars_def)

lemma parse_rune_regexp: "parse_regex (rune_regexp s) = Some (items s)"
proof (induction s rule: measure_induct_rule [of length])
  case (less s)
  note IH = less.IH
  show ?case
  proof (cases s rule: pattern_cases)
    case empty
    then show ?thesis by (simp add: parse_regex.simps)
  next
    case (dirs es)
    have e: "parse_regex (rune_regexp es) = Some (items es)" by (rule IH) (simp add: dirs)
    have "rune_regexp s = cps ''(?:.*/)?'' @ rune_regexp es" unfolding dirs by simp
    then have "parse_regex (rune_regexp s) = map_option ((#) (Optional (Sequence
        [Repeat (Class NotNewline), Class (Literal rune_slash)]))) (parse_regex (rune_regexp es))"
      by (simp only: parse_dirs)
    moreover have "items s = Optional (Sequence [Repeat (Class NotNewline), Class (Literal rune_slash)]) # items es"
      unfolding dirs by simp
    ultimately show ?thesis by (simp only: e option.map)
  next
    case (tree ds)
    have e: "parse_regex (rune_regexp ds) = Some (items ds)" by (rule IH) (simp add: tree)
    have "parse_regex (rune_regexp s) = map_option ((#) (Repeat (Class NotNewline))) (parse_regex (rune_regexp ds))"
      unfolding tree(1) rune_regexp_tree [OF tree(2)] by (rule parse_tree)
    moreover have "items s = Repeat (Class NotNewline) # items ds"
      using tree by (auto split: list.split)
    ultimately show ?thesis by (simp only: e option.map)
  next
    case (name cs)
    have e: "parse_regex (rune_regexp cs) = Some (items cs)" by (rule IH) (simp add: name)
    have "parse_regex (rune_regexp s) = map_option ((#) (Repeat (Class (NotRune rune_slash)))) (parse_regex (rune_regexp cs))"
      unfolding name(1) rune_regexp_name [OF name(2)] by (rule parse_name)
    moreover have "items s = Repeat (Class (NotRune rune_slash)) # items cs"
      using name by (auto split: list.split)
    ultimately show ?thesis by (simp only: e option.map)
  next
    case (one cs)
    then have "rune_regexp s = cps ''[^/]'' @ rune_regexp cs" by simp
    then show ?thesis using IH [of cs] one by (simp only: parse_one [OF rune_regexp_head]) simp
  next
    case (literal c cs)
    then show ?thesis using IH [of cs] parse_literal [of c "rune_regexp cs"] parse_escaped [of c "rune_regexp cs"]
      by (cases "c \<in> code ` set meta_chars") simp_all
  qed
qed

lemma compile_globToRegexp:
  "compile_anchored (globToRegexp p) =
     (if ValidString p then Inr (Sequence (items (runes p))) else Inl ''invalid UTF-8'')"
  by (simp add: compile_anchored_def ValidString_def runes_def globToRegexp_codes valid_regexp
      decode_regexp parse_rune_regexp)

text \<open>The patterns that count: trimmed, and not blank.\<close>

definition exclude_patterns :: "string list \<Rightarrow> string list" where
  "exclude_patterns ps = filter (\<lambda>p. p \<noteq> []) (map (\<lambda>p. trim_slashes (TrimSpace p)) ps)"

lemma newExcludeMatcher_eq:
  "newExcludeMatcher ps =
     (if list_all ValidString (exclude_patterns ps)
      then Inr (map (\<lambda>p. \<lparr>ep_raw = p, ep_re = Sequence (items (runes p))\<rparr>) (exclude_patterns ps))
      else Inl ''invalid exclude pattern'')"
  by (induction ps) (simp_all add: exclude_patterns_def Let_def compile_globToRegexp)

text \<open>
  C37: an exclude pattern means what its glob says. For every list of patterns, compiling it fails
  exactly when some pattern that is not blank is not valid UTF-8; otherwise an entry of the archive is
  excluded exactly when one of the trimmed patterns matches its path or, for a directory, its path
  with a slash.
\<close>

theorem exclude_is_glob:
  "case newExcludeMatcher ps of
     Inl _ \<Rightarrow> \<exists>p \<in> set (exclude_patterns ps). \<not> ValidString p
   | Inr m \<Rightarrow> list_all ValidString (exclude_patterns ps) \<and>
       (\<forall>path isDir. exclude_match m path isDir \<longleftrightarrow>
         (\<exists>p \<in> set (exclude_patterns ps). glob (runes p) (runes (trim_slashes path)) \<or>
            isDir \<and> glob (runes p) (runes (trim_slashes path @ ''/''))))"
proof (cases "list_all ValidString (exclude_patterns ps)")
  case True
  have ex: "exclude_match (map (\<lambda>p. \<lparr>ep_raw = p, ep_re = Sequence (items (runes p))\<rparr>) qs) path isDir \<longleftrightarrow>
      (\<exists>p \<in> set qs. glob (runes p) (runes (trim_slashes path)) \<or>
         isDir \<and> glob (runes p) (runes (trim_slashes path @ ''/'')))" for qs path isDir
    unfolding exclude_match_def MatchString_def Let_def list_ex_iff by (auto simp only: set_map items_glob excludePattern.simps bex_simps)
  then show ?thesis using True by (simp add: newExcludeMatcher_eq)
next
  case False
  then show ?thesis by (auto simp: newExcludeMatcher_eq list_all_iff)
qed

end
