(* ===== verification/Paths.thy ===== *)
theory Paths
  imports Filepath
begin

text \<open>
  More of \<^verbatim>\<open>path/filepath\<close>, for the archives of \<^verbatim>\<open>backupctl\<close>: \<^verbatim>\<open>Base\<close>, \<^verbatim>\<open>Dir\<close>, \<^verbatim>\<open>Abs\<close>
  and \<^verbatim>\<open>Rel\<close>, and what \<open>Clean\<close> and \<open>Join\<close> make of a path below a clean absolute directory.
\<close>

subsection \<open>More operations\<close>

definition clean_parts :: "string \<Rightarrow> string list" where
  "clean_parts p = clean_comps (IsAbs p) (split_slash p)"

lemma Clean_parts: "Clean p = render (IsAbs p) (clean_parts p)"
  by (simp add: Clean_def clean_parts_def)

text \<open>The last element, without the slashes behind it.\<close>

definition Base :: "string \<Rightarrow> string" where
  "Base p =
     (if p = [] then ''.''
      else
        let p = rev (dropWhile (\<lambda>c. c = slash) (rev p));
            b = rev (takeWhile (\<lambda>c. c \<noteq> slash) (rev p))
        in if b = [] then ''/'' else b)"

definition Dir :: "string \<Rightarrow> string" where
  "Dir p = Clean (rev (dropWhile (\<lambda>c. c \<noteq> slash) (rev p)))"

text \<open>\<open>cwd\<close> is what \<^verbatim>\<open>os.Getwd\<close> returns.\<close>

definition Abs :: "string result \<Rightarrow> string \<Rightarrow> string result" where
  "Abs cwd p =
     (if IsAbs p then Inr (Clean p)
      else case cwd of Inl err \<Rightarrow> Inl err | Inr wd \<Rightarrow> Inr (Join [wd, p]))"

text \<open>\<^verbatim>\<open>Rel\<close> between two absolute paths: what is left of both behind their common beginning.\<close>

fun strip_common :: "'a list \<Rightarrow> 'a list \<Rightarrow> 'a list \<times> 'a list" where
  "strip_common (b # bs) (t # ts) = (if b = t then strip_common bs ts else (b # bs, t # ts))"
| "strip_common bs ts = (bs, ts)"

definition Rel :: "string \<Rightarrow> string \<Rightarrow> string" where
  "Rel base targ =
     (if Clean base = Clean targ then ''.''
      else case strip_common (clean_parts base) (clean_parts targ) of
        (bs, ts) \<Rightarrow> join_slash (replicate (length bs) ''..'' @ ts))"

subsection \<open>Clean absolute paths\<close>

text \<open>Such a path is the rendering of its plain components.\<close>

abbreviation abs_path :: "string list \<Rightarrow> string" where
  "abs_path ws \<equiv> render True ws"

abbreviation plain_path :: "string list \<Rightarrow> bool" where
  "plain_path ws \<equiv> list_all plain_comp ws"

lemma IsAbs_render [simp]: "IsAbs (render True ws)"
  by (simp add: render_def IsAbs_def)

lemma plain_no_slash: "plain_comp w \<Longrightarrow> slash \<notin> set w"
  by (simp add: plain_comp_def)

lemma split_join: "ws \<noteq> [] \<Longrightarrow> \<forall>w \<in> set ws. slash \<notin> set w \<Longrightarrow> split_slash (join_slash ws) = ws"
proof (induction ws rule: join_slash.induct)
  case (3 w v vs)
  then show ?case by (simp add: split_slash_append_slash split_slash_plain)
qed (auto simp: split_slash_plain)

lemma plain_path_no_slash: "plain_path ws \<Longrightarrow> \<forall>w \<in> set ws. slash \<notin> set w"
  by (auto simp: list_all_iff plain_comp_def)

lemma fold_plain: "plain_path ws \<Longrightarrow> fold (clean_step rooted) ws st = rev ws @ st"
  by (induction ws arbitrary: st) (simp_all add: clean_step_plain)

lemma clean_comps_plain [simp]: "plain_path ws \<Longrightarrow> clean_comps rooted ws = ws"
  by (simp add: clean_comps_def fold_plain)

lemma clean_comps_append: "clean_comps rooted (us @ vs) = rev (fold (clean_step rooted) vs (rev (clean_comps rooted us)))"
  by (simp add: clean_comps_def)

lemma clean_step_empty [simp]: "clean_step rooted [] st = st"
  by (simp add: clean_step_def)

lemma split_abs_path: "plain_path ws \<Longrightarrow> split_slash (abs_path ws) = [] # (if ws = [] then [[]] else ws)"
  by (simp add: render_def split_join plain_path_no_slash)

lemma clean_parts_abs [simp]: "plain_path ws \<Longrightarrow> clean_parts (abs_path ws) = ws"
  by (auto simp: clean_parts_def split_abs_path clean_comps_def fold_plain)

lemma Clean_abs [simp]: "plain_path ws \<Longrightarrow> Clean (abs_path ws) = abs_path ws"
  by (simp add: Clean_parts)

lemma clean_step_rooted:
  "plain_path st \<Longrightarrow> slash \<notin> set w \<Longrightarrow> plain_path (clean_step True w st)"
  by (auto simp: clean_step_def plain_comp_def split: list.splits)

lemma clean_parts_plain:
  assumes "IsAbs p" shows "plain_path (clean_parts p)"
proof -
  have "plain_path (fold (clean_step True) ws st)" if "\<forall>w \<in> set ws. slash \<notin> set w" "plain_path st" for ws st
    using that by (induction ws arbitrary: st) (simp_all add: clean_step_rooted)
  then show ?thesis
    using assms split_slash_no_slash [of _ p] by (simp add: clean_parts_def clean_comps_def list_all_rev)
qed

lemma Clean_IsAbs: "IsAbs p \<Longrightarrow> \<exists>ws. plain_path ws \<and> Clean p = abs_path ws"
  by (intro exI [of _ "clean_parts p"]) (simp add: Clean_parts clean_parts_plain)

text \<open>A relative path, once clean, climbs first and descends then.\<close>

lemma clean_parts_relative:
  assumes "\<not> IsAbs p"
  shows "\<exists>k ws. clean_parts p = replicate k ''..'' @ ws \<and> plain_path ws"
proof -
  have "\<exists>k us. fold (clean_step False) ws st = us @ replicate k ''..'' \<and> plain_path us"
    if "\<forall>w \<in> set ws. slash \<notin> set w" "\<exists>k us. st = us @ replicate k ''..'' \<and> plain_path us" for ws st
    using that
  proof (induction ws arbitrary: st)
    case (Cons w ws)
    then obtain k us where st: "st = us @ replicate k ''..''" "plain_path us" by auto
    have "\<exists>k us. clean_step False w st = us @ replicate k ''..'' \<and> plain_path us"
    proof (cases "w = [] \<or> w = ''.'' \<or> w = ''..''")
      case False
      then have "plain_comp w" using Cons.prems(1) by (simp add: plain_comp_def)
      with st show ?thesis by (intro exI [of _ k] exI [of _ "w # us"]) (simp add: clean_step_plain)
    next
      case True
      then show ?thesis
      proof (elim disjE)
        assume w: "w = ''..''"
        show ?thesis
        proof (cases us)
          case Nil
          then show ?thesis using st w
            by (intro exI [of _ "Suc k"] exI [of _ "[]"]) (cases k; simp add: clean_step_def)
        next
          case (Cons v vs)
          then show ?thesis using st w
            by (intro exI [of _ k] exI [of _ vs]) (auto simp: clean_step_def plain_comp_def)
        qed
      qed (use st in \<open>auto simp: clean_step_def\<close>)
    qed
    then show ?case using Cons.IH [of "clean_step False w st"] Cons.prems(1) by auto
  qed simp
  from this [of "split_slash p" "[]"] assms split_slash_no_slash [of _ p]
  obtain k us where "fold (clean_step False) (split_slash p) [] = us @ replicate k ''..''" "plain_path us" by auto
  then show ?thesis
    using assms by (intro exI [of _ k] exI [of _ "rev us"]) (simp add: clean_parts_def clean_comps_def)
qed

lemma join_slash_append: "us \<noteq> [] \<Longrightarrow> vs \<noteq> [] \<Longrightarrow> join_slash (us @ vs) = join_slash us @ slash # join_slash vs"
  by (induction us rule: join_slash.induct) (auto simp: join_slash_Cons)

lemma join_neq_Nil: "ws \<noteq> [] \<Longrightarrow> plain_path ws \<Longrightarrow> join_slash ws \<noteq> []"
  by (cases ws rule: join_slash.cases) (auto simp: plain_comp_def)

lemma abs_path_append: "vs \<noteq> [] \<Longrightarrow> us \<noteq> [] \<Longrightarrow> abs_path (us @ vs) = abs_path us @ slash # join_slash vs"
  by (simp add: render_def join_slash_append)

lemma Join_plain:
  assumes "plain_path us" and "plain_path vs" and "vs \<noteq> []"
  shows "Join [abs_path us, join_slash vs] = abs_path (us @ vs)"
proof -
  have sp: "split_slash (abs_path us @ slash # join_slash vs) = split_slash (abs_path us) @ vs"
    by (simp add: split_slash_append_slash split_join [OF assms(3) plain_path_no_slash [OF assms(2)]])
  have ia: "IsAbs (abs_path us @ slash # join_slash vs)" by (simp add: IsAbs_def render_def)
  have "clean_parts (abs_path us @ slash # join_slash vs) = us @ vs"
    using assms by (auto simp: clean_parts_def ia sp clean_comps_def split_abs_path fold_plain)
  moreover note ia
  moreover have "abs_path us \<noteq> []" by (simp add: render_def)
  ultimately show ?thesis
    by (simp add: Join_def Let_def join_neq_Nil assms Clean_parts)
qed

lemma Rel_below:
  assumes "plain_path (us @ vs)" and "vs \<noteq> []"
  shows "Rel (abs_path us) (abs_path (us @ vs)) = join_slash vs"
proof -
  have s: "strip_common us (us @ vs) = ([], vs)" by (induction us) (use assms(2) in \<open>cases vs; simp\<close>)+
  have "clean_parts (abs_path us) \<noteq> clean_parts (abs_path (us @ vs))" using assms by simp
  then have "abs_path us \<noteq> abs_path (us @ vs)" by metis
  then show ?thesis using assms by (simp add: Rel_def s)
qed

lemma takeWhile_rev_path:
  assumes "plain_comp w"
  shows "rev (takeWhile (\<lambda>c. c \<noteq> slash) (rev (abs_path (ws @ [w])))) = w"
  by (rule render_snoc_last [OF assms])

lemma abs_path_snoc: "abs_path (ws @ [w]) = (if ws = [] then [slash] else abs_path ws @ [slash]) @ w"
  by (simp add: render_def join_slash_snoc)

lemma Base_abs:
  assumes "plain_comp w" shows "Base (abs_path (ws @ [w])) = w"
proof -
  have "w \<noteq> []" "last w \<noteq> slash" using assms last_in_set [of w] unfolding plain_comp_def by metis+
  then have d: "dropWhile (\<lambda>c. c = slash) (rev (abs_path (ws @ [w]))) = rev (abs_path (ws @ [w]))"
    by (cases w rule: rev_cases) (simp_all add: abs_path_snoc)
  have "abs_path (ws @ [w]) \<noteq> []" by (simp add: render_def)
  moreover have "takeWhile (\<lambda>c. c \<noteq> slash) (rev (abs_path (ws @ [w]))) = rev w"
    using takeWhile_rev_path [OF assms, of ws] by (metis rev_rev_ident)
  ultimately show ?thesis using \<open>w \<noteq> []\<close> by (simp add: Base_def Let_def d)
qed

lemma Dir_abs:
  assumes "plain_path (ws @ [w])" shows "Dir (abs_path (ws @ [w])) = abs_path ws"
proof -
  have w: "dropWhile (\<lambda>c. c \<noteq> slash) (rev w @ ys) = dropWhile (\<lambda>c. c \<noteq> slash) ys" for ys
    using assms by (intro dropWhile_append2) (auto simp: plain_comp_def)
  let ?d = "if ws = [] then [slash] else abs_path ws @ [slash]"
  have "dropWhile (\<lambda>c. c \<noteq> slash) (rev (abs_path (ws @ [w]))) = dropWhile (\<lambda>c. c \<noteq> slash) (rev ?d)"
    unfolding abs_path_snoc rev_append w ..
  moreover have "dropWhile (\<lambda>c. c \<noteq> slash) (rev ?d) = rev ?d" by simp
  ultimately have "Dir (abs_path (ws @ [w])) = Clean ?d"
    unfolding Dir_def by (metis rev_rev_ident)
  also have "\<dots> = abs_path ws"
  proof (cases "ws = []")
    case True
    then show ?thesis by (simp add: Clean_def clean_comps_def render_def IsAbs_def)
  next
    case False
    have "split_slash (abs_path ws @ slash # []) = [] # ws @ [[]]"
      using assms False by (simp only: split_slash_append_slash) (simp add: split_abs_path)
    moreover have "IsAbs (abs_path ws @ slash # [])" by (simp add: IsAbs_def render_def)
    ultimately show ?thesis using assms False
      by (simp add: Clean_def clean_comps_def fold_plain)
  qed
  finally show ?thesis .
qed

end
