(* ===== verification/Decimal.thy ===== *)
theory Decimal
  imports Handlers
begin

text \<open>
  \<^verbatim>\<open>strconv.Itoa\<close> and \<^verbatim>\<open>FormatInt\<close> in base 10, the inverse of the parser the server reads
  query parameters with.
\<close>

fun digits :: "nat \<Rightarrow> string" where
  "digits n = (if n < 10 then [char_of (n + 48)] else digits (n div 10) @ [char_of (n mod 10 + 48)])"

definition Itoa :: "int \<Rightarrow> string" where
  "Itoa n = (if n < 0 then CHR ''-'' # digits (nat (- n)) else digits (nat n))"

declare digits.simps [simp del]

lemma code_digit: "k < 10 \<Longrightarrow> (of_char (char_of (k + 48)) :: nat) = k + 48"
  by simp

lemma digit_value: "k < 10 \<Longrightarrow> (of_char (char_of (k + 48)) :: int) = int k + 48"
  using code_digit [of k] by (metis of_nat_add of_nat_numeral of_nat_of_char)

lemma digits_neq_Nil [simp]: "digits n \<noteq> []"
  by (subst digits.simps) simp

lemma digits_are_digits: "list_all is_digit (digits n)"
proof (induction n rule: digits.induct)
  case (1 n)
  have "is_digit (char_of (k + 48))" if "k < 10" for k :: nat
    using that code_digit [OF that] by (simp add: is_digit_def)
  with 1 show ?case by (subst digits.simps) simp
qed

lemma digits_value_digits: "digits_value (digits n) = int n"
proof (induction n rule: digits.induct)
  case (1 n)
  show ?case
  proof (cases "n < 10")
    case True
    then show ?thesis by (subst digits.simps) (simp add: digits_value_def digit_value)
  next
    case False
    then have "digits_value (digits (n div 10)) = int (n div 10)" by (rule 1)
    moreover have "10 * int (n div 10) + int (n mod 10) = int n" by presburger
    ultimately show ?thesis using False
      by (subst digits.simps) (simp add: digits_value_def digit_value)
  qed
qed

lemma digits_head: "hd (digits n) \<noteq> CHR ''-''" "hd (digits n) \<noteq> CHR ''+''"
proof -
  have "is_digit (hd (digits n))" using digits_are_digits [of n] by (cases "digits n") simp_all
  then show "hd (digits n) \<noteq> CHR ''-''" "hd (digits n) \<noteq> CHR ''+''" by (auto simp: is_digit_def)
qed

lemma Itoa_neq_Nil [simp]: "Itoa n \<noteq> []"
  by (simp add: Itoa_def)

lemma parseInt_digits: "int64 (int k) \<Longrightarrow> parseInt (digits k) = Some (int k)"
proof -
  assume k: "int64 (int k)"
  obtain c cs where d: "digits k = c # cs" by (cases "digits k") simp_all
  with digits_head [of k] have c: "c \<noteq> CHR ''-''" "c \<noteq> CHR ''+''" by simp_all
  have "parseInt (c # cs) = Some (int k)"
    using digits_are_digits [of k] digits_value_digits [of k] k c
    by (simp add: parseInt_def d Let_def)
  then show ?thesis by (simp add: d)
qed

lemma parseInt_Itoa [simp]: "int64 n \<Longrightarrow> parseInt (Itoa n) = Some n"
proof (cases "n < 0")
  case True
  moreover assume "int64 n"
  ultimately show ?thesis using digits_are_digits [of "nat (- n)"] digits_value_digits [of "nat (- n)"]
    by (simp add: Itoa_def parseInt_def)
next
  case False
  moreover assume "int64 n"
  ultimately show ?thesis using parseInt_digits [of "nat n"] by (simp add: Itoa_def)
qed

end
