(* ===== verification/TlsConfig.thy ===== *)
theory TlsConfig
  imports Prelude
begin

text \<open>
  Which transport a process gets (\<^verbatim>\<open>internal/tlsconfig/tlsconfig.go\<close>). The handshake is
  \<^verbatim>\<open>crypto/tls\<close>; what the code decides is whether TLS is used, what is trusted, and when
  it refuses. \<open>readFile\<close> is \<^verbatim>\<open>os.ReadFile\<close>, \<open>certsIn\<close> the certificates
  \<^verbatim>\<open>AppendCertsFromPEM\<close> finds in a file, \<open>systemPool\<close> the pool of the host, if it has one.
\<close>

record ServerTls =
  st_certFile :: string
  st_keyFile :: string

record ClientTls =
  ct_caCertFile :: string
  ct_insecure :: bool

datatype listener = PlainHTTP string | ServeTLS string string string

definition ListenAndServe :: "string \<Rightarrow> ServerTls \<Rightarrow> listener result" where
  "ListenAndServe addr cfg =
     (if st_certFile cfg = [] \<and> st_keyFile cfg = [] then Inr (PlainHTTP addr)
      else if st_certFile cfg = [] \<or> st_keyFile cfg = [] then
        Inl ''both cert_file and key_file are required for HTTPS''
      else Inr (ServeTLS addr (st_certFile cfg) (st_keyFile cfg)))"

text \<open>\<open>RootCAs = None\<close> is the pool of the host.\<close>

datatype 'cert transport =
    DefaultTransport
  | TlsTransport (skipVerify: bool) (rootCAs: "'cert list option")

definition HTTPClient ::
  "(string \<Rightarrow> bytes result) \<Rightarrow> (bytes \<Rightarrow> 'cert list) \<Rightarrow> 'cert list result \<Rightarrow> ClientTls \<Rightarrow> 'cert transport result" where
  "HTTPClient readFile certsIn systemPool cfg =
     (if ct_caCertFile cfg = [] \<and> \<not> ct_insecure cfg then Inr DefaultTransport
      else if ct_caCertFile cfg = [] then Inr (TlsTransport (ct_insecure cfg) None)
      else
        let pool = (case systemPool of Inl _ \<Rightarrow> [] | Inr pool \<Rightarrow> pool) in
        case readFile (ct_caCertFile cfg) of
          Inl err \<Rightarrow> Inl err
        | Inr data \<Rightarrow>
            if certsIn data = [] then Inl ''no certificates found''
            else Inr (TlsTransport (ct_insecure cfg) (Some (pool @ certsIn data))))"

text \<open>A client verifies its peer unless it was told not to.\<close>

lemma HTTPClient_verifies:
  "HTTPClient rd certs pool cfg = Inr t \<Longrightarrow> t = DefaultTransport \<or> skipVerify t = ct_insecure cfg"
  by (auto simp: HTTPClient_def Let_def split: if_splits sum.splits)

end
