(* ===== verification/ClientConfig.thy ===== *)
theory ClientConfig
  imports Decimal TlsConfig Auth Paths
begin

text \<open>
  The configuration of \<^verbatim>\<open>backupctl\<close> and what it makes of it (\<^verbatim>\<open>cmd/backupctl/main.go\<close>): the
  jobs of the file, their defaults and checks, the flags of the \<^verbatim>\<open>backup\<close> command, and the
  request an upload starts with.
\<close>

subsection \<open>Jobs\<close>

record backupJob =
  bj_name :: string
  bj_paths :: "string list"
  bj_exclude :: "string list"
  bj_chunkSize :: int
  bj_replication :: int
  bj_retention :: int

record clientConfig =
  cl_server :: string
  cl_chunkSize :: int
  cl_replication :: int
  cl_retention :: int
  cl_authToken :: string
  cl_caCertFile :: string
  cl_insecure :: bool
  cl_jobs :: "backupJob list"

definition defaultChunkSize_ctl :: int where
  "defaultChunkSize_ctl = 512 * 1024"

text \<open>
  \<^verbatim>\<open>strings.EqualFold\<close> compares under Unicode's simple case folding, which is \<^verbatim>\<open>unicode\<close>'s
  table: \<open>foldCase\<close> replaces every rune by the least of its folding class.
\<close>

fun findJob :: "(string \<Rightarrow> string) \<Rightarrow> backupJob list \<Rightarrow> string \<Rightarrow> backupJob option" where
  "findJob foldCase [] name = None"
| "findJob foldCase (job # jobs) name =
     (if foldCase (bj_name job) = foldCase name then Some job else findJob foldCase jobs name)"

fun strings_Join :: "string list \<Rightarrow> string \<Rightarrow> string" where
  "strings_Join [] sep = []"
| "strings_Join [a] sep = a"
| "strings_Join (a # as) sep = a @ sep @ strings_Join as sep"

definition selectJob :: "(string \<Rightarrow> string) \<Rightarrow> clientConfig \<Rightarrow> string \<Rightarrow> backupJob option result" where
  "selectJob foldCase cfg name =
     (if cl_jobs cfg = [] then Inl ''config must contain at least one job''
      else if name \<noteq> [] then Inr (findJob foldCase (cl_jobs cfg) name)
      else if length (cl_jobs cfg) = 1 then Inr (Some (cl_jobs cfg ! 0))
      else Inl (''-job is required when config contains multiple jobs: '' @
        strings_Join (map bj_name (cl_jobs cfg)) '', ''))"

definition applyDefaults :: "backupJob \<Rightarrow> clientConfig \<Rightarrow> backupJob" where
  "applyDefaults j cfg =
     (let j = (if bj_chunkSize j = 0 then j\<lparr>bj_chunkSize := cl_chunkSize cfg\<rparr> else j);
          j = (if bj_chunkSize j = 0 then j\<lparr>bj_chunkSize := defaultChunkSize_ctl\<rparr> else j);
          j = (if bj_replication j = 0 then j\<lparr>bj_replication := cl_replication cfg\<rparr> else j);
          j = (if bj_replication j = 0 then j\<lparr>bj_replication := 3\<rparr> else j);
          j = (if bj_retention j = 0 then j\<lparr>bj_retention := cl_retention cfg\<rparr> else j)
      in j)"

definition validate :: "backupJob \<Rightarrow> unit result" where
  "validate j =
     (if bj_name j = [] then Inl ''job name is required''
      else if bj_paths j = [] then Inl ''job must have at least one path''
      else if bj_chunkSize j \<le> 0 then Inl ''job chunk_size must be positive''
      else if bj_replication j \<le> 0 then Inl ''job replication must be positive''
      else if bj_retention j < 0 then Inl ''job retention must be zero or positive''
      else Inr ())"

subsection \<open>The client\<close>

text \<open>\<open>env\<close> is the environment variable of the token; \<open>tls\<close> is \<open>HTTPClient\<close> on the host's files.\<close>

definition configureHTTPClient ::
  "(ClientTls \<Rightarrow> 'cert transport result) \<Rightarrow> string \<Rightarrow> ClientTls \<Rightarrow> string \<Rightarrow> ('cert transport \<times> string) result" where
  "configureHTTPClient tls env cfg authToken =
     (let token = Resolve authToken env in
      if token = [] then Inl ''auth token is required''
      else case tls cfg of
          Inl err \<Rightarrow> Inl err
        | Inr client \<Rightarrow> Inr (client, token))"

subsection \<open>The request of an upload\<close>

text \<open>The parts of a URL the client looks at; \<^verbatim>\<open>url.Parse\<close> yields them.\<close>

record URL =
  url_path :: string
  url_query :: "(string \<times> string) list"

text \<open>\<^verbatim>\<open>url.Values\<close>: \<^verbatim>\<open>Set\<close> replaces every value of the key, \<^verbatim>\<open>Encode\<close> sorts by key.\<close>

definition values_Set :: "string \<Rightarrow> string \<Rightarrow> (string \<times> string) list \<Rightarrow> (string \<times> string) list" where
  "values_Set k v q = filter (\<lambda>p. fst p \<noteq> k) q @ [(k, v)]"

definition values_Encode :: "(string \<times> string) list \<Rightarrow> (string \<times> string) list" where
  "values_Encode q = sort_by (\<lambda>a b. fst a < fst b) q"

record uploadParams =
  ul_backupName :: string
  ul_retention :: int
  ul_chunkSize :: int
  ul_replication :: int

definition uploadQuery :: "uploadParams \<Rightarrow> (string \<times> string) list \<Rightarrow> (string \<times> string) list" where
  "uploadQuery p q =
     (let q = values_Set ''chunk_size'' (Itoa (ul_chunkSize p)) q;
          q = values_Set ''replication'' (Itoa (ul_replication p)) q;
          q = (if ul_backupName p \<noteq> [] then values_Set ''backup_name'' (ul_backupName p) q else q);
          q = (if ul_retention p > 0 then values_Set ''retention'' (Itoa (ul_retention p)) q else q)
      in values_Encode q)"

text \<open>
  The body: one form file. \<open>wire\<close> is what the server's multipart reader delivers of some parts
  and an end when the body is cut at a number of bytes, as in \<open>sb_parts\<close>; the name of a part is
  the last element of the name it was sent with (\<^verbatim>\<open>Part.FileName\<close>).
\<close>

type_synonym multipart = "Part list \<Rightarrow> stream_end \<Rightarrow> int \<Rightarrow> (Part list \<times> stream_end) result"

definition formFile :: "string \<Rightarrow> reader \<Rightarrow> Part" where
  "formFile fileName r =
     \<lparr>pa_formName = ''file'', pa_fileName = (if fileName = [] then [] else Base fileName), pa_reader = r\<rparr>"

definition uploadPost ::
  "multipart \<Rightarrow> URL \<Rightarrow> string \<Rightarrow> reader \<Rightarrow> uploadParams \<Rightarrow> server_body Request" where
  "uploadPost wire endpoint fileName r p =
     \<lparr>rq_method = ''POST'', rq_path = url_path endpoint, rq_query = uploadQuery p (url_query endpoint),
      rq_authorization = [],
      rq_body = \<lparr>sb_register = Inl ''EOF'', sb_plan = Inl ''EOF'', sb_confirm = Inl ''EOF'', sb_create = Inl ''EOF'',
        sb_replication = Inl ''EOF'', sb_parts = wire [formFile fileName r] EOF\<rparr>\<rparr>"

subsection \<open>Commands up to the upload\<close>

record tlsFlags =
  tf_caCertFile :: string
  tf_insecure :: bool
  tf_authToken :: string

record backupFlags =
  bf_server :: string
  bf_filePath :: string
  bf_params :: uploadParams

text \<open>The checks of \<^verbatim>\<open>backup\<close> on its flags, after the client is configured.\<close>

definition backupChecks :: "backupFlags \<Rightarrow> unit result" where
  "backupChecks f =
     (if bf_filePath f = [] then Inl ''-file is required''
      else if ul_chunkSize (bf_params f) \<le> 0 then Inl ''-chunk-size must be positive''
      else if ul_retention (bf_params f) < 0 then Inl ''-retention must be zero or positive''
      else Inr ())"

text \<open>\<^verbatim>\<open>backupConfiguredJob\<close> up to the start of the stream: the server, the client, the job.\<close>

definition jobParams :: "backupJob \<Rightarrow> uploadParams" where
  "jobParams job =
     \<lparr>ul_backupName = bj_name job, ul_retention = bj_retention job, ul_chunkSize = bj_chunkSize job,
      ul_replication = bj_replication job\<rparr>"

definition configuredJob ::
  "(string \<Rightarrow> string) \<Rightarrow> (ClientTls \<Rightarrow> 'cert transport result) \<Rightarrow> string \<Rightarrow> clientConfig result \<Rightarrow> string \<Rightarrow> tlsFlags \<Rightarrow>
   (string \<times> 'cert transport \<times> string \<times> backupJob) result" where
  "configuredJob foldCase tls env config jobName flags =
     (case config of
        Inl err \<Rightarrow> Inl err
      | Inr cfg \<Rightarrow>
          (case selectJob foldCase cfg jobName of
             Inl err \<Rightarrow> Inl err
           | Inr None \<Rightarrow> Inl ''job not found''
           | Inr (Some job) \<Rightarrow>
               let job = applyDefaults job cfg in
               case validate job of
                 Inl err \<Rightarrow> Inl err
               | Inr _ \<Rightarrow>
                   let serverURL = (if cl_server cfg = [] then ''http://localhost:8080'' else cl_server cfg);
                       cfg = (if tf_caCertFile flags \<noteq> [] then cfg\<lparr>cl_caCertFile := tf_caCertFile flags\<rparr> else cfg);
                       cfg = (if tf_insecure flags then cfg\<lparr>cl_insecure := True\<rparr> else cfg);
                       cfg = (if tf_authToken flags \<noteq> [] then cfg\<lparr>cl_authToken := tf_authToken flags\<rparr> else cfg)
                   in case configureHTTPClient tls env
                          \<lparr>ct_caCertFile = cl_caCertFile cfg, ct_insecure = cl_insecure cfg\<rparr> (cl_authToken cfg) of
                        Inl err \<Rightarrow> Inl err
                      | Inr (client, token) \<Rightarrow> Inr (serverURL, client, token, job)))"

subsection \<open>The server reads what the client meant\<close>

lemma map_of_values_Set: "map_of (values_Set k v q) k' = (if k' = k then Some v else map_of q k')"
  by (induction q) (auto simp: values_Set_def)

lemma map_of_values_Encode [simp]: "map_of (values_Encode q) = map_of q"
proof -
  have ins: "map_of (ins_by (\<lambda>a b. fst a < fst b) x q) = map_of (x # q)" for x :: "string \<times> string" and q
    by (induction q) (auto simp: fun_eq_iff)
  show ?thesis unfolding values_Encode_def by (induction q) (simp_all add: ins)
qed

lemma map_of_uploadQuery:
  "map_of (uploadQuery p q) ''chunk_size'' = Some (Itoa (ul_chunkSize p))"
  "map_of (uploadQuery p q) ''replication'' = Some (Itoa (ul_replication p))"
  "map_of (uploadQuery p q) ''backup_name'' =
     (if ul_backupName p \<noteq> [] then Some (ul_backupName p) else map_of q ''backup_name'')"
  "map_of (uploadQuery p q) ''retention'' =
     (if ul_retention p > 0 then Some (Itoa (ul_retention p)) else map_of q ''retention'')"
  by (simp_all add: uploadQuery_def Let_def map_of_values_Set)

end
