(* ===== verification/Archive.thy ===== *)
theory Archive
  imports Glob Decimal Paths
begin

text \<open>
  The archive of a backup job (\<^verbatim>\<open>tarRoots\<close>, \<^verbatim>\<open>addRootToTar\<close> and \<^verbatim>\<open>writeTarJob\<close> in
  \<^verbatim>\<open>cmd/backupctl/main.go\<close>). The host's file system is read, never written: it is a tree per
  path, in which every call may fail. \<^verbatim>\<open>archive/tar\<close> is taken at the level of its entries: a
  writer that knows how much of the current entry is missing, and the stream a reader finds.
\<close>

subsection \<open>The tree of the host\<close>

text \<open>
  Mode bits are the permissions and the set-id and sticky bits. A directory has what
  \<^verbatim>\<open>os.ReadDir\<close> returns, in its order; a file has the size \<^verbatim>\<open>Info\<close> reports, and what opening and
  reading it yields, which need not agree with the size; \<open>Gone\<close> is an entry whose \<^verbatim>\<open>Info\<close> fails.
\<close>

type_synonym mode = "12 word"

datatype file_tree =
    Folder mode "(string \<times> file_tree) list result"
  | File mode int "reader result"
  | SymLink mode "string result"
  | Special mode
  | Socket
  | Gone bool string

fun IsDir :: "file_tree \<Rightarrow> bool" where
  "IsDir (Folder _ _) = True"
| "IsDir (Gone d _) = d"
| "IsDir _ = False"

record Host =
  ho_cwd :: "string result"
  ho_tree :: "string \<Rightarrow> file_tree result"

subsection \<open>Roots\<close>

record tarRoot =
  tr_source :: string
  tr_parent :: string
  tr_prefix :: string

text \<open>\<open>used\<close> is the map of base names, as far as the loop has come.\<close>

fun tarRoots_loop :: "Host \<Rightarrow> (string \<Rightarrow> nat) \<Rightarrow> string list \<Rightarrow> tarRoot list result" where
  "tarRoots_loop ho used [] = Inr []"
| "tarRoots_loop ho used (raw # raws) =
     (let cleaned = Clean raw in
      case ho_tree ho cleaned of
        Inl err \<Rightarrow> Inl err
      | Inr _ \<Rightarrow>
          (case Abs (ho_cwd ho) cleaned of
             Inl err \<Rightarrow> Inl err
           | Inr absPath \<Rightarrow>
               let base = Base absPath;
                   base = (if base = ''.'' \<or> base = ''/'' then ''root'' else base);
                   used = used(base := used base + 1);
                   prefix = (if used base > 1 then base @ ''-'' @ Itoa (int (used base)) else base);
                   parent = Dir absPath
               in map_sum id ((#) \<lparr>tr_source = absPath, tr_parent = parent, tr_prefix = prefix\<rparr>)
                    (tarRoots_loop ho used raws)))"

definition tarRoots :: "Host \<Rightarrow> string list \<Rightarrow> tarRoot list result" where
  "tarRoots ho paths =
     map_sum id (sort_by (\<lambda>a b. tr_source a < tr_source b)) (tarRoots_loop ho (\<lambda>_. 0) paths)"

subsection \<open>\<^verbatim>\<open>archive/tar\<close>\<close>

datatype typeflag = TypeReg | TypeDir | TypeSymlink | TypeOther

record Header =
  hd_name :: string
  hd_type :: typeflag
  hd_mode :: mode
  hd_linkname :: string
  hd_size :: int

text \<open>An entry of a stream: what reading its data yields.\<close>

type_synonym tar_entry = "Header \<times> reader"

record tar_stream =
  ts_entries :: "tar_entry list"
  ts_end :: stream_end

text \<open>The writer: the entries so far and how many bytes the last one still lacks.\<close>

record tar_writer =
  tw_entries :: "(Header \<times> bytes) list"
  tw_missing :: int

definition NewWriter :: tar_writer where
  "NewWriter = \<lparr>tw_entries = [], tw_missing = 0\<rparr>"

definition Flush :: "tar_writer \<Rightarrow> unit result" where
  "Flush tw = (if tw_missing tw > 0 then Inl ''archive/tar: missed writing bytes'' else Inr ())"

definition WriteHeader :: "Header \<Rightarrow> tar_writer \<Rightarrow> unit result \<times> tar_writer" where
  "WriteHeader h tw =
     (case Flush tw of
        Inl err \<Rightarrow> (Inl err, tw)
      | Inr _ \<Rightarrow> (Inr (), \<lparr>tw_entries = tw_entries tw @ [(h, [])], tw_missing = hd_size h\<rparr>))"

text \<open>\<^verbatim>\<open>io.Copy(tw, f)\<close>: what fits is written, more is an error, and so is a failed read.\<close>

definition CopyTo :: "reader \<Rightarrow> tar_writer \<Rightarrow> unit result \<times> tar_writer" where
  "CopyTo r tw =
     (let n = nat (tw_missing tw);
          (h, data) = last (tw_entries tw);
          tw' = \<lparr>tw_entries = butlast (tw_entries tw) @ [(h, data @ take n (rd_bytes r))],
                 tw_missing = tw_missing tw - int (length (take n (rd_bytes r)))\<rparr>
      in if length (rd_bytes r) > n then (Inl ''archive/tar: write too long'', tw')
         else case rd_end r of EOF \<Rightarrow> (Inr (), tw') | ReadError err \<Rightarrow> (Inl err, tw'))"

text \<open>
  What is on the wire when the writer is closed. With an entry incomplete \<^verbatim>\<open>Close\<close> fails and
  writes no trailer: a reader runs out of bytes within the data of that entry.
\<close>

definition CloseWriter :: "tar_writer \<Rightarrow> unit result \<times> tar_stream" where
  "CloseWriter tw =
     (let whole = map (\<lambda>(h, data). (h, \<lparr>rd_bytes = data, rd_end = EOF\<rparr>)) in
      case Flush tw of
        Inr _ \<Rightarrow> (Inr (), \<lparr>ts_entries = whole (tw_entries tw), ts_end = EOF\<rparr>)
      | Inl err \<Rightarrow>
          (Inl err, \<lparr>ts_entries = whole (butlast (tw_entries tw)) @
              [case last (tw_entries tw) of (h, data) \<Rightarrow>
                 (h, \<lparr>rd_bytes = data, rd_end = ReadError ''unexpected EOF''\<rparr>)],
            ts_end = ReadError ''unexpected EOF''\<rparr>))"

subsection \<open>Adding a root\<close>

text \<open>\<^verbatim>\<open>tar.FileInfoHeader\<close>: type, mode, size and link target; the caller sets the name.\<close>

fun FileInfoHeader :: "file_tree \<Rightarrow> string \<Rightarrow> Header result" where
  "FileInfoHeader (Folder m _) link =
     Inr \<lparr>hd_name = [], hd_type = TypeDir, hd_mode = m, hd_linkname = [], hd_size = 0\<rparr>"
| "FileInfoHeader (File m n _) link =
     Inr \<lparr>hd_name = [], hd_type = TypeReg, hd_mode = m, hd_linkname = [], hd_size = n\<rparr>"
| "FileInfoHeader (SymLink m _) link =
     Inr \<lparr>hd_name = [], hd_type = TypeSymlink, hd_mode = m, hd_linkname = link, hd_size = 0\<rparr>"
| "FileInfoHeader (Special m) link =
     Inr \<lparr>hd_name = [], hd_type = TypeOther, hd_mode = m, hd_linkname = [], hd_size = 0\<rparr>"
| "FileInfoHeader Socket link = Inl ''archive/tar: sockets not supported''"
| "FileInfoHeader (Gone _ err) link = Inl err"

text \<open>The function the walk calls: \<open>SkipDir\<close> is its third outcome.\<close>

datatype visit = Done | SkipDir | Failed string

text \<open>After the exclusion test, for an entry named \<open>tarPath\<close>.\<close>

definition addEntry :: "string \<Rightarrow> file_tree \<Rightarrow> tar_writer \<Rightarrow> visit \<times> tar_writer" where
  "addEntry tarPath d tw =
     (let linkTarget = (case d of Gone _ err \<Rightarrow> Inl err | SymLink _ target \<Rightarrow> target | _ \<Rightarrow> Inr []) in
      case linkTarget of
        Inl err \<Rightarrow> (Failed err, tw)
      | Inr link \<Rightarrow>
          (case FileInfoHeader d link of
             Inl err \<Rightarrow> (Failed err, tw)
           | Inr header \<Rightarrow>
               let header = header\<lparr>hd_name := tarPath\<rparr>;
                   header = (if IsDir d \<and> \<not> HasSuffix (hd_name header) ''/''
                             then header\<lparr>hd_name := hd_name header @ ''/''\<rparr> else header)
               in case WriteHeader header tw of
                    (Inl err, tw) \<Rightarrow> (Failed err, tw)
                  | (Inr _, tw) \<Rightarrow>
                      (case d of
                         File _ _ (Inl err) \<Rightarrow> (Failed err, tw)
                       | File _ _ (Inr f) \<Rightarrow>
                           (case CopyTo f tw of (Inl err, tw) \<Rightarrow> (Failed err, tw) | (Inr _, tw) \<Rightarrow> (Done, tw))
                       | _ \<Rightarrow> (Done, tw))))"

definition visitEntry :: "tarRoot \<Rightarrow> excludePattern list \<Rightarrow> string \<Rightarrow> file_tree \<Rightarrow> tar_writer \<Rightarrow> visit \<times> tar_writer" where
  "visitEntry rt m path d tw =
     (let rel = Rel (tr_parent rt) path;
          tarPath = (if rel = ''.'' then tr_prefix rt else rel)
      in if exclude_match m tarPath (IsDir d) then (if IsDir d then SkipDir else Done, tw)
         else addEntry tarPath d tw)"

text \<open>
  \<^verbatim>\<open>filepath.WalkDir\<close> from an entry down. \<^verbatim>\<open>SkipDir\<close> comes from directories only, and stops
  before their contents are read.
\<close>

fun walkDir :: "tarRoot \<Rightarrow> excludePattern list \<Rightarrow> string \<Rightarrow> file_tree \<Rightarrow> tar_writer \<Rightarrow> unit result \<times> tar_writer"
  and walkDirs :: "tarRoot \<Rightarrow> excludePattern list \<Rightarrow> string \<Rightarrow> (string \<times> file_tree) list \<Rightarrow> tar_writer \<Rightarrow> unit result \<times> tar_writer"
where
  "walkDir rt m path d tw =
     (case visitEntry rt m path d tw of
        (Failed err, tw) \<Rightarrow> (Inl err, tw)
      | (SkipDir, tw) \<Rightarrow> (Inr (), tw)
      | (Done, tw) \<Rightarrow>
          (case d of
             Folder _ (Inl err) \<Rightarrow> (Inl err, tw)
           | Folder _ (Inr ds) \<Rightarrow> walkDirs rt m path ds tw
           | _ \<Rightarrow> (Inr (), tw)))"
| "walkDirs rt m path [] tw = (Inr (), tw)"
| "walkDirs rt m path ((name, d) # ds) tw =
     (case walkDir rt m (Join [path, name]) d tw of
        (Inl err, tw) \<Rightarrow> (Inl err, tw)
      | (Inr _, tw) \<Rightarrow> walkDirs rt m path ds tw)"

definition addRootToTar :: "Host \<Rightarrow> tarRoot \<Rightarrow> excludePattern list \<Rightarrow> tar_writer \<Rightarrow> unit result \<times> tar_writer" where
  "addRootToTar ho rt m tw =
     (case ho_tree ho (tr_source rt) of
        Inl err \<Rightarrow> (Inl err, tw)
      | Inr d \<Rightarrow> walkDir rt m (tr_source rt) d tw)"

fun addRoots :: "Host \<Rightarrow> tarRoot list \<Rightarrow> excludePattern list \<Rightarrow> tar_writer \<Rightarrow> unit result \<times> tar_writer" where
  "addRoots ho [] m tw = (Inr (), tw)"
| "addRoots ho (rt # roots) m tw =
     (case addRootToTar ho rt m tw of
        (Inl err, tw) \<Rightarrow> (Inl err, tw)
      | (Inr _, tw) \<Rightarrow> addRoots ho roots m tw)"

text \<open>\<^verbatim>\<open>defer tw.Close()\<close> drops the error of \<^verbatim>\<open>Close\<close>; the stream is what the pipe carried.\<close>

definition writeTarJob :: "Host \<Rightarrow> string list \<Rightarrow> string list \<Rightarrow> unit result \<times> tar_stream" where
  "writeTarJob ho paths excludes =
     (let (r, tw) =
        (case newExcludeMatcher excludes of
           Inl err \<Rightarrow> (Inl err, NewWriter)
         | Inr m \<Rightarrow>
             (case tarRoots ho paths of
                Inl err \<Rightarrow> (Inl err, NewWriter)
              | Inr roots \<Rightarrow> addRoots ho roots m NewWriter))
      in (r, snd (CloseWriter tw)))"

end
