(* ===== verification/Extract.thy ===== *)
theory Extract
  imports Archive
begin

text \<open>
  Restoring the archive of a job (\<^verbatim>\<open>extractTar\<close> and \<^verbatim>\<open>safeExtractPath\<close> in
  \<^verbatim>\<open>cmd/backupctl/main.go\<close>) on a file system that resolves paths the way the kernel does,
  symbolic links included. The process may read and write everything, and the disk does not
  fill up; what fails is what the shape of the tree makes fail.
\<close>

subsection \<open>The file system\<close>

type_synonym perm = "9 word"

datatype inode = Directory perm | Regular perm bytes | Link string

text \<open>What there is at a location, the list of names that leads to it from the root.\<close>

type_synonym disk = "(string list \<times> inode) list"

definition look :: "disk \<Rightarrow> string list \<Rightarrow> inode option" where
  "look fs p = (if p = [] then Some (Directory 0x1ED) else map_of fs p)"

text \<open>
  The location a path denotes, whose last name need not exist; at most \<open>n\<close> links are followed,
  one in last position only if \<open>follow\<close>.
\<close>

function resolve :: "nat \<Rightarrow> disk \<Rightarrow> bool \<Rightarrow> string list \<Rightarrow> string list \<Rightarrow> string list result" where
  "resolve n fs follow dir [] = Inr dir"
| "resolve n fs follow dir (c # cs) =
     (if c = [] \<or> c = ''.'' then resolve n fs follow dir cs
      else if c = ''..'' then resolve n fs follow (butlast dir) cs
      else case look fs (dir @ [c]) of
          None \<Rightarrow> if cs = [] then Inr (dir @ [c]) else Inl ''no such file or directory''
        | Some (Directory _) \<Rightarrow> resolve n fs follow (dir @ [c]) cs
        | Some (Regular _ _) \<Rightarrow> if cs = [] then Inr (dir @ [c]) else Inl ''not a directory''
        | Some (Link t) \<Rightarrow>
            if cs = [] \<and> \<not> follow then Inr (dir @ [c])
            else (case n of
                0 \<Rightarrow> Inl ''too many levels of symbolic links''
              | Suc k \<Rightarrow> resolve k fs follow (if IsAbs t then [] else dir) (split_slash t @ cs)))"
  by pat_completeness auto
termination
  by (relation "inv_image (less_than <*lex*> less_than) (\<lambda>(n, fs, follow, dir, cs). (n, length cs))") auto

text \<open>A path as the kernel gets it: where to start, and the names.\<close>

type_synonym place = "string list \<times> string list"

abbreviation max_links :: nat where
  "max_links \<equiv> 40"

definition stat_at :: "bool \<Rightarrow> disk \<Rightarrow> place \<Rightarrow> inode result" where
  "stat_at follow fs p =
     (case resolve max_links fs follow (fst p) (snd p) of
        Inl err \<Rightarrow> Inl err
      | Inr l \<Rightarrow> (case look fs l of None \<Rightarrow> Inl ''no such file or directory'' | Some i \<Rightarrow> Inr i))"

definition Mkdir :: "perm \<Rightarrow> disk \<Rightarrow> place \<Rightarrow> perm \<Rightarrow> unit result \<times> disk" where
  "Mkdir umask fs p perm =
     (case resolve max_links fs False (fst p) (snd p) of
        Inl err \<Rightarrow> (Inl err, fs)
      | Inr l \<Rightarrow>
          (case look fs l of
             Some _ \<Rightarrow> (Inl ''file exists'', fs)
           | None \<Rightarrow> (Inr (), (l, Directory (and perm (not umask))) # fs)))"

text \<open>\<^verbatim>\<open>os.MkdirAll\<close>; the names come last first.\<close>

fun MkdirAll_rev :: "perm \<Rightarrow> perm \<Rightarrow> string list \<Rightarrow> string list \<Rightarrow> disk \<Rightarrow> unit result \<times> disk" where
  "MkdirAll_rev umask perm start [] fs = (Inr (), fs)"
| "MkdirAll_rev umask perm start (c # cs) fs =
     (let p = (start, rev (c # cs)) in
      case stat_at True fs p of
        Inr (Directory _) \<Rightarrow> (Inr (), fs)
      | Inr _ \<Rightarrow> (Inl ''not a directory'', fs)
      | Inl _ \<Rightarrow>
          (case MkdirAll_rev umask perm start cs fs of
             (Inl err, fs) \<Rightarrow> (Inl err, fs)
           | (Inr _, fs) \<Rightarrow>
               (case Mkdir umask fs p perm of
                  (Inr _, fs) \<Rightarrow> (Inr (), fs)
                | (Inl err, fs) \<Rightarrow>
                    (case stat_at False fs p of
                       Inr (Directory _) \<Rightarrow> (Inr (), fs)
                     | _ \<Rightarrow> (Inl err, fs)))))"

definition MkdirAll :: "perm \<Rightarrow> disk \<Rightarrow> place \<Rightarrow> perm \<Rightarrow> unit result \<times> disk" where
  "MkdirAll umask fs p perm = MkdirAll_rev umask perm (fst p) (rev (snd p)) fs"

text \<open>\<^verbatim>\<open>os.OpenFile\<close> with \<^verbatim>\<open>O_CREATE|O_TRUNC|O_WRONLY\<close>, and writing to what it opened.\<close>

definition OpenFile :: "perm \<Rightarrow> disk \<Rightarrow> place \<Rightarrow> perm \<Rightarrow> string list result \<times> disk" where
  "OpenFile umask fs p perm =
     (case resolve max_links fs True (fst p) (snd p) of
        Inl err \<Rightarrow> (Inl err, fs)
      | Inr l \<Rightarrow>
          (case look fs l of
             None \<Rightarrow> (Inr l, (l, Regular (and perm (not umask)) []) # fs)
           | Some (Regular m _) \<Rightarrow> (Inr l, (l, Regular m []) # fs)
           | Some _ \<Rightarrow> (Inl ''is a directory'', fs)))"

definition write_at :: "string list \<Rightarrow> bytes \<Rightarrow> disk \<Rightarrow> disk" where
  "write_at l data fs =
     (case look fs l of Some (Regular m old) \<Rightarrow> (l, Regular m (old @ data)) # fs | _ \<Rightarrow> fs)"

text \<open>\<^verbatim>\<open>os.Remove\<close>: a file or link is unlinked, an empty directory removed. The caller ignores errors.\<close>

definition Remove :: "disk \<Rightarrow> place \<Rightarrow> disk" where
  "Remove fs p =
     (case resolve max_links fs False (fst p) (snd p) of
        Inl err \<Rightarrow> fs
      | Inr l \<Rightarrow>
          (case look fs l of
             None \<Rightarrow> fs
           | Some (Directory _) \<Rightarrow>
               if l = [] \<or> list_ex (\<lambda>(q, _). q \<noteq> [] \<and> butlast q = l) fs then fs
               else filter (\<lambda>(q, _). q \<noteq> l) fs
           | Some _ \<Rightarrow> filter (\<lambda>(q, _). q \<noteq> l) fs))"

definition Symlink :: "string \<Rightarrow> disk \<Rightarrow> place \<Rightarrow> unit result \<times> disk" where
  "Symlink target fs p =
     (if target = [] then (Inl ''no such file or directory'', fs)
      else case resolve max_links fs False (fst p) (snd p) of
        Inl err \<Rightarrow> (Inl err, fs)
      | Inr l \<Rightarrow>
          (case look fs l of
             Some _ \<Rightarrow> (Inl ''file exists'', fs)
           | None \<Rightarrow> (Inr (), (l, Link target) # fs)))"

subsection \<open>Where an entry goes\<close>

definition safeExtractPath :: "string \<Rightarrow> string \<Rightarrow> string result" where
  "safeExtractPath outAbs name =
     (let cleaned = Clean name in
      if cleaned = ''.'' \<or> IsAbs cleaned \<or> HasPrefix cleaned ''../'' \<or> cleaned = ''..'' then
        Inl ''unsafe tar path''
      else
        case Abs (Inl ''not needed'') (Join [outAbs, cleaned]) of
          Inl err \<Rightarrow> Inl err
        | Inr targetAbs \<Rightarrow>
            if targetAbs \<noteq> outAbs \<and> \<not> HasPrefix targetAbs (outAbs @ ''/'') then Inl ''unsafe tar path''
            else Inr targetAbs)"

subsection \<open>Extraction\<close>

definition parts :: "string \<Rightarrow> string list" where
  "parts p = filter (\<lambda>c. c \<noteq> []) (split_slash p)"

definition place_of :: "string \<Rightarrow> string \<Rightarrow> place" where
  "place_of cwd p = (if IsAbs p then [] else parts cwd, parts p)"

text \<open>The permission bits of a header; \<^verbatim>\<open>os.FileMode\<close> keeps no others.\<close>

definition perm_bits :: "mode \<Rightarrow> perm" where
  "perm_bits m = ucast m"

definition extractEntry :: "perm \<Rightarrow> string \<Rightarrow> tar_entry \<Rightarrow> disk \<Rightarrow> unit result \<times> disk" where
  "extractEntry umask outAbs e fs =
     (case e of (header, data) \<Rightarrow>
        case safeExtractPath outAbs (hd_name header) of
          Inl err \<Rightarrow> (Inl err, fs)
        | Inr target \<Rightarrow>
            let p = ([], parts target);
                dir = ([], parts (Dir target));
                perm = perm_bits (hd_mode header)
            in case hd_type header of
                 TypeDir \<Rightarrow> MkdirAll umask fs p perm
               | TypeReg \<Rightarrow>
                   (case MkdirAll umask fs dir 0x1ED of
                      (Inl err, fs) \<Rightarrow> (Inl err, fs)
                    | (Inr _, fs) \<Rightarrow>
                        (case OpenFile umask fs p perm of
                           (Inl err, fs) \<Rightarrow> (Inl err, fs)
                         | (Inr f, fs) \<Rightarrow>
                             (case rd_end data of EOF \<Rightarrow> Inr () | ReadError err \<Rightarrow> Inl err,
                              write_at f (rd_bytes data) fs)))
               | TypeSymlink \<Rightarrow>
                   (case MkdirAll umask fs dir 0x1ED of
                      (Inl err, fs) \<Rightarrow> (Inl err, fs)
                    | (Inr _, fs) \<Rightarrow> Symlink (hd_linkname header) (Remove fs p) p)
               | TypeOther \<Rightarrow> (Inr (), fs))"

text \<open>\<^verbatim>\<open>tr.Next\<close> skips what was not read of the entry before, and fails where that does.\<close>

fun extract_loop :: "perm \<Rightarrow> string \<Rightarrow> tar_entry list \<Rightarrow> stream_end \<Rightarrow> disk \<Rightarrow> unit result \<times> disk" where
  "extract_loop umask outAbs [] fin fs = (case fin of EOF \<Rightarrow> Inr () | ReadError err \<Rightarrow> Inl err, fs)"
| "extract_loop umask outAbs (e # es) fin fs =
     (case extractEntry umask outAbs e fs of
        (Inl err, fs) \<Rightarrow> (Inl err, fs)
      | (Inr _, fs) \<Rightarrow>
          (case rd_end (snd e) of
             ReadError err \<Rightarrow> (Inl err, fs)
           | EOF \<Rightarrow> extract_loop umask outAbs es fin fs))"

definition extractTar :: "perm \<Rightarrow> string \<Rightarrow> tar_stream \<Rightarrow> string \<Rightarrow> disk \<Rightarrow> unit result \<times> disk" where
  "extractTar umask cwd r outDir fs =
     (case MkdirAll umask fs (place_of cwd outDir) 0x1ED of
        (Inl err, fs) \<Rightarrow> (Inl err, fs)
      | (Inr _, fs) \<Rightarrow>
          (case Abs (Inr cwd) outDir of
             Inl err \<Rightarrow> (Inl err, fs)
           | Inr outAbs \<Rightarrow> extract_loop umask outAbs (ts_entries r) (ts_end r) fs))"

subsection \<open>Targets stay below the output directory\<close>

lemma plain_Base_notin: "plain_path ws \<Longrightarrow> ''..'' \<notin> set ws"
  by (auto simp: list_all_iff plain_comp_def)

text \<open>What \<open>safeExtractPath\<close> tests on the cleaned name says that it descends.\<close>

lemma relative_clean:
  assumes "\<not> IsAbs name"
  shows "\<not> IsAbs (Clean name)"
    and "(Clean name = ''.'' \<or> HasPrefix (Clean name) ''../'' \<or> Clean name = ''..'') \<longleftrightarrow>
      \<not> (clean_parts name \<noteq> [] \<and> plain_path (clean_parts name))"
proof -
  obtain k ws where p: "clean_parts name = replicate k ''..'' @ ws" "plain_path ws"
    using clean_parts_relative [OF assms] by blast
  have c: "Clean name = (if clean_parts name = [] then ''.'' else join_slash (clean_parts name))"
    using assms by (simp add: Clean_parts render_def)
  have dots: "\<not> plain_comp ''..''" by (simp add: plain_comp_def)
  consider (none) "k = 0" "ws = []" | (down) v vs where "k = 0" "ws = v # vs" | (up) j where "k = Suc j"
    by (cases k; cases ws) auto
  then have "\<not> IsAbs (Clean name) \<and> ((Clean name = ''.'' \<or> HasPrefix (Clean name) ''../'' \<or> Clean name = ''..'') \<longleftrightarrow>
      \<not> (clean_parts name \<noteq> [] \<and> plain_path (clean_parts name)))"
  proof cases
    case none
    then show ?thesis using p c by (simp add: IsAbs_def)
  next
    case down
    have v: "plain_comp v" using p down by simp
    obtain rest where r: "join_slash (v # vs) = v @ rest" "rest = [] \<or> hd rest = slash"
      by (cases vs) auto
    have "v \<noteq> []" "v \<noteq> ''.''" "v \<noteq> ''..''" "slash \<notin> set v" using v by (simp_all add: plain_comp_def)
    then have "\<not> IsAbs (v @ rest)" "v @ rest \<noteq> ''.''" "v @ rest \<noteq> ''..''" "\<not> HasPrefix (v @ rest) ''../''"
      using r(2)
      by (cases v; cases rest; cases "tl v"; cases "tl (tl v)"; force simp: IsAbs_def HasPrefix_def)+
    then show ?thesis using p c down r(1) by simp
  next
    case up
    then have s: "clean_parts name = ''..'' # replicate j ''..'' @ ws" using p by simp
    then show ?thesis using c dots
      by (cases "replicate j ''..'' @ ws") (simp_all add: IsAbs_def HasPrefix_def)
  qed
  then show "\<not> IsAbs (Clean name)"
    "(Clean name = ''.'' \<or> HasPrefix (Clean name) ''../'' \<or> Clean name = ''..'') \<longleftrightarrow>
      \<not> (clean_parts name \<noteq> [] \<and> plain_path (clean_parts name))" by blast+
qed

lemma Abs_abs [simp]: "plain_path ws \<Longrightarrow> Abs cwd (abs_path ws) = Inr (abs_path ws)"
  by (simp add: Abs_def)

lemma safeExtractPath_eq:
  assumes "plain_path os"
  shows "safeExtractPath (abs_path os) name =
    (if os \<noteq> [] \<and> \<not> IsAbs name \<and> clean_parts name \<noteq> [] \<and> plain_path (clean_parts name)
     then Inr (abs_path (os @ clean_parts name)) else Inl ''unsafe tar path'')"
proof (cases "\<not> IsAbs name \<and> clean_parts name \<noteq> [] \<and> plain_path (clean_parts name)")
  case True
  then have c: "Clean name = join_slash (clean_parts name)" by (simp add: Clean_parts render_def)
  have ok: "\<not> (Clean name = ''.'' \<or> IsAbs (Clean name) \<or> HasPrefix (Clean name) ''../'' \<or> Clean name = ''..'')"
    using relative_clean [of name] True by blast
  have j: "Join [abs_path os, Clean name] = abs_path (os @ clean_parts name)"
    unfolding c using True assms by (intro Join_plain) auto
  have a: "Abs cwd (abs_path (os @ clean_parts name)) = Inr (abs_path (os @ clean_parts name))" for cwd
    using True assms by simp
  have inside: "abs_path (os @ clean_parts name) = abs_path os \<or>
      HasPrefix (abs_path (os @ clean_parts name)) (abs_path os @ ''/'') \<longleftrightarrow> os \<noteq> []"
  proof (cases "os = []")
    case True
    obtain v vs where vs: "clean_parts name = v # vs" "plain_comp v"
      using \<open>\<not> IsAbs name \<and> clean_parts name \<noteq> [] \<and> plain_path (clean_parts name)\<close> by (cases "clean_parts name") auto
    then have "v \<noteq> []" "hd v \<noteq> slash" using hd_in_set [of v] by (auto simp: plain_comp_def simp del: hd_in_set)
    moreover have "\<exists>r. join_slash (v # vs) = v @ r" by (cases vs) auto
    ultimately show ?thesis using True vs
      by (cases v) (auto simp: render_def HasPrefix_def)
  next
    case False
    then show ?thesis using True by (simp add: abs_path_append HasPrefix_def)
  qed
  show ?thesis
    unfolding safeExtractPath_def Let_def if_not_P [OF ok] j a sum.case
    using True inside by auto
next
  case False
  show ?thesis
  proof (cases "IsAbs name")
    case True
    then have "IsAbs (Clean name)" by (simp add: Clean_parts)
    then show ?thesis using True by (simp add: safeExtractPath_def)
  next
    case rel: False
    then have "Clean name = ''.'' \<or> HasPrefix (Clean name) ''../'' \<or> Clean name = ''..''"
      using relative_clean(2) [OF rel] False by blast
    then show ?thesis using False by (auto simp: safeExtractPath_def Let_def)
  qed
qed

text \<open>
  C38: a target is never outside. Whatever name an entry carries, \<open>safeExtractPath\<close> for a clean
  absolute directory other than the root answers with the path of that directory followed by at least
  one plain component, none of which is \<^verbatim>\<open>..\<close>, and it does so exactly for the relative names
  that clean to such a path; for the root directory it refuses everything.
\<close>

theorem safe_extract_path:
  assumes "plain_path os"
  shows "safeExtractPath (abs_path os) name = Inr t \<longleftrightarrow>
    os \<noteq> [] \<and> \<not> IsAbs name \<and>
    (\<exists>cs. clean_parts name = cs \<and> cs \<noteq> [] \<and> plain_path cs \<and> t = abs_path os @ ''/'' @ join_slash cs)"
  using assms abs_path_append [of "clean_parts name" os]
  by (auto simp: safeExtractPath_eq)

theorem safe_extract_path_witness:
  "safeExtractPath ''/out'' ''a/../b/./c'' = Inr ''/out/b/c'' \<and> safeExtractPath ''/out'' ''a/../../b'' = Inl ''unsafe tar path''"
proof -
  have o: "plain_path [''out'']" "abs_path [''out''] = ''/out''"
    by (simp_all add: plain_comp_def render_def)
  have "clean_parts ''a/../b/./c'' = [''b'', ''c'']" "\<not> IsAbs ''a/../b/./c''"
    by (simp_all add: clean_parts_def clean_comps_def clean_step_def IsAbs_def)
  then have "safeExtractPath ''/out'' ''a/../b/./c'' = Inr ''/out/b/c''"
    using safe_extract_path [OF o(1), of "''a/../b/./c''" "''/out/b/c''"] o(2) by (simp add: plain_comp_def)
  moreover have "clean_parts ''a/../../b'' = [''..'', ''b'']"
    by (simp add: clean_parts_def clean_comps_def clean_step_def IsAbs_def)
  then have "safeExtractPath ''/out'' ''a/../../b'' = Inl ''unsafe tar path''"
    using safeExtractPath_eq [OF o(1), of "''a/../../b''"] o(2) by (simp add: plain_comp_def)
  ultimately show ?thesis ..
qed

end
