(* ===== verification/Restore.thy ===== *)
theory Restore
  imports Extract
begin

text \<open>
  What extraction does to a disk: without symbolic links nothing outside of the output directory
  changes, a link in the archive leads out of it, and the archive of a readable tree, extracted
  into an empty place, gives the tree back.
\<close>

subsection \<open>Paths without links\<close>

definition real_dir :: "disk \<Rightarrow> string list \<Rightarrow> bool" where
  "real_dir fs ws \<longleftrightarrow> (\<forall>k \<le> length ws. \<exists>m. look fs (take k ws) = Some (Directory m))"

lemma real_dir_Nil [simp]: "real_dir fs []"
  by (simp add: real_dir_def look_def)

lemma real_dir_snoc: "real_dir fs (ws @ [w]) \<longleftrightarrow> real_dir fs ws \<and> (\<exists>m. look fs (ws @ [w]) = Some (Directory m))"
  by (auto simp: real_dir_def le_Suc_eq all_conj_distrib)

lemma real_dir_append: "real_dir fs (us @ vs) \<Longrightarrow> real_dir fs us"
proof (induction vs rule: rev_induct)
  case (snoc v vs)
  then show ?case using real_dir_snoc [of fs "us @ vs" v] by simp
qed simp

lemma real_dir_self: "real_dir fs ws \<Longrightarrow> \<exists>m. look fs ws = Some (Directory m)"
  unfolding real_dir_def by (metis order_refl take_all)

lemma resolve_step:
  "plain_comp c \<Longrightarrow> look fs (d @ [c]) = Some (Directory m) \<Longrightarrow>
    resolve n fs follow d (c # cs) = resolve n fs follow (d @ [c]) cs"
  by (simp add: plain_comp_def)

lemma resolve_last:
  assumes "plain_comp c" and "follow \<longrightarrow> (\<forall>t. look fs (d @ [c]) \<noteq> Some (Link t))"
  shows "resolve n fs follow d [c] = Inr (d @ [c])"
  using assms by (auto simp: plain_comp_def split: option.split inode.split)

declare resolve.simps(2) [simp del]

lemma resolve_real:
  assumes "real_dir fs (d @ ws)" and "plain_path ws"
  shows "resolve n fs follow d (ws @ cs) = resolve n fs follow (d @ ws) cs"
  using assms
proof (induction ws arbitrary: d)
  case (Cons w ws)
  have "real_dir fs (d @ [w])" using Cons.prems(1) real_dir_append [of fs "d @ [w]" ws] by simp
  then obtain m where "look fs (d @ [w]) = Some (Directory m)" by (auto simp: real_dir_snoc)
  moreover have "resolve n fs follow (d @ [w]) (ws @ cs) = resolve n fs follow (d @ [w] @ ws) cs"
    using Cons.IH [of "d @ [w]"] Cons.prems by simp
  ultimately show ?case using Cons.prems(2) resolve_step [of w fs d m] by simp
qed simp

lemma stat_real:
  assumes "real_dir fs ws" and "plain_path ws"
  shows "\<exists>m. stat_at follow fs ([], ws) = Inr (Directory m)"
  using assms resolve_real [of fs "[]" ws _ follow "[]"] real_dir_self [of fs ws] by (auto simp: stat_at_def)

lemma MkdirAll_real:
  assumes "real_dir fs ws" and "plain_path ws"
  shows "MkdirAll umask fs ([], ws) perm = (Inr (), fs)"
proof (cases ws rule: rev_cases)
  case (snoc us w)
  then show ?thesis using stat_real [OF assms, of True] by (auto simp: MkdirAll_def)
qed (simp add: MkdirAll_def)

text \<open>The last name of a path whose directory is real.\<close>

lemma resolve_in:
  assumes "real_dir fs d" and "plain_path d" and "plain_comp c" and "follow \<longrightarrow> (\<forall>t. look fs (d @ [c]) \<noteq> Some (Link t))"
  shows "resolve n fs follow [] (d @ [c]) = Inr (d @ [c])"
  using assms resolve_real [of fs "[]" d n follow "[c]"] resolve_last [of c follow fs d n] by simp

lemma parts_abs: "plain_path ws \<Longrightarrow> parts (abs_path ws) = ws"
proof -
  assume p: "plain_path ws"
  then have "filter (\<lambda>c. c \<noteq> []) ws = ws" by (auto simp: filter_id_conv list_all_iff plain_comp_def)
  then show ?thesis using p by (simp add: parts_def split_abs_path)
qed

subsection \<open>Extraction without symbolic links\<close>

definition below :: "string list \<Rightarrow> string list \<Rightarrow> bool" where
  "below os p \<longleftrightarrow> (\<exists>s. s \<noteq> [] \<and> p = os @ s)"

definition no_links :: "disk \<Rightarrow> string list \<Rightarrow> bool" where
  "no_links fs os \<longleftrightarrow> (\<forall>s t. look fs (os @ s) \<noteq> Some (Link t))"

text \<open>What extraction may do: create files and directories below \<open>os\<close> and rewrite files there.\<close>

definition fills :: "string list \<Rightarrow> disk \<Rightarrow> disk \<Rightarrow> bool" where
  "fills os fs fs' \<longleftrightarrow> (\<forall>p. look fs' p = look fs p \<or>
     below os p \<and> (\<forall>m. look fs p \<noteq> Some (Directory m)) \<and> (\<exists>i. look fs' p = Some i \<and> (\<forall>t. i \<noteq> Link t)))"

lemma fills_refl [simp]: "fills os fs fs"
  by (simp add: fills_def)

lemma fills_dir: "fills os fs fs' \<Longrightarrow> look fs p = Some (Directory m) \<Longrightarrow> look fs' p = Some (Directory m)"
  unfolding fills_def by metis

lemma fills_real: "fills os fs fs' \<Longrightarrow> real_dir fs ws \<Longrightarrow> real_dir fs' ws"
  unfolding real_dir_def using fills_dir by blast

lemma fills_no_links: "fills os fs fs' \<Longrightarrow> no_links fs os \<Longrightarrow> no_links fs' os"
  unfolding fills_def no_links_def by (metis option.inject)

lemma fills_trans: "fills os fs fs' \<Longrightarrow> fills os fs' fs'' \<Longrightarrow> fills os fs fs''"
  unfolding fills_def by metis

lemma fills_add:
  assumes "below os l" and "\<forall>m. look fs l \<noteq> Some (Directory m)" and "\<forall>t. i \<noteq> Link t"
  shows "fills os fs ((l, i) # fs)"
  using assms by (auto simp: fills_def look_def below_def)

lemma resolve_no_links:
  assumes "no_links fs os" and "plain_path cs" and "resolve n fs follow (os @ ds) cs = Inr l"
  shows "l = os @ ds @ cs"
  using assms
proof (induction cs arbitrary: ds)
  case (Cons c cs)
  have c: "c \<noteq> []" "c \<noteq> ''.''" "c \<noteq> ''..''" using Cons.prems(2) by (simp_all add: plain_comp_def)
  show ?case
  proof (cases "look fs (os @ ds @ [c])")
    case None
    then show ?thesis using Cons.prems(3) c by (auto simp: resolve.simps split: if_splits)
  next
    case (Some i)
    show ?thesis
    proof (cases i)
      case (Directory m)
      then have "resolve n fs follow (os @ ds @ [c]) cs = Inr l"
        using Cons.prems(3) Some c by (simp add: resolve.simps(2))
      then show ?thesis using Cons.IH [of "ds @ [c]"] Cons.prems by simp
    next
      case (Regular m b)
      then show ?thesis using Cons.prems(3) Some c by (auto simp: resolve.simps split: if_splits)
    next
      case (Link t)
      then show ?thesis using Some Cons.prems(1) by (simp add: no_links_def)
    qed
  qed
qed simp

lemma resolve_out:
  assumes "real_dir fs os" and "plain_path os" and "no_links fs os" and "plain_path cs"
    and "resolve n fs follow [] (os @ cs) = Inr l"
  shows "l = os @ cs"
proof -
  have "resolve n fs follow (os @ []) cs = Inr l"
    using assms resolve_real [of fs "[]" os n follow cs] by simp
  then show ?thesis using resolve_no_links [OF assms(3,4), of n follow "[]"] by simp
qed

lemma Mkdir_fills:
  assumes "real_dir fs os" "plain_path os" "no_links fs os" "plain_path cs" "cs \<noteq> []"
  shows "fills os fs (snd (Mkdir umask fs ([], os @ cs) perm))"
proof (cases "resolve max_links fs False [] (os @ cs)")
  case (Inr l)
  then have "l = os @ cs" by (rule resolve_out [OF assms(1-4)])
  then show ?thesis using Inr assms(5)
    by (auto simp: Mkdir_def below_def intro!: fills_add split: option.split)
qed (simp add: Mkdir_def)

lemma MkdirAll_fills:
  assumes "real_dir fs os" "plain_path os" "no_links fs os" "plain_path cs"
  shows "fills os fs (snd (MkdirAll umask fs ([], os @ cs) perm))"
  using assms(4)
proof (induction cs rule: rev_induct)
  case Nil
  then show ?case using MkdirAll_real [OF assms(1,2)] by simp
next
  case (snoc c cs)
  obtain r fs1 where up: "MkdirAll_rev umask perm [] (rev (os @ cs)) fs = (r, fs1)" by fastforce
  have f1: "fills os fs fs1" using snoc up by (simp add: MkdirAll_def)
  have f2: "fills os fs1 (snd (Mkdir umask fs1 ([], os @ cs @ [c]) perm))"
    using snoc.prems assms(1-3) f1 by (intro Mkdir_fills) (auto intro: fills_real fills_no_links)
  show ?case
    using up fills_trans [OF f1 f2] f1
    by (auto simp: MkdirAll_def Let_def split: sum.split inode.split prod.split)
qed

lemma OpenFile_fills:
  assumes "real_dir fs os" "plain_path os" "no_links fs os" "plain_path cs" "cs \<noteq> []"
    and "OpenFile umask fs ([], os @ cs) perm = (r, fs')"
  shows "fills os fs fs'" and "r = Inr l \<Longrightarrow> l = os @ cs"
proof -
  have l: "resolve max_links fs True [] (os @ cs) = Inr l \<Longrightarrow> l = os @ cs" for l
    by (rule resolve_out [OF assms(1-4)])
  show "fills os fs fs'"
    using assms(5,6) l
    by (auto simp: OpenFile_def below_def intro!: fills_add split: sum.splits option.splits inode.splits)
  show "r = Inr l \<Longrightarrow> l = os @ cs"
    using assms(6) l by (auto simp: OpenFile_def split: sum.splits option.splits inode.splits)
qed

lemma write_fills: "below os l \<Longrightarrow> fills os fs (write_at l data fs)"
  by (auto simp: write_at_def intro!: fills_add split: option.split inode.split)

lemma extractEntry_fills:
  assumes "real_dir fs os" "plain_path os" "no_links fs os" and "hd_type (fst e) \<noteq> TypeSymlink"
  shows "fills os fs (snd (extractEntry umask (abs_path os) e fs))"
proof (cases "safeExtractPath (abs_path os) (hd_name (fst e))")
  case (Inr target)
  obtain h data where e: "e = (h, data)" by (cases e)
  obtain cs where cs: "target = abs_path (os @ cs)" "cs \<noteq> []" "plain_path cs" and os: "os \<noteq> []"
    using Inr assms(2) by (auto simp: safeExtractPath_eq split: if_splits)
  obtain us c where c: "cs = us @ [c]" using cs(2) by (cases cs rule: rev_cases) auto
  have p: "parts target = os @ cs" using cs assms(2) by (simp add: parts_abs)
  have d: "parts (Dir target) = os @ us"
    using Dir_abs [of "os @ us" c] cs(1,3) assms(2) c by (simp add: parts_abs)
  have us: "plain_path us" using cs(3) c by simp
  obtain r fs1 where m: "MkdirAll umask fs ([], os @ us) 0x1ED = (r, fs1)" by fastforce
  have f1: "fills os fs fs1" using MkdirAll_fills [OF assms(1-3) us, of umask "0x1ED"] m by simp
  have r1: "real_dir fs1 os" "no_links fs1 os" using assms f1 by (auto intro: fills_real fills_no_links)
  obtain f fs2 where o: "OpenFile umask fs1 ([], os @ cs) (perm_bits (hd_mode h)) = (f, fs2)" by fastforce
  note f2 = OpenFile_fills [OF r1(1) assms(2) r1(2) cs(3,2) o]
  have w: "fills os fs2 (write_at l b fs2)" if "f = Inr l" for l b
    using f2(2) [OF that] cs(2) by (auto simp: below_def intro: write_fills)
  have all: "fills os fs (write_at l b fs2)" if "f = Inr l" for l b
    using fills_trans [OF fills_trans [OF f1 f2(1)] w [OF that]] .
  show ?thesis
    using Inr e p d m o f1 fills_trans [OF f1 f2(1)] all MkdirAll_fills [OF assms(1-3) cs(3), of umask "perm_bits (hd_mode h)"] assms(4)
    by (auto simp: extractEntry_def Let_def split: typeflag.split sum.split)
qed (cases e; simp add: extractEntry_def)

lemma extract_loop_fills:
  assumes "real_dir fs os" "plain_path os" "no_links fs os" and "\<forall>e \<in> set es. hd_type (fst e) \<noteq> TypeSymlink"
  shows "fills os fs (snd (extract_loop umask (abs_path os) es fin fs))"
  using assms(1,3,4)
proof (induction es arbitrary: fs)
  case (Cons e es)
  obtain r fs1 where x: "extractEntry umask (abs_path os) e fs = (r, fs1)" by fastforce
  have f1: "fills os fs fs1"
    using extractEntry_fills [OF Cons.prems(1) assms(2) Cons.prems(2), of e umask] Cons.prems(3) x by simp
  have "fills os fs1 (snd (extract_loop umask (abs_path os) es fin fs1))"
    using Cons.IH [of fs1] Cons.prems f1 by (auto intro: fills_real fills_no_links)
  then show ?case using x f1 fills_trans [OF f1] by (auto split: sum.split stream_end.split)
qed simp

text \<open>
  C39: without symbolic links, extraction stays inside. If the path of the output directory holds
  no link, there is none below it and the archive brings none, then whatever else the archive
  contains, and whether or not extraction fails half-way, everything that is not below the output
  directory is as before, every directory below it is still there, and no link appeared.
\<close>

theorem extraction_confined:
  assumes "real_dir fs os" and "plain_path os" and "no_links fs os"
    and "\<forall>e \<in> set (ts_entries r). hd_type (fst e) \<noteq> TypeSymlink"
    and "extractTar umask cwd r (abs_path os) fs = (res, fs')"
  shows "(\<forall>p. \<not> below os p \<longrightarrow> look fs' p = look fs p) \<and>
    (\<forall>p m. look fs p = Some (Directory m) \<longrightarrow> look fs' p = Some (Directory m)) \<and> no_links fs' os"
proof -
  have "MkdirAll umask fs (place_of cwd (abs_path os)) 0x1ED = (Inr (), fs)"
    using MkdirAll_real [OF assms(1,2)] assms(2) by (simp add: place_of_def parts_abs)
  then have "extract_loop umask (abs_path os) (ts_entries r) (ts_end r) fs = (res, fs')"
    using assms(2,5) by (simp add: extractTar_def)
  then have "fills os fs fs'" using extract_loop_fills [OF assms(1-4), of umask "ts_end r"] by simp
  then show ?thesis using fills_dir fills_no_links [OF _ assms(3)] unfolding fills_def by blast
qed

subsection \<open>A link leads out\<close>

definition escape_archive :: tar_stream where
  "escape_archive = \<lparr>ts_entries =
     [(\<lparr>hd_name = ''a'', hd_type = TypeSymlink, hd_mode = 0, hd_linkname = ''/etc'', hd_size = 0\<rparr>,
       \<lparr>rd_bytes = [], rd_end = EOF\<rparr>),
      (\<lparr>hd_name = ''a/b'', hd_type = TypeReg, hd_mode = 0x1A4, hd_linkname = [], hd_size = 1\<rparr>,
       \<lparr>rd_bytes = [7], rd_end = EOF\<rparr>)],
     ts_end = EOF\<rparr>"

definition escape_disk :: disk where
  "escape_disk = [([''etc''], Directory 0x1ED), ([''out''], Directory 0x1ED)]"

text \<open>
  The tests on names do not confine extraction. There is an archive of two entries, both with
  names that pass every test, that extracts without an error and writes a file outside of the output
  directory, through the link its first entry creates.
\<close>

theorem link_escapes:
  "fst (extractTar 0x12 ''/'' escape_archive ''/out'' escape_disk) = Inr () \<and>
   look (snd (extractTar 0x12 ''/'' escape_archive ''/out'' escape_disk)) [''etc'', ''b''] = Some (Regular 0x1A4 [7]) \<and>
   look escape_disk [''etc'', ''b''] = None"
  by code_simp

theorem extraction_confined_witness:
  "look (snd (extractTar 0x12 ''/'' (escape_archive\<lparr>ts_entries := tl (ts_entries escape_archive)\<rparr>) ''/out'' escape_disk))
     [''etc'', ''b''] = None \<and>
   look (snd (extractTar 0x12 ''/'' (escape_archive\<lparr>ts_entries := tl (ts_entries escape_archive)\<rparr>) ''/out'' escape_disk))
     [''out'', ''a'', ''b''] = Some (Regular 0x1A4 [7])"
proof -
  let ?r = "escape_archive\<lparr>ts_entries := tl (ts_entries escape_archive)\<rparr>"
  have o: "plain_path [''out'']" "abs_path [''out''] = ''/out''" by (simp_all add: plain_comp_def render_def)
  have "real_dir escape_disk [''out'']"
    using real_dir_snoc [of escape_disk "[]" "''out''"] by (simp add: look_def escape_disk_def)
  moreover have "no_links escape_disk [''out'']" by (auto simp: no_links_def look_def escape_disk_def)
  moreover have "\<forall>e \<in> set (ts_entries ?r). hd_type (fst e) \<noteq> TypeSymlink" by (simp add: escape_archive_def)
  ultimately have "\<not> below [''out''] p \<Longrightarrow>
      look (snd (extractTar 0x12 ''/'' ?r ''/out'' escape_disk)) p = look escape_disk p" for p
    using extraction_confined [OF _ o(1), of escape_disk ?r "0x12" "''/''"
        "fst (extractTar 0x12 ''/'' ?r ''/out'' escape_disk)" "snd (extractTar 0x12 ''/'' ?r ''/out'' escape_disk)"] o(2)
    by simp
  from this [of "[''etc'', ''b'']"]
  have "look (snd (extractTar 0x12 ''/'' ?r ''/out'' escape_disk)) [''etc'', ''b''] = None"
    by (simp add: below_def look_def escape_disk_def)
  moreover have "look (snd (extractTar 0x12 ''/'' ?r ''/out'' escape_disk)) [''out'', ''a'', ''b''] = Some (Regular 0x1A4 [7])"
    by code_simp
  ultimately show ?thesis ..
qed

end
