(* ===== verification/JobRoundtrip.thy ===== *)
theory JobRoundtrip
  imports Restore
begin

text \<open>
  The archive of a job and its extraction, composed: \<open>entries_of\<close> is what the walk writes of a
  readable tree, \<open>restored\<close> what should be on the disk afterwards. Both are recursive over the
  tree, and neither mentions the other's steps.
\<close>

subsection \<open>What the walk writes\<close>

text \<open>Everything can be read, and files have the size they claim.\<close>

fun readable :: "file_tree \<Rightarrow> bool" where
  "readable (Folder _ (Inr ds)) \<longleftrightarrow> distinct (map fst ds) \<and> list_all (\<lambda>(n, d). plain_comp n \<and> readable d) ds"
| "readable (File _ n (Inr f)) \<longleftrightarrow> n = int (length (rd_bytes f)) \<and> rd_end f = EOF"
| "readable (SymLink _ (Inr t)) \<longleftrightarrow> t \<noteq> []"
| "readable (Special _) \<longleftrightarrow> True"
| "readable _ \<longleftrightarrow> False"

text \<open>The permissions an inode gets, from the mode of the original and the umask.\<close>

definition new_perm :: "perm \<Rightarrow> mode \<Rightarrow> perm" where
  "new_perm umask m = and (perm_bits m) (not umask)"

definition header :: "string list \<Rightarrow> file_tree \<Rightarrow> Header" where
  "header rel d =
     (case d of
        Folder m _ \<Rightarrow> \<lparr>hd_name = join_slash rel @ ''/'', hd_type = TypeDir, hd_mode = m, hd_linkname = [], hd_size = 0\<rparr>
      | File m n _ \<Rightarrow> \<lparr>hd_name = join_slash rel, hd_type = TypeReg, hd_mode = m, hd_linkname = [], hd_size = n\<rparr>
      | SymLink m t \<Rightarrow> \<lparr>hd_name = join_slash rel, hd_type = TypeSymlink, hd_mode = m,
          hd_linkname = (case t of Inl _ \<Rightarrow> [] | Inr t \<Rightarrow> t), hd_size = 0\<rparr>
      | Special m \<Rightarrow> \<lparr>hd_name = join_slash rel, hd_type = TypeOther, hd_mode = m, hd_linkname = [], hd_size = 0\<rparr>
      | _ \<Rightarrow> \<lparr>hd_name = [], hd_type = TypeOther, hd_mode = 0, hd_linkname = [], hd_size = 0\<rparr>)"

abbreviation excluded :: "excludePattern list \<Rightarrow> string list \<Rightarrow> file_tree \<Rightarrow> bool" where
  "excluded m rel d \<equiv> exclude_match m (join_slash rel) (IsDir d)"

fun entries_of :: "excludePattern list \<Rightarrow> string list \<Rightarrow> file_tree \<Rightarrow> (Header \<times> bytes) list"
  and entries_in :: "excludePattern list \<Rightarrow> string list \<Rightarrow> (string \<times> file_tree) list \<Rightarrow> (Header \<times> bytes) list"
where
  "entries_of m rel d =
     (if excluded m rel d then []
      else case d of
          Folder _ (Inr ds) \<Rightarrow> (header rel d, []) # entries_in m rel ds
        | File _ _ (Inr f) \<Rightarrow> [(header rel d, rd_bytes f)]
        | _ \<Rightarrow> [(header rel d, [])])"
| "entries_in m rel [] = []"
| "entries_in m rel ((n, d) # ds) = entries_of m (rel @ [n]) d @ entries_in m rel ds"

definition wrote :: "tar_writer \<Rightarrow> (Header \<times> bytes) list \<Rightarrow> tar_writer" where
  "wrote tw es = tw\<lparr>tw_entries := tw_entries tw @ es\<rparr>"

lemma wrote_simps [simp]: "wrote tw [] = tw" "wrote (wrote tw as) bs = wrote tw (as @ bs)"
  "tw_missing (wrote tw es) = tw_missing tw"
  by (simp_all add: wrote_def)

lemma join_no_trailing: "plain_path rel \<Longrightarrow> rel \<noteq> [] \<Longrightarrow> \<not> HasSuffix (join_slash rel) ''/''"
proof -
  assume p: "plain_path rel" and "rel \<noteq> []"
  then obtain us c where r: "rel = us @ [c]" by (cases rel rule: rev_cases) auto
  have "c \<noteq> []" "last c \<noteq> slash" using p r last_in_set [of c] by (auto simp: plain_comp_def simp del: last_in_set)
  moreover have "\<exists>x. join_slash rel = x @ c" using r by (cases "us = []") (auto simp: join_slash_snoc)
  ultimately show ?thesis by (auto simp: HasSuffix_iff) (metis last_appendR last_snoc)
qed

lemma addEntry_readable:
  assumes "readable d" and "tw_missing tw = 0" and "plain_path rel" and "rel \<noteq> []"
  shows "addEntry (join_slash rel) d tw =
    (Done, wrote tw [(header rel d, case d of File _ _ (Inr f) \<Rightarrow> rd_bytes f | _ \<Rightarrow> [])])"
  using assms(1,2) join_no_trailing [OF assms(3,4)]
  by (cases d rule: readable.cases)
    (auto simp: addEntry_def WriteHeader_def Flush_def CopyTo_def Let_def header_def wrote_def)

lemma visit_readable:
  assumes "readable d" and "tw_missing tw = 0" and "plain_path (ps @ rel)" and "rel \<noteq> []"
    and "tr_parent rt = abs_path ps"
  shows "visitEntry rt m (abs_path (ps @ rel)) d tw =
    (if excluded m rel d then (if IsDir d then SkipDir else Done, tw)
     else (Done, wrote tw [(header rel d, case d of File _ _ (Inr f) \<Rightarrow> rd_bytes f | _ \<Rightarrow> [])]))"
proof -
  have r: "Rel (tr_parent rt) (abs_path (ps @ rel)) = join_slash rel" using Rel_below [OF assms(3,4)] assms(5) by simp
  have pl: "plain_path rel" using assms(3) by simp
  have "join_slash rel \<noteq> ''.''"
  proof
    assume "join_slash rel = ''.''"
    then have "split_slash (join_slash rel) = [''.'']" by simp
    then have "rel = [''.'']" using split_join [OF assms(4) plain_path_no_slash [OF pl]] by simp
    then show False using pl by (simp add: plain_comp_def)
  qed
  then show ?thesis
    using addEntry_readable [OF assms(1,2) pl assms(4)] by (simp add: visitEntry_def r Let_def)
qed

lemma walk_readable:
  "tr_parent rt = abs_path ps \<Longrightarrow> readable d \<Longrightarrow> tw_missing tw = 0 \<Longrightarrow> plain_path (ps @ rel) \<Longrightarrow> rel \<noteq> [] \<Longrightarrow>
    walkDir rt m (abs_path (ps @ rel)) d tw = (Inr (), wrote tw (entries_of m rel d))"
  "tr_parent rt = abs_path ps \<Longrightarrow> \<forall>(n, d) \<in> set ds. plain_comp n \<and> readable d \<Longrightarrow> tw_missing tw = 0 \<Longrightarrow>
    plain_path (ps @ rel) \<Longrightarrow> rel \<noteq> [] \<Longrightarrow>
    walkDirs rt m (abs_path (ps @ rel)) ds tw = (Inr (), wrote tw (entries_in m rel ds))"
proof (induction m rel d and m rel ds arbitrary: tw and tw rule: entries_of_entries_in.induct)
  case (1 m rel d)
  note v = visit_readable [OF "1.prems"(2-5,1), of m]
  show ?case
  proof (cases d)
    case (Folder md rs)
    then obtain ds where ds: "rs = Inr ds" using "1.prems"(2) by (cases rs) auto
    have r: "\<forall>(n, d) \<in> set ds. plain_comp n \<and> readable d"
      using "1.prems"(2) Folder ds by (auto simp: list_all_iff)
    show ?thesis
    proof (cases "excluded m rel d")
      case True
      then show ?thesis using v Folder by simp
    next
      case False
      have "walkDirs rt m (abs_path (ps @ rel)) ds (wrote tw [(header rel d, [])]) =
          (Inr (), wrote (wrote tw [(header rel d, [])]) (entries_in m rel ds))"
        using "1.IH" [OF False Folder ds] "1.prems" r by simp
      then show ?thesis using v False Folder ds by simp
    qed
  qed (use v "1.prems"(2) in \<open>auto split: sum.splits\<close>)
next
  case (3 m rel n d ds)
  have n: "plain_comp n" "readable d" using "3.prems"(2) by auto
  have j: "Join [abs_path (ps @ rel), n] = abs_path (ps @ rel @ [n])"
    using Join_plain [of "ps @ rel" "[n]"] "3.prems"(4) n(1) by simp
  have "walkDir rt m (abs_path (ps @ rel @ [n])) d tw = (Inr (), wrote tw (entries_of m (rel @ [n]) d))"
    using "3.IH"(1) [of tw] "3.prems" n by simp
  moreover have "walkDirs rt m (abs_path (ps @ rel)) ds (wrote tw (entries_of m (rel @ [n]) d)) =
      (Inr (), wrote (wrote tw (entries_of m (rel @ [n]) d)) (entries_in m rel ds))"
    using "3.IH"(2) [of "wrote tw (entries_of m (rel @ [n]) d)"] "3.prems" by simp
  ultimately show ?case by (simp add: j del: walkDir.simps entries_of.simps)
qed simp

subsection \<open>What should be on the disk\<close>

fun restored :: "excludePattern list \<Rightarrow> perm \<Rightarrow> string list \<Rightarrow> file_tree \<Rightarrow> (string list \<times> inode) list"
  and restored_in :: "excludePattern list \<Rightarrow> perm \<Rightarrow> string list \<Rightarrow> (string \<times> file_tree) list \<Rightarrow> (string list \<times> inode) list"
where
  "restored m u rel d =
     (if excluded m rel d then []
      else case d of
          Folder md (Inr ds) \<Rightarrow> (rel, Directory (new_perm u md)) # restored_in m u rel ds
        | File md _ (Inr f) \<Rightarrow> [(rel, Regular (new_perm u md) (rd_bytes f))]
        | SymLink _ (Inr t) \<Rightarrow> [(rel, Link t)]
        | _ \<Rightarrow> [])"
| "restored_in m u rel [] = []"
| "restored_in m u rel ((n, d) # ds) = restored m u (rel @ [n]) d @ restored_in m u rel ds"

declare restored.simps [simp del] entries_of.simps [simp del] walkDir.simps [simp del]

definition under :: "string list \<Rightarrow> (string list \<times> inode) list \<Rightarrow> string list \<Rightarrow> inode option" where
  "under os es = map_of (map (\<lambda>(q, i). (os @ q, i)) es)"

lemma under_simps [simp]: "under os [] = Map.empty"
  "under os ((q, i) # es) = (under os es)(os @ q \<mapsto> i)"
  "under os (es @ fs) = under os fs ++ under os es"
  by (simp_all add: under_def)

lemma under_Some: "under os es p = Some i \<Longrightarrow> \<exists>q. p = os @ q \<and> (q, i) \<in> set es"
proof -
  assume "under os es p = Some i"
  then have "(p, i) \<in> set (map (\<lambda>(q, i). (os @ q, i)) es)" unfolding under_def by (rule map_of_SomeD)
  then show ?thesis by auto
qed

lemma restored_keys:
  "(q, i) \<in> set (restored m u rel d) \<Longrightarrow> \<exists>s. q = rel @ s"
  "(q, i) \<in> set (restored_in m u rel ds) \<Longrightarrow> \<exists>n \<in> fst ` set ds. \<exists>s. q = rel @ n # s"
proof (induction m u rel d and m u rel ds arbitrary: q and q rule: restored_restored_in.induct)
  case (1 m u rel d)
  show ?case
  proof (cases "\<exists>md ds. d = Folder md (Inr ds)")
    case True
    then obtain md ds where d: "d = Folder md (Inr ds)" by blast
    then have "excluded m rel d \<or> q = rel \<or> (q, i) \<in> set (restored_in m u rel ds)" using "1.prems" by (auto simp: restored.simps)
    moreover have "\<not> excluded m rel d" using "1.prems" by (auto simp: restored.simps)
    ultimately show ?thesis using "1.IH" [OF _ d] by fastforce
  next
    case False
    then show ?thesis using "1.prems"
      by (subst (asm) restored.simps) (auto split: if_splits file_tree.splits sum.splits)
  qed
next
  case (3 m u rel n d ds)
  have "(q, i) \<in> set (restored m u (rel @ [n]) d) \<or> (q, i) \<in> set (restored_in m u rel ds)"
    using "3.prems" by simp
  then show ?case
  proof
    assume "(q, i) \<in> set (restored m u (rel @ [n]) d)"
    then obtain s where "q = (rel @ [n]) @ s" using "3.IH"(1) by blast
    then show ?thesis by simp
  next
    assume "(q, i) \<in> set (restored_in m u rel ds)"
    then show ?thesis using "3.IH"(2) by auto
  qed
qed simp

lemma under_restored: "under os (restored m u rel d) p = Some i \<Longrightarrow> \<exists>s. p = os @ rel @ s"
  by (blast dest: under_Some restored_keys(1))

lemma under_restored_in: "under os (restored_in m u rel ds) p = Some i \<Longrightarrow> \<exists>n \<in> fst ` set ds. \<exists>s. p = os @ rel @ n # s"
  by (blast dest: under_Some restored_keys(2))

subsection \<open>Extracting one entry where there is nothing yet\<close>

lemma look_Cons: "l \<noteq> [] \<Longrightarrow> look ((l, i) # fs) = (look fs)(l \<mapsto> i)"
  by (auto simp: look_def fun_eq_iff)

lemma MkdirAll_new:
  assumes "real_dir fs d" "plain_path d" "plain_comp c" "look fs (d @ [c]) = None"
  shows "MkdirAll umask fs ([], d @ [c]) perm = (Inr (), (d @ [c], Directory (and perm (not umask))) # fs)"
proof -
  have r: "resolve n fs follow [] (d @ [c]) = Inr (d @ [c])" for n follow
    using assms by (intro resolve_in) simp_all
  have up: "MkdirAll_rev umask perm [] (rev d) fs = (Inr (), fs)"
    using MkdirAll_real [OF assms(1,2)] by (simp add: MkdirAll_def)
  show ?thesis by (simp add: MkdirAll_def Let_def stat_at_def Mkdir_def r up assms(4))
qed

lemma OpenFile_new:
  assumes "real_dir fs d" "plain_path d" "plain_comp c" "look fs (d @ [c]) = None"
  shows "OpenFile umask fs ([], d @ [c]) perm = (Inr (d @ [c]), (d @ [c], Regular (and perm (not umask)) []) # fs)"
proof -
  have "resolve n fs follow [] (d @ [c]) = Inr (d @ [c])" for n follow
    using assms by (intro resolve_in) simp_all
  then show ?thesis by (simp add: OpenFile_def assms(4))
qed

lemma Symlink_new:
  assumes "real_dir fs d" "plain_path d" "plain_comp c" "look fs (d @ [c]) = None" "t \<noteq> []"
  shows "Symlink t (Remove fs ([], d @ [c])) ([], d @ [c]) = (Inr (), (d @ [c], Link t) # fs)"
proof -
  have "resolve n fs follow [] (d @ [c]) = Inr (d @ [c])" for n follow
    using assms by (intro resolve_in) simp_all
  then show ?thesis by (simp add: Symlink_def Remove_def assms(4,5))
qed

lemma plain_no_lead:
  assumes "plain_path rel" "rel \<noteq> []"
  shows "\<not> IsAbs (join_slash rel)" "\<not> IsAbs (join_slash rel @ ''/'')"
proof -
  obtain v vs where v: "rel = v # vs" "plain_comp v" using assms by (cases rel) auto
  then have "v \<noteq> []" "hd v \<noteq> slash" using hd_in_set [of v] by (auto simp: plain_comp_def simp del: hd_in_set)
  moreover have "\<exists>x. join_slash rel = v @ x" using v by (cases vs) auto
  ultimately show "\<not> IsAbs (join_slash rel)" "\<not> IsAbs (join_slash rel @ ''/'')"
    by (cases v; auto simp: IsAbs_def)+
qed

lemma clean_parts_join:
  assumes "plain_path rel" "rel \<noteq> []"
  shows "clean_parts (join_slash rel) = rel" "clean_parts (join_slash rel @ ''/'') = rel"
proof -
  note s = split_join [OF assms(2) plain_path_no_slash [OF assms(1)]]
  show "clean_parts (join_slash rel) = rel"
    using assms by (simp add: clean_parts_def plain_no_lead s)
  have "split_slash (join_slash rel @ slash # []) = rel @ [[]]"
    by (simp only: split_slash_append_slash s) simp
  then show "clean_parts (join_slash rel @ ''/'') = rel"
    using assms by (simp add: clean_parts_def plain_no_lead clean_comps_def fold_plain)
qed

text \<open>The inode an entry stands for.\<close>

fun inode_of :: "perm \<Rightarrow> file_tree \<Rightarrow> inode option" where
  "inode_of u (Folder md _) = Some (Directory (new_perm u md))"
| "inode_of u (File md _ (Inr f)) = Some (Regular (new_perm u md) (rd_bytes f))"
| "inode_of u (SymLink _ (Inr t)) = Some (Link t)"
| "inode_of u _ = None"

abbreviation data_of :: "file_tree \<Rightarrow> bytes" where
  "data_of d \<equiv> (case d of File _ _ (Inr f) \<Rightarrow> rd_bytes f | _ \<Rightarrow> [])"

lemma extractEntry_new:
  assumes "readable d" and "os \<noteq> []" and "plain_path (os @ us @ [c])" and "real_dir fs (os @ us)"
    and "look fs (os @ us @ [c]) = None"
  shows "\<exists>fs'. extractEntry umask (abs_path os) (header (us @ [c]) d, \<lparr>rd_bytes = data_of d, rd_end = EOF\<rparr>) fs = (Inr (), fs') \<and>
    look fs' = (case inode_of umask d of None \<Rightarrow> look fs | Some i \<Rightarrow> (look fs)(os @ us @ [c] \<mapsto> i))"
proof -
  have pl: "plain_path os" "plain_path (us @ [c])" "plain_path (os @ us)" "plain_comp c" using assms(3) by simp_all
  have safe: "safeExtractPath (abs_path os) (hd_name (header (us @ [c]) d)) = Inr (abs_path (os @ us @ [c]))"
    using assms(1) pl clean_parts_join [OF pl(2)] plain_no_lead [OF pl(2)]
    by (cases d rule: readable.cases) (simp_all add: header_def safeExtractPath_eq assms(2))
  have pt: "parts (abs_path (os @ us @ [c])) = (os @ us) @ [c]" using assms(3) by (simp add: parts_abs)
  have pd: "parts (Dir (abs_path (os @ us @ [c]))) = os @ us"
    using Dir_abs [of "os @ us" c] pl by (simp add: parts_abs)
  have none: "look fs ((os @ us) @ [c]) = None" using assms(5) by simp
  note mk = MkdirAll_new [OF assms(4) pl(3,4) none, unfolded append_assoc]
    and op = OpenFile_new [OF assms(4) pl(3,4) none, unfolded append_assoc]
    and sl = Symlink_new [OF assms(4) pl(3,4) none, unfolded append_assoc] and up = MkdirAll_real [OF assms(4) pl(3)]
  have ext: "extractEntry umask (abs_path os) (header (us @ [c]) d, data) fs =
      (case hd_type (header (us @ [c]) d) of
         TypeDir \<Rightarrow> MkdirAll umask fs ([], (os @ us) @ [c]) (perm_bits (hd_mode (header (us @ [c]) d)))
       | TypeReg \<Rightarrow>
           (case OpenFile umask fs ([], (os @ us) @ [c]) (perm_bits (hd_mode (header (us @ [c]) d))) of
              (Inl err, fs) \<Rightarrow> (Inl err, fs)
            | (Inr f, fs) \<Rightarrow>
                (case rd_end data of EOF \<Rightarrow> Inr () | ReadError err \<Rightarrow> Inl err, write_at f (rd_bytes data) fs))
       | TypeSymlink \<Rightarrow> Symlink (hd_linkname (header (us @ [c]) d)) (Remove fs ([], (os @ us) @ [c])) ([], (os @ us) @ [c])
       | TypeOther \<Rightarrow> (Inr (), fs))" for data
    unfolding extractEntry_def prod.case safe sum.case Let_def pt pd up ..
  show ?thesis
    unfolding ext unfolding append_assoc using assms(1)
    by (cases d rule: readable.cases)
      (auto simp: header_def mk op sl new_perm_def write_at_def look_Cons)
qed

subsection \<open>Extracting a tree\<close>

abbreviation whole :: "(Header \<times> bytes) list \<Rightarrow> tar_entry list" where
  "whole \<equiv> map (\<lambda>(h, data). (h, \<lparr>rd_bytes = data, rd_end = EOF\<rparr>))"

abbreviation children :: "file_tree \<Rightarrow> (string \<times> file_tree) list" where
  "children d \<equiv> (case d of Folder _ (Inr ds) \<Rightarrow> ds | _ \<Rightarrow> [])"

lemma readable_children:
  "readable d \<Longrightarrow> distinct (map fst (children d)) \<and> (\<forall>(n, d) \<in> set (children d). plain_comp n \<and> readable d)"
  by (cases d rule: readable.cases) (auto simp: list_all_iff)

lemma entries_of_readable:
  "readable d \<Longrightarrow> entries_of m rel d =
     (if excluded m rel d then [] else (header rel d, data_of d) # entries_in m rel (children d))"
  by (cases d rule: readable.cases) (simp_all add: entries_of.simps)

lemma restored_readable:
  "readable d \<Longrightarrow> restored m u rel d =
     (if excluded m rel d then []
      else (case inode_of u d of None \<Rightarrow> [] | Some i \<Rightarrow> [(rel, i)]) @ restored_in m u rel (children d))"
  by (cases d rule: readable.cases) (simp_all add: restored.simps)

text \<open>Extraction of the entries \<open>es\<close> succeeds and adds \<open>F\<close> to what is on the disk.\<close>

definition adds :: "perm \<Rightarrow> string list \<Rightarrow> (Header \<times> bytes) list \<Rightarrow> (string list \<Rightarrow> inode option) \<Rightarrow> disk \<Rightarrow> disk \<Rightarrow> bool" where
  "adds u os es F fs fs' \<longleftrightarrow> look fs' = look fs ++ F \<and>
     (\<forall>rest fin. extract_loop u (abs_path os) (whole es @ rest) fin fs = extract_loop u (abs_path os) rest fin fs')"

lemma adds_Nil [simp]: "adds u os [] Map.empty fs fs"
  by (simp add: adds_def)

lemma adds_append: "adds u os as F fs fs1 \<Longrightarrow> adds u os bs G fs1 fs2 \<Longrightarrow> adds u os (as @ bs) (F ++ G) fs fs2"
  by (simp add: adds_def)

lemma real_dir_adds:
  assumes "real_dir fs ws" and "look fs' = look fs ++ F" and "\<forall>k \<le> length ws. F (take k ws) = None"
  shows "real_dir fs' ws"
  using assms unfolding real_dir_def by (simp add: map_add_def)

lemma extract_tree:
  "rel = us @ [c] \<Longrightarrow> readable d \<Longrightarrow> os \<noteq> [] \<Longrightarrow> plain_path (os @ rel) \<Longrightarrow> real_dir fs (os @ us) \<Longrightarrow>
    \<forall>s. look fs (os @ rel @ s) = None \<Longrightarrow>
    \<exists>fs'. adds u os (entries_of m rel d) (under os (restored m u rel d)) fs fs'"
  "\<forall>(n, d) \<in> set ds. plain_comp n \<and> readable d \<Longrightarrow> distinct (map fst ds) \<Longrightarrow> os \<noteq> [] \<Longrightarrow> plain_path (os @ rel) \<Longrightarrow>
    real_dir fs (os @ rel) \<Longrightarrow> \<forall>n \<in> fst ` set ds. \<forall>s. look fs (os @ rel @ n # s) = None \<Longrightarrow>
    \<exists>fs'. adds u os (entries_in m rel ds) (under os (restored_in m u rel ds)) fs fs'"
proof (induction m rel d and m rel ds arbitrary: us c fs and fs rule: entries_of_entries_in.induct)
  case (1 m rel d)
  show ?case
  proof (cases "excluded m rel d")
    case True
    then show ?thesis using "1.prems"(2) by (auto simp: entries_of_readable restored_readable intro: adds_Nil)
  next
    case False
    let ?F = "case inode_of u d of None \<Rightarrow> Map.empty | Some i \<Rightarrow> [os @ rel \<mapsto> i]"
    have none: "look fs (os @ us @ [c]) = None" using spec [OF "1.prems"(6), of "[]"] "1.prems"(1) by simp
    obtain fs1 where x: "extractEntry u (abs_path os) (header rel d, \<lparr>rd_bytes = data_of d, rd_end = EOF\<rparr>) fs = (Inr (), fs1)"
      and l: "look fs1 = (case inode_of u d of None \<Rightarrow> look fs | Some i \<Rightarrow> (look fs)(os @ us @ [c] \<mapsto> i))"
      using extractEntry_new [OF "1.prems"(2,3) _ "1.prems"(5) none, of u] "1.prems"(1,4) by auto
    have a1: "adds u os [(header rel d, data_of d)] ?F fs fs1"
      using x l "1.prems"(1) by (auto simp: adds_def split: option.split)
    have F: "under os (case inode_of u d of None \<Rightarrow> [] | Some i \<Rightarrow> [(rel, i)]) = ?F" by (simp split: option.split)
    have "\<exists>fs2. adds u os (entries_in m rel (children d)) (under os (restored_in m u rel (children d))) fs1 fs2"
    proof (cases "\<exists>md ds. d = Folder md (Inr ds)")
      case True
      then obtain md ds where d: "d = Folder md (Inr ds)" by blast
      have "real_dir fs1 (os @ us)"
        by (rule real_dir_adds [OF "1.prems"(5), of _ "[os @ rel \<mapsto> Directory (new_perm u md)]"])
          (use l d "1.prems"(1) in \<open>auto dest: arg_cong [of _ _ length]\<close>)
      moreover have "look fs1 (os @ rel) = Some (Directory (new_perm u md))" using l d "1.prems"(1) by simp
      ultimately have r: "real_dir fs1 (os @ rel)" using real_dir_snoc [of fs1 "os @ us" c] "1.prems"(1) by simp
      have n: "\<forall>n \<in> fst ` set ds. \<forall>s. look fs1 (os @ rel @ n # s) = None"
        using l d "1.prems"(1,6) by simp
      show ?thesis
        using "1.IH" [OF False d refl _ _ "1.prems"(3,4) r n] readable_children [OF "1.prems"(2)] d by simp
    next
      case False
      then have "children d = []" by (auto split: file_tree.split sum.split)
      then show ?thesis by (auto intro: adds_Nil)
    qed
    then obtain fs2 where a2: "adds u os (entries_in m rel (children d)) (under os (restored_in m u rel (children d))) fs1 fs2"
      by blast
    have disj: "?F ++ under os (restored_in m u rel (children d)) =
        under os (restored_in m u rel (children d)) ++ ?F"
      by (rule map_add_comm) (auto dest!: under_restored_in split: option.splits)
    show ?thesis
      using adds_append [OF a1 a2] False
      unfolding entries_of_readable [OF "1.prems"(2)] restored_readable [OF "1.prems"(2)]
      by (auto simp: F disj)
  qed
next
  case (2 m rel)
  show ?case by (auto intro: adds_Nil)
next
  case (3 m rel n d ds)
  have n: "plain_comp n" "readable d" "n \<notin> fst ` set ds" using "3.prems"(1,2) by auto
  have free: "\<forall>s. look fs (os @ (rel @ [n]) @ s) = None" using "3.prems"(6) by simp
  obtain fs1 where a1: "adds u os (entries_of m (rel @ [n]) d) (under os (restored m u (rel @ [n]) d)) fs fs1"
    using "3.IH"(1) [OF refl n(2) "3.prems"(3) _ "3.prems"(5) free] "3.prems"(4) n(1) by auto
  have l: "look fs1 = look fs ++ under os (restored m u (rel @ [n]) d)" using a1 by (simp add: adds_def)
  have r: "real_dir fs1 (os @ rel)"
  proof (rule real_dir_adds [OF "3.prems"(5) l], intro allI impI)
    fix k assume "k \<le> length (os @ rel)"
    then show "under os (restored m u (rel @ [n]) d) (take k (os @ rel)) = None"
      using under_restored [of os m u "rel @ [n]" d "take k (os @ rel)"]
      by (cases "under os (restored m u (rel @ [n]) d) (take k (os @ rel))")
        (auto dest: arg_cong [of _ _ length])
  qed
  have other: "\<forall>n' \<in> fst ` set ds. \<forall>s. look fs1 (os @ rel @ n' # s) = None"
  proof (intro ballI allI)
    fix n' s assume n': "n' \<in> fst ` set ds"
    then have "under os (restored m u (rel @ [n]) d) (os @ rel @ n' # s) = None"
      using under_restored [of os m u "rel @ [n]" d "os @ rel @ n' # s"] n(3)
      by (cases "under os (restored m u (rel @ [n]) d) (os @ rel @ n' # s)") auto
    moreover have "n' \<in> fst ` set ((n, d) # ds)" using n' by simp
    then have "look fs (os @ rel @ n' # s) = None" by (rule bspec [OF "3.prems"(6), THEN spec])
    ultimately show "look fs1 (os @ rel @ n' # s) = None" unfolding l map_add_def by (simp only: option.case)
  qed
  obtain fs2 where a2: "adds u os (entries_in m rel ds) (under os (restored_in m u rel ds)) fs1 fs2"
    using "3.IH"(2) [OF _ _ "3.prems"(3,4) r other] "3.prems"(1,2) by auto
  have disj: "under os (restored m u (rel @ [n]) d) ++ under os (restored_in m u rel ds) =
      under os (restored_in m u rel ds) ++ under os (restored m u (rel @ [n]) d)"
    by (rule map_add_comm) (use n(3) in \<open>auto dest!: under_restored_in under_restored intro: rev_image_eqI\<close>)
  show ?case using adds_append [OF a1 a2] by (auto simp: disj)
qed

subsection \<open>Several roots\<close>

lemma Join_IsAbs:
  assumes "IsAbs wd" shows "\<exists>ws. plain_path ws \<and> Join [wd, p] = abs_path ws"
proof -
  have "wd \<noteq> []" "\<exists>x. wd = slash # x" using assms by (auto simp: IsAbs_def HasPrefix_iff)
  then have "IsAbs (join_slash (filter (\<lambda>e. e \<noteq> []) [wd, p]))" by (auto simp: IsAbs_def)
  with \<open>wd \<noteq> []\<close> show ?thesis using Clean_IsAbs by (auto simp: Join_def Let_def)
qed

lemma Abs_shape:
  assumes "IsAbs wd" and "Abs (Inr wd) p = Inr a" shows "\<exists>ws. plain_path ws \<and> a = abs_path ws"
  using assms Clean_IsAbs [of p] Join_IsAbs [of wd p] by (auto simp: Abs_def split: if_splits)

lemma tarRoots_loop_shape:
  assumes "IsAbs wd" and "ho_cwd ho = Inr wd" and "tarRoots_loop ho used raws = Inr roots" and "r \<in> set roots"
  shows "\<exists>ws. plain_path ws \<and> tr_source r = abs_path ws \<and> tr_parent r = Dir (tr_source r)"
  using assms(3,4)
proof (induction raws arbitrary: used roots)
  case (Cons raw raws)
  obtain a where a: "Abs (Inr wd) (Clean raw) = Inr a"
    using Cons.prems(1) assms(2) by (auto simp: Let_def split: sum.splits)
  obtain used' rs pre where t: "tarRoots_loop ho used' raws = Inr rs"
    and r: "roots = \<lparr>tr_source = a, tr_parent = Dir a, tr_prefix = pre\<rparr> # rs"
  proof -
    have "\<exists>used' rs pre. tarRoots_loop ho used' raws = Inr rs \<and> roots = \<lparr>tr_source = a, tr_parent = Dir a, tr_prefix = pre\<rparr> # rs"
    proof (cases "ho_tree ho (Clean raw)")
      case (Inr d)
      let ?b = "if Base a = ''.'' \<or> Base a = ''/'' then ''root'' else Base a"
      let ?used = "used(?b := used ?b + 1)"
      have "map_sum id ((#) \<lparr>tr_source = a, tr_parent = Dir a,
          tr_prefix = (if ?used ?b > 1 then ?b @ ''-'' @ Itoa (int (?used ?b)) else ?b)\<rparr>)
            (tarRoots_loop ho ?used raws) = Inr roots"
        using Cons.prems(1) unfolding tarRoots_loop.simps Let_def assms(2) a Inr sum.case .
      then show ?thesis by (cases "tarRoots_loop ho ?used raws") (simp_all, blast)
    qed (use Cons.prems(1) in simp)
    with that show thesis by blast
  qed
  show ?case
  proof (cases "r \<in> set rs")
    case True
    then show ?thesis by (rule Cons.IH [OF t])
  next
    case False
    then show ?thesis using Cons.prems(2) r Abs_shape [OF assms(1) a] by auto
  qed
qed simp

lemma tarRoots_shape:
  assumes "IsAbs wd" and "ho_cwd ho = Inr wd" and "tarRoots ho paths = Inr roots" and "r \<in> set roots"
  shows "\<exists>ws. plain_path ws \<and> tr_source r = abs_path ws \<and> tr_parent r = Dir (tr_source r)"
proof -
  obtain rs where "tarRoots_loop ho (\<lambda>_. 0) paths = Inr rs" "roots = sort_by (\<lambda>a b. tr_source a < tr_source b) rs"
    using assms(3) by (cases "tarRoots_loop ho (\<lambda>_. 0) paths") (auto simp: tarRoots_def)
  then show ?thesis using assms(4) tarRoots_loop_shape [OF assms(1,2)] by auto
qed

text \<open>The roots as the children of the output directory: the last name of each, and its tree.\<close>

definition root_trees :: "Host \<Rightarrow> tarRoot list \<Rightarrow> (string \<times> file_tree) list" where
  "root_trees ho roots =
     map (\<lambda>r. (Base (tr_source r), case ho_tree ho (tr_source r) of Inl err \<Rightarrow> Gone False err | Inr d \<Rightarrow> d)) roots"

lemma addRoots_readable:
  assumes "\<forall>r \<in> set roots. \<exists>ps b d. plain_path (ps @ [b]) \<and> tr_source r = abs_path (ps @ [b]) \<and>
      tr_parent r = abs_path ps \<and> ho_tree ho (tr_source r) = Inr d \<and> readable d"
    and "tw_missing tw = 0"
  shows "addRoots ho roots m tw = (Inr (), wrote tw (entries_in m [] (root_trees ho roots)))"
  using assms
proof (induction roots arbitrary: tw)
  case (Cons r rs)
  obtain ps b d where r: "plain_path (ps @ [b])" "tr_source r = abs_path (ps @ [b])"
    "tr_parent r = abs_path ps" "ho_tree ho (tr_source r) = Inr d" "readable d"
    using Cons.prems(1) by auto
  have b: "Base (abs_path (ps @ [b])) = b" using Base_abs [of b ps] r(1) by simp
  have "addRootToTar ho r m tw = (Inr (), wrote tw (entries_of m [b] d))"
    using walk_readable(1) [OF r(3,5) Cons.prems(2) r(1)] r(2,4) by (simp add: addRootToTar_def)
  moreover have "addRoots ho rs m (wrote tw (entries_of m [b] d)) =
      (Inr (), wrote (wrote tw (entries_of m [b] d)) (entries_in m [] (root_trees ho rs)))"
    using Cons by simp
  ultimately show ?case using r(2,4) b by (simp add: root_trees_def)
qed (simp add: root_trees_def)

text \<open>
  C28: what a job archived comes back. Take a job whose patterns compile and whose paths lead to
  readable trees with different last names, none of them the root of the host. Then the archive is
  written without an error, and extracting it into an existing empty directory that no link leads to
  succeeds and leaves on the disk exactly what was there before together with, below that directory
  and under the name of its root, every file, directory and link that no pattern excludes, with its
  content, its target, and its permissions less the umask.
\<close>

theorem job_roundtrip:
  assumes "newExcludeMatcher excludes = Inr m"
    and "ho_cwd ho = Inr wd" and "IsAbs wd" and "tarRoots ho paths = Inr roots"
    and "\<forall>r \<in> set roots. tr_source r \<noteq> ''/'' \<and> (\<exists>d. ho_tree ho (tr_source r) = Inr d \<and> readable d)"
    and "distinct (map (\<lambda>r. Base (tr_source r)) roots)"
    and "real_dir fs os" and "plain_path os" and "os \<noteq> []" and "\<forall>s. s \<noteq> [] \<longrightarrow> look fs (os @ s) = None"
  shows "\<exists>s fs'. writeTarJob ho paths excludes = (Inr (), s) \<and>
    extractTar umask cwd s (abs_path os) fs = (Inr (), fs') \<and>
    look fs' = look fs ++ under os (restored_in m umask [] (root_trees ho roots))"
proof -
  have shape: "\<exists>ps b d. plain_path (ps @ [b]) \<and> tr_source r = abs_path (ps @ [b]) \<and>
      tr_parent r = abs_path ps \<and> ho_tree ho (tr_source r) = Inr d \<and> readable d" if r: "r \<in> set roots" for r
  proof -
    obtain ws where ws: "plain_path ws" "tr_source r = abs_path ws" "tr_parent r = Dir (tr_source r)"
      using tarRoots_shape [OF assms(3,2,4) r] by blast
    have "ws \<noteq> []" using bspec [OF assms(5) r] ws(2) by (auto simp: render_def)
    then obtain ps b where "ws = ps @ [b]" by (cases ws rule: rev_cases) auto
    then show ?thesis using ws Dir_abs [of ps b] bspec [OF assms(5) r] by auto
  qed
  let ?es = "entries_in m [] (root_trees ho roots)"
  let ?s = "\<lparr>ts_entries = whole ?es, ts_end = EOF\<rparr>"
  have "addRoots ho roots m NewWriter = (Inr (), wrote NewWriter ?es)"
    using shape by (intro addRoots_readable) (auto simp: NewWriter_def)
  then have w: "writeTarJob ho paths excludes = (Inr (), ?s)"
    using assms(1,4) by (simp add: writeTarJob_def CloseWriter_def Flush_def wrote_def NewWriter_def)
  have trees: "\<forall>(n, d) \<in> set (root_trees ho roots). plain_comp n \<and> readable d"
    using shape by (fastforce simp: root_trees_def Base_abs)
  have "\<exists>fs'. adds umask os ?es (under os (restored_in m umask [] (root_trees ho roots))) fs fs'"
    using extract_tree(2) [OF trees _ assms(9), of "[]" fs umask m] assms(6,7,8,10)
    by (simp add: root_trees_def comp_def)
  then obtain fs' where a: "adds umask os ?es (under os (restored_in m umask [] (root_trees ho roots))) fs fs'" ..
  have "extract_loop umask (abs_path os) (whole ?es) EOF fs = (Inr (), fs')"
    using a by (auto simp: adds_def dest: spec [of _ "[]"])
  moreover have "MkdirAll umask fs (place_of cwd (abs_path os)) 0x1ED = (Inr (), fs)"
    using MkdirAll_real [OF assms(7,8)] assms(8) by (simp add: place_of_def parts_abs)
  ultimately have "extractTar umask cwd ?s (abs_path os) fs = (Inr (), fs')"
    using assms(8) by (simp add: extractTar_def)
  with w a show ?thesis by (auto simp: adds_def)
qed

subsection \<open>Examples\<close>

definition demo_host :: Host where
  "demo_host = \<lparr>ho_cwd = Inr ''/'', ho_tree = (\<lambda>p. if p = ''/d'' then
     Inr (Folder 0x1ED (Inr
       [(''a'', File 0x1A4 1 (Inr \<lparr>rd_bytes = [7], rd_end = EOF\<rparr>)),
        (''b.o'', File 0x1A4 1 (Inr \<lparr>rd_bytes = [8], rd_end = EOF\<rparr>)),
        (''l'', SymLink 0x1FF (Inr ''a''))]))
     else Inl ''no such file or directory'')\<rparr>"

definition demo_disk :: disk where
  "demo_disk = [([''out''], Directory 0x1ED)]"

definition demo_matcher :: "excludePattern list" where
  "demo_matcher = (case newExcludeMatcher [''**/*.o''] of Inr m \<Rightarrow> m | Inl _ \<Rightarrow> [])"

lemma demo_matcher: "newExcludeMatcher [''**/*.o''] = Inr demo_matcher"
  and demo_patterns: "exclude_patterns [''**/*.o''] = [''**/*.o'']"
proof -
  have t: "TrimSpace ''**/*.o'' = ''**/*.o''" by (simp add: TrimSpace_visible visible_def)
  show p: "exclude_patterns [''**/*.o''] = [''**/*.o'']" by (simp add: exclude_patterns_def t trim_slashes_def)
  have "ValidString ''**/*.o''" by (simp add: ValidString_def)
  then show "newExcludeMatcher [''**/*.o''] = Inr demo_matcher"
    by (simp add: demo_matcher_def newExcludeMatcher_eq p)
qed

definition demo_root :: tarRoot where
  "demo_root = \<lparr>tr_source = ''/d'', tr_parent = ''/'', tr_prefix = ''d''\<rparr>"

lemma demo_roots: "tarRoots demo_host [''/d''] = Inr [demo_root]"
  by code_simp

lemma demo_excluded: "exclude_match demo_matcher ''d/b.o'' False" "\<not> exclude_match demo_matcher ''d'' True"
  "\<not> exclude_match demo_matcher ''d/a'' False" "\<not> exclude_match demo_matcher ''d/l'' False"
proof -
  have m: "demo_matcher = [\<lparr>ep_raw = ''**/*.o'', ep_re = Sequence (items (runes ''**/*.o''))\<rparr>]"
    using demo_matcher by (simp add: newExcludeMatcher_eq demo_patterns split: if_splits)
  note ev = m exclude_match_def MatchString_def trim_slashes_def runes_def rests_Repeat_Class_Cons
  show "exclude_match demo_matcher ''d/b.o'' False" "\<not> exclude_match demo_matcher ''d'' True"
    "\<not> exclude_match demo_matcher ''d/a'' False" "\<not> exclude_match demo_matcher ''d/l'' False"
    by (simp_all add: ev)
qed

lemma demo_restored:
  "restored_in demo_matcher 0x12 [] (root_trees demo_host [demo_root]) =
     [([''d''], Directory 0x1ED), ([''d'', ''a''], Regular 0x1A4 [7]), ([''d'', ''l''], Link ''a'')]"
proof -
  have "root_trees demo_host [demo_root] = [(''d'', case ho_tree demo_host ''/d'' of Inr d \<Rightarrow> d | Inl e \<Rightarrow> Gone False e)]"
    by (simp add: root_trees_def demo_root_def Base_def)
  then show ?thesis
    by (simp add: demo_host_def restored.simps demo_excluded new_perm_def perm_bits_def)
qed

lemma demo_place:
  "ho_cwd demo_host = Inr ''/''" "IsAbs ''/''"
  "\<forall>r \<in> set [demo_root]. tr_source r \<noteq> ''/'' \<and> (\<exists>d. ho_tree demo_host (tr_source r) = Inr d \<and> readable d)"
  "real_dir demo_disk [''out'']" "\<forall>s. s \<noteq> [] \<longrightarrow> look demo_disk ([''out''] @ s) = None"
proof -
  show "real_dir demo_disk [''out'']"
    using real_dir_snoc [of demo_disk "[]" "''out''"] by (simp add: look_def demo_disk_def)
qed (simp_all add: demo_host_def IsAbs_def demo_root_def plain_comp_def look_def demo_disk_def)

lemma demo_archive: "\<exists>ar. writeTarJob demo_host [''/d''] [''**/*.o''] = (Inr (), ar)"
proof -
  have "\<forall>r \<in> set [demo_root]. \<exists>ps b d. plain_path (ps @ [b]) \<and> tr_source r = abs_path (ps @ [b]) \<and>
      tr_parent r = abs_path ps \<and> ho_tree demo_host (tr_source r) = Inr d \<and> readable d"
    using demo_place(3) by (auto simp: demo_root_def plain_comp_def render_def intro!: exI [of _ "[]"] exI [of _ "''d''"])
  from addRoots_readable [OF this, of NewWriter demo_matcher]
  have "addRoots demo_host [demo_root] demo_matcher NewWriter =
      (Inr (), wrote NewWriter (entries_in demo_matcher [] (root_trees demo_host [demo_root])))"
    by (simp add: NewWriter_def del: addRoots.simps)
  then show ?thesis unfolding writeTarJob_def demo_matcher demo_roots sum.case by simp
qed

theorem job_roundtrip_witness:
  "\<exists>s fs'. writeTarJob demo_host [''/d''] [''**/*.o''] = (Inr (), s) \<and>
     extractTar 0x12 ''/'' s ''/out'' demo_disk = (Inr (), fs') \<and>
     look fs' [''out'', ''d'', ''a''] = Some (Regular 0x1A4 [7]) \<and>
     look fs' [''out'', ''d'', ''l''] = Some (Link ''a'') \<and> look fs' [''out'', ''d'', ''b.o''] = None"
proof -
  have o: "plain_path [''out'']" "abs_path [''out''] = ''/out''" by (simp_all add: plain_comp_def render_def)
  obtain s fs' where run: "writeTarJob demo_host [''/d''] [''**/*.o''] = (Inr (), s)"
      "extractTar 0x12 ''/'' s ''/out'' demo_disk = (Inr (), fs')"
    and l: "look fs' = look demo_disk ++ under [''out''] (restored_in demo_matcher 0x12 [] (root_trees demo_host [demo_root]))"
    using job_roundtrip [OF demo_matcher demo_place(1,2) demo_roots demo_place(3) _ demo_place(4) o(1) _ demo_place(5), of "0x12" "''/''"] o(2) by auto
  show ?thesis
    using run by (intro exI [of _ s] exI [of _ fs']) (simp add: l demo_restored look_def demo_disk_def)
qed

definition shrinking_host :: Host where
  "shrinking_host = \<lparr>ho_cwd = Inr ''/'', ho_tree = (\<lambda>p. if p = ''/f'' then
     Inr (File 0x1A4 2 (Inr \<lparr>rd_bytes = [7], rd_end = EOF\<rparr>)) else Inl ''no such file or directory'')\<rparr>"

lemma shrinking_archive:
  "writeTarJob shrinking_host [''/f''] [] = (Inr (),
     \<lparr>ts_entries = [(\<lparr>hd_name = ''f'', hd_type = TypeReg, hd_mode = 0x1A4, hd_linkname = [], hd_size = 2\<rparr>,
        \<lparr>rd_bytes = [7], rd_end = ReadError ''unexpected EOF''\<rparr>)],
      ts_end = ReadError ''unexpected EOF''\<rparr>)"
proof -
  have r: "tarRoots shrinking_host [''/f''] = Inr [\<lparr>tr_source = ''/f'', tr_parent = ''/'', tr_prefix = ''f''\<rparr>]"
    "Rel ''/'' ''/f'' = ''f''" by code_simp+
  have h: "ho_tree shrinking_host ''/f'' = Inr (File 0x1A4 2 (Inr \<lparr>rd_bytes = [7], rd_end = EOF\<rparr>))"
    by (simp add: shrinking_host_def)
  have x: "\<not> exclude_match [] p d" for p d by (simp add: exclude_match_def)
  show ?thesis
    by (simp add: writeTarJob_def r addRootToTar_def h walkDir.simps visitEntry_def x addEntry_def
        WriteHeader_def CopyTo_def Flush_def NewWriter_def CloseWriter_def Let_def)
qed

text \<open>
  A file that shrinks while it is archived is lost in silence. When the last file of the job yields
  fewer bytes than its size promised, \<open>writeTarJob\<close> reports success all the same, because the error of
  \<^verbatim>\<open>Close\<close> is dropped, and what it sent cannot be extracted to its end.
\<close>

theorem short_file_unreported:
  "fst (writeTarJob shrinking_host [''/f''] []) = Inr () \<and>
   fst (extractTar 0x12 ''/'' (snd (writeTarJob shrinking_host [''/f''] [])) ''/out'' demo_disk) = Inl ''unexpected EOF''"
  unfolding shrinking_archive by code_simp

end
