(* ===== verification/Client.thy ===== *)
theory Client
  imports ClientConfig JobRoundtrip System
begin

text \<open>
  The commands of \<^verbatim>\<open>backupctl\<close> against a server (\<^verbatim>\<open>uploadToServer\<close>, \<^verbatim>\<open>backup\<close>,
  \<^verbatim>\<open>backupConfiguredJob\<close>, \<^verbatim>\<open>restore\<close>, \<^verbatim>\<open>restoreConfiguredJob\<close> in
  \<^verbatim>\<open>cmd/backupctl/main.go\<close>), and what they achieve together with it.
\<close>

text \<open>
  The libraries the client sits on: what \<^verbatim>\<open>url.Parse\<close>, \<^verbatim>\<open>mime/multipart\<close>, \<^verbatim>\<open>encoding/json\<close>
  and the byte format of \<^verbatim>\<open>archive/tar\<close> make of their arguments, and the case folding of
  \<^verbatim>\<open>strings\<close>. \<open>li_encode\<close> is the body of a response that is not a download.
\<close>

record libs =
  li_parseURL :: "string \<Rightarrow> URL result"
  li_wire :: multipart
  li_decode :: "server_reply \<Rightarrow> FileManifest result"
  li_encode :: "server_reply \<Rightarrow> bytes"
  li_tarBytes :: "tar_stream \<Rightarrow> bytes"
  li_tarRead :: "reader \<Rightarrow> tar_stream"
  li_fold :: "string \<Rightarrow> string"

text \<open>\<^verbatim>\<open>http.Client.Do\<close> over some transport: an error, or the response of the other side.\<close>

type_synonym exchange = "server_body Request \<Rightarrow> World \<Rightarrow> server_reply Response result \<times> World"

subsection \<open>Upload\<close>

definition uploadToServer ::
  "libs \<Rightarrow> exchange \<Rightarrow> string \<Rightarrow> string \<Rightarrow> reader \<Rightarrow> uploadParams \<Rightarrow> World \<Rightarrow> FileManifest result \<times> World" where
  "uploadToServer li send serverURL fileName r p w =
     (case li_parseURL li (serverURL @ ''/backups'') of
        Inl err \<Rightarrow> (Inl err, w)
      | Inr endpoint \<Rightarrow>
          (case send (uploadPost (li_wire li) endpoint fileName r p) w of
             (Inl err, w) \<Rightarrow> (Inl err, w)
           | (Inr resp, w) \<Rightarrow>
               if rs_status resp \<ge> 300 then (Inl ''server refused'', w)
               else (li_decode li (rs_body resp), w)))"

text \<open>\<^verbatim>\<open>configureHTTPClient\<close> wraps the transport, so that every request carries the token.\<close>

definition withToken :: "exchange \<Rightarrow> string \<Rightarrow> exchange" where
  "withToken send token r = send (RoundTrip token r)"

text \<open>
  \<^verbatim>\<open>backup\<close>: \<open>net\<close> is the network behind a transport, \<open>openFile\<close> opens and reads the file. The reader
  that counts for the progress line passes its bytes through.
\<close>

definition backup ::
  "libs \<Rightarrow> (ClientTls \<Rightarrow> 'cert transport result) \<Rightarrow> string \<Rightarrow> ('cert transport \<Rightarrow> exchange) \<Rightarrow> (string \<Rightarrow> reader result) \<Rightarrow>
   tlsFlags \<Rightarrow> backupFlags \<Rightarrow> World \<Rightarrow> FileManifest result \<times> World" where
  "backup li tls env net openFile tf f w =
     (case configureHTTPClient tls env \<lparr>ct_caCertFile = tf_caCertFile tf, ct_insecure = tf_insecure tf\<rparr> (tf_authToken tf) of
        Inl err \<Rightarrow> (Inl err, w)
      | Inr (client, token) \<Rightarrow>
          (case backupChecks f of
             Inl err \<Rightarrow> (Inl err, w)
           | Inr _ \<Rightarrow>
               (case openFile (bf_filePath f) of
                  Inl err \<Rightarrow> (Inl err, w)
                | Inr r \<Rightarrow>
                    uploadToServer li (withToken (net client) token) (bf_server f) (bf_filePath f) r (bf_params f) w)))"

text \<open>
  \<^verbatim>\<open>backupConfiguredJob\<close>: the pipe carries the bytes of the archive and ends the way
  \<^verbatim>\<open>writeTarJob\<close> returned.
\<close>

definition archiveReader :: "libs \<Rightarrow> Host \<Rightarrow> backupJob \<Rightarrow> reader" where
  "archiveReader li ho job =
     (case writeTarJob ho (bj_paths job) (bj_exclude job) of
        (r, s) \<Rightarrow> \<lparr>rd_bytes = li_tarBytes li s, rd_end = (case r of Inr _ \<Rightarrow> EOF | Inl err \<Rightarrow> ReadError err)\<rparr>)"

definition backupConfiguredJob ::
  "libs \<Rightarrow> (ClientTls \<Rightarrow> 'cert transport result) \<Rightarrow> string \<Rightarrow> ('cert transport \<Rightarrow> exchange) \<Rightarrow> Host \<Rightarrow>
   clientConfig result \<Rightarrow> string \<Rightarrow> tlsFlags \<Rightarrow> World \<Rightarrow> FileManifest result \<times> World" where
  "backupConfiguredJob li tls env net ho config jobName tf w =
     (case configuredJob (li_fold li) tls env config jobName tf of
        Inl err \<Rightarrow> (Inl err, w)
      | Inr (serverURL, client, token, job) \<Rightarrow>
          uploadToServer li (withToken (net client) token) serverURL (bj_name job @ ''.tar'')
            (archiveReader li ho job) (jobParams job) w)"

subsection \<open>Download\<close>

text \<open>The body of a response: shorter than its declared length it ends in an error.\<close>

definition responseBody :: "libs \<Rightarrow> server_reply \<Rightarrow> reader" where
  "responseBody li b =
     (case b of
        RDownload _ wr \<Rightarrow>
          \<lparr>rd_bytes = wr_body wr,
           rd_end = (if wr_declared wr \<noteq> -1 \<and> int (length (wr_body wr)) < wr_declared wr
                     then ReadError ''unexpected EOF'' else EOF)\<rparr>
      | _ \<Rightarrow> \<lparr>rd_bytes = li_encode li b, rd_end = EOF\<rparr>)"

definition getDownload :: "libs \<Rightarrow> exchange \<Rightarrow> string \<Rightarrow> string \<Rightarrow> World \<Rightarrow> reader result \<times> World" where
  "getDownload li send serverURL fileID w =
     (case li_parseURL li (serverURL @ ''/files/'' @ fileID @ ''/download'') of
        Inl err \<Rightarrow> (Inl err, w)
      | Inr u \<Rightarrow>
          (case send \<lparr>rq_method = ''GET'', rq_path = url_path u, rq_query = url_query u, rq_authorization = [],
                 rq_body = \<lparr>sb_register = Inl ''EOF'', sb_plan = Inl ''EOF'', sb_confirm = Inl ''EOF'',
                   sb_create = Inl ''EOF'', sb_replication = Inl ''EOF'', sb_parts = (\<lambda>_. Inl ''no body'')\<rparr>\<rparr> w of
             (Inl err, w) \<Rightarrow> (Inl err, w)
           | (Inr resp, w) \<Rightarrow>
               if rs_status resp \<ge> 300 then (Inl ''server refused'', w)
               else (Inr (responseBody li (rs_body resp)), w)))"

text \<open>
  \<^verbatim>\<open>restore\<close>: the result of the command and, once the file is created, its content. \<open>created\<close> is the
  outcome of \<^verbatim>\<open>os.Create\<close>, which comes before the request.
\<close>

record restoreFlags =
  rf_server :: string
  rf_fileID :: string
  rf_outPath :: string

definition restore ::
  "libs \<Rightarrow> (ClientTls \<Rightarrow> 'cert transport result) \<Rightarrow> string \<Rightarrow> ('cert transport \<Rightarrow> exchange) \<Rightarrow> (string \<Rightarrow> unit result) \<Rightarrow>
   tlsFlags \<Rightarrow> restoreFlags \<Rightarrow> World \<Rightarrow> (int result \<times> bytes option) \<times> World" where
  "restore li tls env net create tf f w =
     (case configureHTTPClient tls env \<lparr>ct_caCertFile = tf_caCertFile tf, ct_insecure = tf_insecure tf\<rparr> (tf_authToken tf) of
        Inl err \<Rightarrow> ((Inl err, None), w)
      | Inr (client, token) \<Rightarrow>
          if rf_fileID f = [] \<or> rf_outPath f = [] then ((Inl ''-id and -out are required'', None), w)
          else case create (rf_outPath f) of
              Inl err \<Rightarrow> ((Inl err, None), w)
            | Inr _ \<Rightarrow>
                (case getDownload li (withToken (net client) token) (rf_server f) (rf_fileID f) w of
                   (Inl err, w) \<Rightarrow> ((Inl err, Some []), w)
                 | (Inr body, w) \<Rightarrow>
                     ((case rd_end body of EOF \<Rightarrow> Inr (int (length (rd_bytes body))) | ReadError err \<Rightarrow> Inl err,
                       Some (rd_bytes body)), w)))"

definition restoreConfiguredJob ::
  "libs \<Rightarrow> (ClientTls \<Rightarrow> 'cert transport result) \<Rightarrow> string \<Rightarrow> ('cert transport \<Rightarrow> exchange) \<Rightarrow> perm \<Rightarrow> string \<Rightarrow>
   tlsFlags \<Rightarrow> restoreFlags \<Rightarrow> disk \<Rightarrow> World \<Rightarrow> (unit result \<times> disk) \<times> World" where
  "restoreConfiguredJob li tls env net umask cwd tf f fs w =
     (case configureHTTPClient tls env \<lparr>ct_caCertFile = tf_caCertFile tf, ct_insecure = tf_insecure tf\<rparr> (tf_authToken tf) of
        Inl err \<Rightarrow> ((Inl err, fs), w)
      | Inr (client, token) \<Rightarrow>
          if rf_fileID f = [] \<or> rf_outPath f = [] then ((Inl ''-id and -out are required'', fs), w)
          else
            (case getDownload li (withToken (net client) token) (rf_server f) (rf_fileID f) w of
               (Inl err, w) \<Rightarrow> ((Inl err, fs), w)
             | (Inr body, w) \<Rightarrow> (extractTar umask cwd (li_tarRead li body) (rf_outPath f) fs, w)))"

subsection \<open>The server's side of the wire\<close>

definition served :: "(string \<Rightarrow> string result) \<Rightarrow> Handler \<Rightarrow> env \<Rightarrow> string \<Rightarrow> string \<Rightarrow> exchange" where
  "served nrm h e date uuid r w =
     (case Routes nrm h e date uuid r w of
        (resp, w) \<Rightarrow> (if rs_status resp = 0 then Inl ''connection closed'' else Inr resp, w))"

lemma served_token:
  assumes "TrimSpace token = hd_token h"
  shows "withToken (served nrm h e date uuid) token r w =
    (case server_mux nrm h e date uuid (RoundTrip token r) w of
       (resp, w) \<Rightarrow> (if rs_status resp = 0 then Inl ''connection closed'' else Inr resp, w))"
  by (simp add: withToken_def served_def Routes_def Middleware_RoundTrip [OF assms])

subsection \<open>Jobs\<close>

lemma findJob_Some: "findJob foldCase jobs name = Some j \<Longrightarrow> j \<in> set jobs \<and> foldCase (bj_name j) = foldCase name"
  by (induction jobs) (auto split: if_splits)

lemma selectJob_Some:
  assumes "selectJob foldCase cfg name = Inr (Some j)"
  shows "j \<in> set (cl_jobs cfg) \<and> (name \<noteq> [] \<longrightarrow> foldCase (bj_name j) = foldCase name) \<and> (name = [] \<longrightarrow> cl_jobs cfg = [j])"
proof (cases "name = []")
  case True
  then have "length (cl_jobs cfg) = 1" "cl_jobs cfg ! 0 = j"
    using assms by (auto simp: selectJob_def split: if_splits)
  then have "cl_jobs cfg = [j]" by (cases "cl_jobs cfg") simp_all
  then show ?thesis using True by simp
next
  case False
  then have "findJob foldCase (cl_jobs cfg) name = Some j"
    using assms by (auto simp: selectJob_def split: if_splits)
  from findJob_Some [OF this] False show ?thesis by blast
qed

definition first_set :: "int list \<Rightarrow> int" where
  "first_set xs = (case filter (\<lambda>x. x \<noteq> 0) xs of [] \<Rightarrow> 0 | x # _ \<Rightarrow> x)"

lemma applyDefaults_sel:
  "bj_name (applyDefaults j cfg) = bj_name j" "bj_paths (applyDefaults j cfg) = bj_paths j"
  "bj_exclude (applyDefaults j cfg) = bj_exclude j"
  "bj_chunkSize (applyDefaults j cfg) = first_set [bj_chunkSize j, cl_chunkSize cfg, defaultChunkSize_ctl]"
  "bj_replication (applyDefaults j cfg) = first_set [bj_replication j, cl_replication cfg, 3]"
  "bj_retention (applyDefaults j cfg) = first_set [bj_retention j, cl_retention cfg]"
  by (simp_all add: applyDefaults_def Let_def first_set_def defaultChunkSize_ctl_def)

lemma validate_Inr: "validate j = Inr u \<longleftrightarrow> bj_name j \<noteq> [] \<and> bj_paths j \<noteq> [] \<and> 0 < bj_chunkSize j \<and>
    0 < bj_replication j \<and> 0 \<le> bj_retention j"
  by (auto simp: validate_def)

lemma configuredJob_Inr:
  assumes "configuredJob foldCase tls env (Inr cfg) name tf = Inr (url, client, token, job)"
  obtains j where "selectJob foldCase cfg name = Inr (Some j)" "job = applyDefaults j cfg" "validate job = Inr ()"
    "url = (if cl_server cfg = [] then ''http://localhost:8080'' else cl_server cfg)"
    "token = Resolve (if tf_authToken tf \<noteq> [] then tf_authToken tf else cl_authToken cfg) env" "token \<noteq> []"
  using assms
  by (auto simp: configuredJob_def configureHTTPClient_def Let_def split: sum.splits option.splits if_splits)

text \<open>
  C40: a job is never guessed and never started unchecked. When the \<^verbatim>\<open>backup-job\<close> command gets as far
  as the upload, the job is one of the configuration: the one whose name equals the flag under case
  folding, or the only one when no flag is given. Its name, paths and patterns are the configured ones,
  each number is the first non-zero one of the job, the configuration and the built-in default, the
  chunk size and the replication are positive, the retention is not negative, there is a path, and
  there is a token.
\<close>

theorem configured_job:
  assumes "configuredJob foldCase tls env (Inr cfg) name tf = Inr (url, client, token, job)"
  shows "\<exists>j \<in> set (cl_jobs cfg).
    (if name = [] then cl_jobs cfg = [j] else foldCase (bj_name j) = foldCase name) \<and>
    job = \<lparr>bj_name = bj_name j, bj_paths = bj_paths j, bj_exclude = bj_exclude j,
      bj_chunkSize = first_set [bj_chunkSize j, cl_chunkSize cfg, 524288],
      bj_replication = first_set [bj_replication j, cl_replication cfg, 3],
      bj_retention = first_set [bj_retention j, cl_retention cfg]\<rparr> \<and>
    bj_name job \<noteq> [] \<and> bj_paths job \<noteq> [] \<and> 0 < bj_chunkSize job \<and> 0 < bj_replication job \<and>
    0 \<le> bj_retention job \<and> token \<noteq> [] \<and> url \<noteq> []"
proof -
  obtain j where j: "selectJob foldCase cfg name = Inr (Some j)" "job = applyDefaults j cfg" "validate job = Inr ()"
    "url = (if cl_server cfg = [] then ''http://localhost:8080'' else cl_server cfg)" "token \<noteq> []"
    using configuredJob_Inr [OF assms] by metis
  have "job = \<lparr>bj_name = bj_name j, bj_paths = bj_paths j, bj_exclude = bj_exclude j,
      bj_chunkSize = first_set [bj_chunkSize j, cl_chunkSize cfg, 524288],
      bj_replication = first_set [bj_replication j, cl_replication cfg, 3],
      bj_retention = first_set [bj_retention j, cl_retention cfg]\<rparr>"
    using j(2) applyDefaults_sel [of j cfg] by (cases job) (simp add: defaultChunkSize_ctl_def)
  then show ?thesis
    using selectJob_Some [OF j(1)] j(3-5) unfolding validate_Inr by (intro bexI [of _ j]) auto
qed

subsection \<open>The request arrives as it was meant\<close>

lemma fst_RoundTrip [simp]: "rq_query (RoundTrip t r) = rq_query r" "rq_body (RoundTrip t r) = rq_body r"
  "rq_method (RoundTrip t r) = rq_method r" "rq_path (RoundTrip t r) = rq_path r"
  by (simp_all add: RoundTrip_def)

definition good_params :: "uploadParams \<Rightarrow> bool" where
  "good_params p \<longleftrightarrow> 0 < ul_chunkSize p \<and> ul_chunkSize p \<le> maxChunkSize \<and> int64 (ul_replication p) \<and>
     0 \<le> ul_retention p \<and> int64 (ul_retention p)"

text \<open>The limit \<open>beginUpload\<close> reads a body with.\<close>

abbreviation upload_limit :: "Handler \<Rightarrow> int" where
  "upload_limit h \<equiv> if hd_maxUploadBytes h > 0 then hd_maxUploadBytes h else 0"

lemma upload_begins:
  assumes "good_params p" and "url_query endpoint = []" and "fileName \<noteq> []"
    and "wire [formFile fileName r] EOF (upload_limit h) = Inr ([formFile fileName r], EOF)"
  shows "\<exists>up. beginUpload h (RoundTrip token (uploadPost wire endpoint fileName r p)) = Inr up \<and>
    up_filename up = Base fileName \<and>
    up_backupName up = (if TrimSpace (ul_backupName p) = [] then Base fileName else TrimSpace (ul_backupName p)) \<and>
    up_chunkSize up = ul_chunkSize p \<and> up_replication up = ul_replication p \<and> up_retention up = ul_retention p \<and>
    up_reader up = r"
proof -
  let ?q = "uploadQuery p []"
  have i: "int64 (ul_chunkSize p)" using assms(1) by (simp add: good_params_def int64_def maxChunkSize_def)
  have q: "queryInt ?q ''chunk_size'' d = ul_chunkSize p" "queryInt ?q ''replication'' d = ul_replication p"
    "queryInt ?q ''retention'' 0 = ul_retention p"
    "query_get ?q ''backup_name'' = ul_backupName p" for d
    using assms(1) i by (auto simp: queryInt_def query_get_def map_of_uploadQuery Let_def good_params_def)
  have req: "rq_query (uploadPost wire endpoint fileName r p) = ?q"
    "sb_parts (rq_body (uploadPost wire endpoint fileName r p)) = wire [formFile fileName r] EOF"
    by (simp_all add: uploadPost_def assms(2))
  have part: "pa_formName (formFile fileName r) = ''file''" "pa_fileName (formFile fileName r) = Base fileName"
    "pa_reader (formFile fileName r) = r"
    using assms(3) by (simp_all add: formFile_def)
  show ?thesis
    using assms(1) by (simp add: beginUpload_def req q assms(4) part Let_def good_params_def)
qed

text \<open>
  Client and server agree on the parameters. For parameters the client's checks and the server's
  maximum allow, a server URL without a query and a body that arrives whole, the server begins an upload
  with exactly the chunk size, replication, retention and content of the client, the file is named by the
  last element of the client's path, and the backup by the client's name without the white space around
  it, or by the file when nothing is left.
\<close>

theorem upload_parameters_roundtrip:
  assumes "good_params p" and "url_query endpoint = []" and "fileName \<noteq> []"
    and "wire [formFile fileName r] EOF (upload_limit h) = Inr ([formFile fileName r], EOF)"
  shows "\<exists>up. beginUpload h (RoundTrip token (uploadPost wire endpoint fileName r p)) = Inr up \<and>
    up_filename up = Base fileName \<and>
    up_backupName up = (if TrimSpace (ul_backupName p) = [] then Base fileName else TrimSpace (ul_backupName p)) \<and>
    up_chunkSize up = ul_chunkSize p \<and> up_replication up = ul_replication p \<and> up_retention up = ul_retention p \<and>
    up_reader up = r"
  using assms by (rule upload_begins)

subsection \<open>A backup and its download, through the server's routes\<close>

lemma Write_declared [simp]: "wr_declared (snd (Write d wr)) = wr_declared wr"
  by (simp add: Write_def Let_def)

lemma http_Error_declared: "wr_declared (http_Error msg st wr) \<in> {-1, wr_declared wr}"
  by (simp add: http_Error_def Let_def)

lemma sendChunks_declared: "wr_declared (fst (sendChunks e cs wr w)) \<in> {-1, wr_declared wr}"
proof (induction cs arbitrary: wr w)
  case (Cons c cs)
  obtain ns w1 where a: "ask e (\<lambda>eng now db. ChunkLocations eng now db (cr_hash c)) w = (ns, w1)" by fastforce
  obtain f w2 where f: "fetchFromAny e ns (cr_hash c) w1 = (f, w2)" by fastforce
  show ?case
  proof (cases f)
    case (Inr d)
    obtain ok wr1 where wr: "Write d wr = (ok, wr1)" by fastforce
    then have "wr_declared wr1 = wr_declared wr" using Write_declared [of d wr] by simp
    then show ?thesis using a f Inr wr Cons.IH [of wr1] http_Error_declared
      by (auto simp: Let_def)
  qed (use a f http_Error_declared in auto)
qed simp

lemma download_whole:
  assumes "quiet e" and "FileByID (\<lambda>_. True) (w_db w) fid = Some m"
    and "map cr_hash (fm_chunks m) = map hashData ds" and "fm_size m = int (length (concat ds))"
    and "\<forall>d \<in> set ds. available w d" and "rq_path r = ''/files/'' @ fid @ ''/download''"
  shows "\<exists>wr w'. downloadFile e r w = (respond StatusOK (RDownload (fm_name m) wr), w') \<and> wr_body wr = concat ds \<and>
    wr_declared wr \<le> int (length (concat ds))"
proof -
  obtain wr where wr: "fst (downloadFile e r w) = respond StatusOK (RDownload (fm_name m) wr)" "wr_body wr = concat ds"
    using downloadFile_available [OF assms] by blast
  have eng: "ev_eng e (w_tick w) = (\<lambda>_. True)" using assms(1) by (auto simp: quiet_def)
  let ?blank = "\<lparr>wr_status = 0, wr_declared = fm_size m, wr_body = []\<rparr>"
  obtain wr1 w1 where s: "sendChunks e (fm_chunks m) ?blank (tick w) = (wr1, w1)" by fastforce
  have "wr_declared wr1 \<in> {-1, fm_size m}"
    using sendChunks_declared [of e "fm_chunks m" ?blank "tick w"] s by simp
  moreover have "downloadFile e r w = (respond (wr_status (if wr_status wr1 = 0 then wr1\<lparr>wr_status := StatusOK\<rparr> else wr1))
      (RDownload (fm_name m) (if wr_status wr1 = 0 then wr1\<lparr>wr_status := StatusOK\<rparr> else wr1)), w1)"
    unfolding downloadFile_def assms(6) download_path Let_def ask_def eng assms(2) s
      option.case prod.case ..
  ultimately have "wr_declared wr \<in> {-1, fm_size m}" using wr(1) by (auto split: if_splits)
  then have "wr_declared wr \<le> int (length (concat ds))" using assms(4) by auto
  with wr show ?thesis by (intro exI [of _ wr] exI [of _ "snd (downloadFile e r w)"]) (metis prod.collapse)
qed

lemma saveManifest_id:
  assumes "saveManifest e date uuid req w = (respond StatusCreated (RManifest m), w')"
  shows "fm_id m = date @ ''-'' @ uuid"
proof -
  obtain r w1 where c: "tell e (\<lambda>eng now. CreateFile eng now date uuid req) w = (r, w1)" by fastforce
  with assms obtain m0 where r: "r = Inr m0" by (cases r) (auto simp: saveManifest_def)
  have "CreateFile (ev_eng e (w_tick w)) (ev_now e (w_tick w)) date uuid req (w_db w) = (Inr m0, w_db w1)"
    using c by (auto simp: tell_def r split: prod.splits)
  then have "fm_id m0 = date @ ''-'' @ uuid"
    by (cases rule: CreateFile_cases [of "ev_eng e (w_tick w)" "ev_now e (w_tick w)" date uuid req "w_db w"])
      (auto simp: scanFile_def)
  moreover have "fm_id m = fm_id m0"
    using assms c r by (auto simp: saveManifest_def split: prod.splits option.splits)
  ultimately show ?thesis by simp
qed

lemma fileManifest_download:
  assumes "rq_path r = ''/files/'' @ fid @ ''/download''"
  shows "fileManifest e r w = downloadFile e r w"
  by (simp only: fileManifest_def Let_def assms TrimPrefix_append HasSuffix_append if_True)

text \<open>
  A cluster that can take the content of \<open>r\<close>, in the sense of the round trip of the server, and libraries
  that read what the client writes.
\<close>

definition can_store :: "seconds \<Rightarrow> env \<Rightarrow> World \<Rightarrow> string \<Rightarrow> uploadParams \<Rightarrow> reader \<Rightarrow> bool" where
  "can_store s e w fid p r \<longleftrightarrow>
     in_time s e \<and> world_inv w \<and> backed w \<and> one_token w \<and> rd_end r = EOF \<and>
     room s (\<lambda>_. int (length (rd_bytes r))) w \<and> 1 \<le> ul_replication p \<and> ul_replication p \<le> table_size w \<and>
     fid \<notin> fr_id ` set (db_files (w_db w)) \<and>
     inj_on hashData (set (fst (chunk_all r (ul_chunkSize p)))) \<and>
     (\<forall>d \<in> set (fst (chunk_all r (ul_chunkSize p))). intact w d)"

definition understood :: "libs \<Rightarrow> Handler \<Rightarrow> string \<Rightarrow> string \<Rightarrow> string \<Rightarrow> reader \<Rightarrow> bool" where
  "understood li h url fid fileName r \<longleftrightarrow>
     li_parseURL li (url @ ''/backups'') = Inr \<lparr>url_path = ''/backups'', url_query = []\<rparr> \<and>
     li_parseURL li (url @ ''/files/'' @ fid @ ''/download'') =
       Inr \<lparr>url_path = ''/files/'' @ fid @ ''/download'', url_query = []\<rparr> \<and>
     li_wire li [formFile fileName r] EOF (upload_limit h) = Inr ([formFile fileName r], EOF) \<and>
     (\<forall>m. li_decode li (RManifest m) = Inr m)"

lemma upload_then_download:
  assumes store: "can_store s e w (date @ ''-'' @ uuid) p r"
    and lib: "understood li h url (date @ ''-'' @ uuid) fileName r"
    and "good_params p" and "fileName \<noteq> []" and "TrimSpace token = hd_token h"
  shows "\<exists>m w'. uploadToServer li (withToken (served nrm h e date uuid) token) url fileName r p w = (Inr m, w') \<and>
    fm_id m = date @ ''-'' @ uuid \<and>
    (\<forall>nrm' e' date' uuid'. quiet e' \<longrightarrow>
      (\<exists>w''. getDownload li (withToken (served nrm' h e' date' uuid') token) url (fm_id m) w' = (Inr r, w'')))"
proof -
  let ?fid = "date @ ''-'' @ uuid" and ?ds = "fst (chunk_all r (ul_chunkSize p))"
  let ?req = "RoundTrip token (uploadPost (li_wire li) \<lparr>url_path = ''/backups'', url_query = []\<rparr> fileName r p)"
  have st: "in_time s e" "world_inv w" "backed w" "one_token w" "rd_end r = EOF"
    "room s (\<lambda>_. int (length (rd_bytes r))) w" "1 \<le> ul_replication p" "ul_replication p \<le> table_size w"
    "?fid \<notin> fr_id ` set (db_files (w_db w))" "inj_on hashData (set ?ds)" "\<forall>d \<in> set ?ds. intact w d"
    using store unfolding can_store_def by blast+
  have li: "li_parseURL li (url @ ''/backups'') = Inr \<lparr>url_path = ''/backups'', url_query = []\<rparr>"
    "li_parseURL li (url @ ''/files/'' @ ?fid @ ''/download'') = Inr \<lparr>url_path = ''/files/'' @ ?fid @ ''/download'', url_query = []\<rparr>"
    "li_wire li [formFile fileName r] EOF (upload_limit h) = Inr ([formFile fileName r], EOF)"
    "li_decode li (RManifest m) = Inr m" for m
    using lib unfolding understood_def by blast+
  obtain up where up: "beginUpload h ?req = Inr up" "up_chunkSize up = ul_chunkSize p"
    "up_replication up = ul_replication p" "up_reader up = r"
    using upload_begins [of p "\<lparr>url_path = ''/backups'', url_query = []\<rparr>" fileName "li_wire li" r h token] assms(3,4) li(3)
    by auto
  obtain m ids w1 where b: "backupFile h e date uuid ?req w = (respond StatusCreated (RManifest (m\<lparr>fm_retentionDeleted := ids\<rparr>)), w1)"
    and m: "FileByID (\<lambda>_. True) (w_db w1) (fm_id m) = Some m" "map cr_hash (fm_chunks m) = map hashData ?ds"
      "fm_size m = int (length (concat ?ds))" "\<forall>d \<in> set ?ds. available w1 d" and c: "concat ?ds = rd_bytes r"
  proof -
    have "rd_end (up_reader up) = EOF" "room s (\<lambda>_. int (length (rd_bytes (up_reader up)))) w"
      "1 \<le> up_replication up" "up_replication up \<le> table_size w" "?ds = fst (chunk_all (up_reader up) (up_chunkSize up))"
      by (simp_all only: up st)
    from backup_available [OF st(1-4) up(1) this(1-4) st(9) this(5) st(10,11)] that show thesis
      unfolding up(4) by blast
  qed
  obtain up' w0 where loop: "uploadLoop e up w = (Uploaded up', w0)"
  proof -
    have "rd_end (up_reader up) = EOF" "room s (\<lambda>_. int (length (rd_bytes (up_reader up)))) w"
      "up_replication up \<le> table_size w" by (simp_all only: up st)
    from uploadLoop_quiet [OF st(1,2) this(2,1,3)] that show thesis by blast
  qed
  have "saveManifest e date uuid (uploadRequest up') w0 = (respond StatusCreated (RManifest (m\<lparr>fm_retentionDeleted := ids\<rparr>)), w1)"
    using b by (simp add: backupFile_def up(1) loop)
  then have fid: "fm_id m = ?fid" using saveManifest_id by fastforce
  have "uploadToServer li (withToken (served nrm h e date uuid) token) url fileName r p w =
      (Inr (m\<lparr>fm_retentionDeleted := ids\<rparr>), w1)"
    using b by (simp add: uploadToServer_def li(1,4) served_token [OF assms(5)] server_mux_def uploadPost_def Let_def)
  moreover have "\<exists>w''. getDownload li (withToken (served nrm' h e' date' uuid') token) url ?fid w1 = (Inr r, w'')"
    if q: "quiet e'" for nrm' e' date' uuid'
  proof -
    let ?get = "\<lparr>rq_method = ''GET'', rq_path = ''/files/'' @ ?fid @ ''/download'', rq_query = [], rq_authorization = [],
       rq_body = \<lparr>sb_register = Inl ''EOF'', sb_plan = Inl ''EOF'', sb_confirm = Inl ''EOF'',
         sb_create = Inl ''EOF'', sb_replication = Inl ''EOF'', sb_parts = (\<lambda>_. Inl ''no body'')\<rparr>\<rparr>"
    obtain wr w2 where d: "downloadFile e' (RoundTrip token ?get) w1 = (respond StatusOK (RDownload (fm_name m) wr), w2)"
      "wr_body wr = concat ?ds" "wr_declared wr \<le> int (length (concat ?ds))"
      using download_whole [OF q m, of "RoundTrip token ?get"] fid by auto
    have mux: "server_mux nrm' h e' date' uuid' (RoundTrip token ?get) w1 = downloadFile e' (RoundTrip token ?get) w1"
    proof -
      have "server_mux nrm' h e' date' uuid' (RoundTrip token ?get) w1 = fileManifest e' (RoundTrip token ?get) w1"
        by (simp add: server_mux_def Let_def)
      also have "\<dots> = downloadFile e' (RoundTrip token ?get) w1"
        by (rule fileManifest_download [of _ ?fid]) simp
      finally show ?thesis .
    qed
    have body: "responseBody li (RDownload (fm_name m) wr) = r"
      using d(2,3) c st(5) by (cases r) (simp add: responseBody_def)
    show ?thesis
      unfolding getDownload_def li(2) sum.case URL.simps served_token [OF assms(5)] mux d(1) prod.case
      by (simp add: body)
  qed
  ultimately show ?thesis using fid by (intro exI [of _ "m\<lparr>fm_retentionDeleted := ids\<rparr>"] exI [of _ w1]) auto
qed

subsection \<open>End to end\<close>

lemma configure_token:
  assumes "tls cfg = Inr client" and "Resolve tok env = hd_token h" and "hd_token h \<noteq> []"
  shows "configureHTTPClient tls env cfg tok = Inr (client, hd_token h)" and "TrimSpace (hd_token h) = hd_token h"
  using assms Resolve_trimmed [of tok env] by (simp_all add: configureHTTPClient_def Let_def)

text \<open>
  A file that was backed up can be restored. Take a client whose token is the server's, a readable
  file, parameters the server allows, and a cluster that can store the file while nothing fails. Then
  \<^verbatim>\<open>backup\<close> succeeds, and from then on \<^verbatim>\<open>restore\<close> with the identifier it was given writes
  exactly the bytes of the file and reports their number, as long as nothing fails during the download.
\<close>

theorem backup_restore_roundtrip:
  assumes "can_store s e w (date @ ''-'' @ uuid) (bf_params f) r"
    and "understood li h (bf_server f) (date @ ''-'' @ uuid) (bf_filePath f) r"
    and "good_params (bf_params f)" and "bf_filePath f \<noteq> []" and "openFile (bf_filePath f) = Inr r"
    and "tls \<lparr>ct_caCertFile = tf_caCertFile tf, ct_insecure = tf_insecure tf\<rparr> = Inr client"
    and "Resolve (tf_authToken tf) env = hd_token h" and "hd_token h \<noteq> []"
    and "out \<noteq> []" and "create out = Inr ()"
  shows "\<exists>m w'. backup li tls env (\<lambda>_. served nrm h e date uuid) openFile tf f w = (Inr m, w') \<and>
    (\<forall>nrm' e' date' uuid'. quiet e' \<longrightarrow>
      (\<exists>w''. restore li tls env (\<lambda>_. served nrm' h e' date' uuid') create tf
          \<lparr>rf_server = bf_server f, rf_fileID = fm_id m, rf_outPath = out\<rparr> w' =
        ((Inr (int (length (rd_bytes r))), Some (rd_bytes r)), w'')))"
proof -
  note tok = configure_token [of tls _ client "tf_authToken tf" env h, OF assms(6-8)]
  obtain m w' where up: "uploadToServer li (withToken (served nrm h e date uuid) (hd_token h)) (bf_server f)
      (bf_filePath f) r (bf_params f) w = (Inr m, w')" "fm_id m = date @ ''-'' @ uuid"
    and down: "\<And>nrm' e' date' uuid'. quiet e' \<Longrightarrow>
      \<exists>w''. getDownload li (withToken (served nrm' h e' date' uuid') (hd_token h)) (bf_server f) (fm_id m) w' = (Inr r, w'')"
    using upload_then_download [OF assms(1-4) tok(2)] by blast
  have "rd_end r = EOF" using assms(1) by (simp add: can_store_def)
  moreover have "fm_id m \<noteq> []" using up(2) by simp
  moreover have "backupChecks f = Inr ()" using assms(3,4) by (simp add: backupChecks_def good_params_def)
  moreover have "\<exists>w''. restore li tls env (\<lambda>_. served nrm' h e' date' uuid') create tf
          \<lparr>rf_server = bf_server f, rf_fileID = fm_id m, rf_outPath = out\<rparr> w' =
        ((Inr (int (length (rd_bytes r))), Some (rd_bytes r)), w'')" if q: "quiet e'" for nrm' e' date' uuid'
  proof -
    obtain w'' where "getDownload li (withToken (served nrm' h e' date' uuid') (hd_token h)) (bf_server f) (fm_id m) w' = (Inr r, w'')"
      using down [OF q, of nrm' date' uuid'] by blast
    then show ?thesis using calculation assms(9,10) by (intro exI [of _ w'']) (simp add: restore_def tok(1))
  qed
  ultimately show ?thesis
    using up(1) assms(5) by (intro exI [of _ m] exI [of _ w']) (simp add: backup_def tok(1))
qed


subsection \<open>Examples\<close>

definition demo_libs :: libs where
  "demo_libs = \<lparr>li_parseURL = (\<lambda>u. Inr \<lparr>url_path = drop 8 u, url_query = []\<rparr>), li_wire = (\<lambda>ps fin _. Inr (ps, fin)),
     li_decode = (\<lambda>b. case b of RManifest m \<Rightarrow> Inr m | _ \<Rightarrow> Inl ''unexpected''), li_encode = (\<lambda>_. []),
     li_tarBytes = (\<lambda>_. [7]), li_tarRead = (\<lambda>_. snd (writeTarJob demo_host [''/d''] [''**/*.o''])), li_fold = (\<lambda>s. s)\<rparr>"

definition demo_reader :: reader where
  "demo_reader = \<lparr>rd_bytes = [7], rd_end = EOF\<rparr>"

definition demo_params :: uploadParams where
  "demo_params = \<lparr>ul_backupName = ''docs'', ul_retention = 0, ul_chunkSize = 524288, ul_replication = 2\<rparr>"

abbreviation demo_tls :: "ClientTls \<Rightarrow> nat transport result" where
  "demo_tls \<equiv> HTTPClient (\<lambda>_. Inl ''no file'') (\<lambda>_. []) (Inl ''no pool'')"

abbreviation demo_flags :: tlsFlags where
  "demo_flags \<equiv> \<lparr>tf_caCertFile = [], tf_insecure = False, tf_authToken = ''t''\<rparr>"

definition demo_config :: clientConfig where
  "demo_config = \<lparr>cl_server = ''http://s'', cl_chunkSize = 0, cl_replication = 2, cl_retention = 0, cl_authToken = [],
     cl_caCertFile = [], cl_insecure = False,
     cl_jobs = [\<lparr>bj_name = ''docs'', bj_paths = [''/d''], bj_exclude = [''**/*.o''], bj_chunkSize = 0,
       bj_replication = 0, bj_retention = 0\<rparr>]\<rparr>"

definition demo_job :: backupJob where
  "demo_job = \<lparr>bj_name = ''docs'', bj_paths = [''/d''], bj_exclude = [''**/*.o''], bj_chunkSize = 524288,
     bj_replication = 2, bj_retention = 0\<rparr>"

lemma demo_resolve: "Resolve ''t'' [] = ''t''"
  by (simp add: Resolve_def TrimSpace_visible visible_def)

lemma demo_client: "demo_tls \<lparr>ct_caCertFile = [], ct_insecure = False\<rparr> = Inr DefaultTransport"
  by (simp add: HTTPClient_def)

lemma demo_configured:
  "configuredJob (\<lambda>s. s) demo_tls [] (Inr demo_config) [] demo_flags = Inr (''http://s'', DefaultTransport, ''t'', demo_job)"
  by (simp add: configuredJob_def demo_config_def selectJob_def applyDefaults_def validate_def Let_def
      configureHTTPClient_def demo_resolve demo_client demo_job_def defaultChunkSize_ctl_def)

lemma demo_good: "good_params demo_params" "jobParams demo_job = demo_params"
  by (simp_all add: good_params_def demo_params_def maxChunkSize_def int64_def jobParams_def demo_job_def)

lemma demo_store_ok: "can_store 1000 demo_env demo_cluster fid demo_params demo_reader"
  unfolding can_store_def
  using demo_facts demo_time demo_new [of fid]
  by (simp add: demo_reader_def demo_params_def chunk_all.simps demo_reads)

lemma demo_understood: "understood demo_libs demo_handler ''http://s'' fid fn demo_reader"
  by (simp add: understood_def demo_libs_def)

theorem configured_job_witness:
  "first_set [0, 0, 524288] = (524288 :: int) \<and> bj_name demo_job = ''docs'' \<and> 0 < bj_chunkSize demo_job"
  using configured_job [OF demo_configured] by (auto simp: first_set_def demo_config_def demo_job_def)

theorem upload_parameters_roundtrip_witness:
  "\<exists>up. beginUpload demo_handler (RoundTrip ''t'' (uploadPost (\<lambda>ps fin _. Inr (ps, fin))
       \<lparr>url_path = ''/backups'', url_query = []\<rparr> ''/home/disk'' demo_reader demo_params)) = Inr up \<and>
     up_filename up = ''disk'' \<and> up_backupName up = ''docs'' \<and> up_replication up = 2"
proof -
  have b: "Base ''/home/disk'' = ''disk''" by (simp add: Base_def)
  have t: "TrimSpace ''docs'' = ''docs''" by (simp add: TrimSpace_visible visible_def)
  show ?thesis
    using upload_parameters_roundtrip [OF demo_good(1), of "\<lparr>url_path = ''/backups'', url_query = []\<rparr>" "''/home/disk''"
        "\<lambda>ps fin _. Inr (ps, fin)" demo_reader demo_handler "''t''"]
    by (auto simp: b t demo_params_def)
qed

theorem backup_restore_roundtrip_witness:
  "\<exists>m w' w''. backup demo_libs demo_tls [] (\<lambda>_. served Inr demo_handler demo_env ''20260101'' ''u'')
       (\<lambda>_. Inr demo_reader) demo_flags \<lparr>bf_server = ''http://s'', bf_filePath = ''/home/disk'', bf_params = demo_params\<rparr>
       demo_cluster = (Inr m, w') \<and>
     restore demo_libs demo_tls [] (\<lambda>_. served Inr demo_handler demo_env ''20260102'' ''v'') (\<lambda>_. Inr ()) demo_flags
       \<lparr>rf_server = ''http://s'', rf_fileID = fm_id m, rf_outPath = ''copy''\<rparr> w' = ((Inr 1, Some [7]), w'')"
proof -
  let ?f = "\<lparr>bf_server = ''http://s'', bf_filePath = ''/home/disk'', bf_params = demo_params\<rparr>"
  have s: "can_store 1000 demo_env demo_cluster (''20260101'' @ ''-'' @ ''u'') (bf_params ?f) demo_reader"
    by (simp only: backupFlags.simps demo_store_ok)
  have u: "understood demo_libs demo_handler (bf_server ?f) (''20260101'' @ ''-'' @ ''u'') (bf_filePath ?f) demo_reader"
    by (simp only: backupFlags.simps demo_understood)
  have g: "good_params (bf_params ?f)" "bf_filePath ?f \<noteq> []" "Inr demo_reader = Inr demo_reader"
    by (simp_all only: backupFlags.simps demo_good(1)) simp_all
  have c: "demo_tls \<lparr>ct_caCertFile = tf_caCertFile demo_flags, ct_insecure = tf_insecure demo_flags\<rparr> = Inr DefaultTransport"
    "Resolve (tf_authToken demo_flags) [] = hd_token demo_handler" "hd_token demo_handler \<noteq> []"
    by (simp_all add: demo_client demo_resolve)
  have o: "''copy'' \<noteq> []" "Inr () = Inr ()" by simp_all
  obtain m w' where "backup demo_libs demo_tls [] (\<lambda>_. served Inr demo_handler demo_env ''20260101'' ''u'')
       (\<lambda>_. Inr demo_reader) demo_flags ?f demo_cluster = (Inr m, w')"
    and r: "\<forall>nrm' e' date' uuid'. quiet e' \<longrightarrow> (\<exists>w''. restore demo_libs demo_tls [] (\<lambda>_. served nrm' demo_handler e' date' uuid')
        (\<lambda>_. Inr ()) demo_flags \<lparr>rf_server = bf_server ?f, rf_fileID = fm_id m, rf_outPath = ''copy''\<rparr> w' =
        ((Inr (int (length (rd_bytes demo_reader))), Some (rd_bytes demo_reader)), w''))"
    using backup_restore_roundtrip [where nrm = Inr and date = "''20260101''" and uuid = "''u''" and f = ?f and tf = demo_flags and tls = demo_tls and env = "[]" and h = demo_handler and openFile = "\<lambda>_. Inr demo_reader" and create = "\<lambda>_. Inr ()",
        OF s u g c o] by blast
  moreover have "\<exists>w''. restore demo_libs demo_tls [] (\<lambda>_. served Inr demo_handler demo_env ''20260102'' ''v'')
        (\<lambda>_. Inr ()) demo_flags \<lparr>rf_server = bf_server ?f, rf_fileID = fm_id m, rf_outPath = ''copy''\<rparr> w' =
        ((Inr (int (length (rd_bytes demo_reader))), Some (rd_bytes demo_reader)), w'')"
    using r quiet_env by blast
  ultimately show ?thesis by (auto simp: demo_reader_def)
qed


end
