(* ===== verification/Address.thy ===== *)
theory Address
  imports Handlers
begin

text \<open>
  The addresses nodes register under (\<^verbatim>\<open>normalizeNodeAddress\<close> in \<^verbatim>\<open>internal/server/handlers.go\<close>)
  and the part of \<^verbatim>\<open>net/url\<close> it rests on: \<^verbatim>\<open>url.Parse\<close> of Go 1.25.0, up to the fields the server
  looks at. A parsed URL keeps whether it has user information, not which.
\<close>

subsection \<open>Escapes\<close>

datatype url_mode = EncodeHost | EncodeZone | EncodeOther

definition ishex :: "char \<Rightarrow> bool" where
  "ishex c \<longleftrightarrow> (let n = (of_char c :: nat) in 48 \<le> n \<and> n \<le> 57 \<or> 97 \<le> n \<and> n \<le> 102 \<or> 65 \<le> n \<and> n \<le> 70)"

definition unhex :: "char \<Rightarrow> nat" where
  "unhex c = (let n = of_char c in if n \<le> 57 then n - 48 else if n \<ge> 97 then n - 97 + 10 else n - 65 + 10)"

text \<open>\<^verbatim>\<open>shouldEscape(c, encodeHost)\<close>; it is the same function in mode \<^verbatim>\<open>encodeZone\<close>.\<close>

definition hostEscape :: "char \<Rightarrow> bool" where
  "hostEscape c \<longleftrightarrow>
     (let n = (of_char c :: nat) in
      \<not> (97 \<le> n \<and> n \<le> 122 \<or> 65 \<le> n \<and> n \<le> 90 \<or> 48 \<le> n \<and> n \<le> 57 \<or>
         c \<in> set ''!$&'' \<or> n = 39 \<or> c \<in> set ''()*+,;=:[]<>'' \<or> n = 34 \<or> c \<in> set ''-_.~''))"

definition escape_allowed :: "url_mode \<Rightarrow> char \<Rightarrow> char \<Rightarrow> bool" where
  "escape_allowed m a b \<longleftrightarrow>
     (case m of
        EncodeHost \<Rightarrow> 8 \<le> unhex a \<or> a = CHR ''2'' \<and> b = CHR ''5''
      | EncodeZone \<Rightarrow> a = CHR ''2'' \<and> b = CHR ''5'' \<or> 16 * unhex a + unhex b = 32 \<or>
          \<not> hostEscape (char_of (16 * unhex a + unhex b))
      | EncodeOther \<Rightarrow> True)"

fun unescape :: "url_mode \<Rightarrow> string \<Rightarrow> string result" where
  "unescape m [] = Inr []"
| "unescape m (c # s) =
     (if c = CHR ''%'' then
        (case s of
           a # b # s' \<Rightarrow>
             if ishex a \<and> ishex b \<and> escape_allowed m a b then
               (case unescape m s' of
                  Inl err \<Rightarrow> Inl err
                | Inr t \<Rightarrow> Inr (char_of (16 * unhex a + unhex b) # t))
             else Inl ''invalid URL escape''
         | _ \<Rightarrow> Inl ''invalid URL escape'')
      else if m \<noteq> EncodeOther \<and> (of_char c :: nat) < 128 \<and> hostEscape c then Inl ''invalid character in host name''
      else case unescape m s of Inl err \<Rightarrow> Inl err | Inr t \<Rightarrow> Inr (c # t))"

subsection \<open>Authority\<close>

text \<open>\<^verbatim>\<open>strings.Cut\<close> at a byte, and at its last occurrence.\<close>

definition cut_at :: "char \<Rightarrow> string \<Rightarrow> string \<times> string" where
  "cut_at c s = (takeWhile (\<lambda>x. x \<noteq> c) s, drop 1 (dropWhile (\<lambda>x. x \<noteq> c) s))"

definition before_last :: "char \<Rightarrow> string \<Rightarrow> string" where
  "before_last c s = rev (drop 1 (dropWhile (\<lambda>x. x \<noteq> c) (rev s)))"

definition after_last :: "char \<Rightarrow> string \<Rightarrow> string" where
  "after_last c s = rev (takeWhile (\<lambda>x. x \<noteq> c) (rev s))"

definition validOptionalPort :: "string \<Rightarrow> bool" where
  "validOptionalPort port \<longleftrightarrow>
     (case port of [] \<Rightarrow> True | c # ds \<Rightarrow> c = CHR '':'' \<and> list_all is_digit ds)"

text \<open>\<^verbatim>\<open>strings.Index(s, "%25")\<close>: the text before the first occurrence, and the text from it on.\<close>

fun find_zone :: "string \<Rightarrow> (string \<times> string) option" where
  "find_zone [] = None"
| "find_zone (c # s) =
     (if HasPrefix (c # s) ''%25'' then Some ([], c # s)
      else case find_zone s of None \<Rightarrow> None | Some (a, b) \<Rightarrow> Some (c # a, b))"

definition parseHost :: "string \<Rightarrow> string result" where
  "parseHost host =
     (if HasPrefix host ''['' then
        (if CHR '']'' \<notin> set host then Inl ''missing ']' in host''
         else if \<not> validOptionalPort (after_last CHR '']'' host) then Inl ''invalid port after host''
         else case find_zone (before_last CHR '']'' host) of
             Some (addr, zone) \<Rightarrow>
               (case unescape EncodeHost addr of
                  Inl err \<Rightarrow> Inl err
                | Inr host1 \<Rightarrow>
                    (case unescape EncodeZone zone of
                       Inl err \<Rightarrow> Inl err
                     | Inr host2 \<Rightarrow>
                         (case unescape EncodeHost (CHR '']'' # after_last CHR '']'' host) of
                            Inl err \<Rightarrow> Inl err
                          | Inr host3 \<Rightarrow> Inr (host1 @ host2 @ host3))))
           | None \<Rightarrow> unescape EncodeHost host)
      else if CHR '':'' \<in> set host \<and> \<not> validOptionalPort (CHR '':'' # after_last CHR '':'' host)
      then Inl ''invalid port after host''
      else unescape EncodeHost host)"

definition userinfo_char :: "char \<Rightarrow> bool" where
  "userinfo_char c \<longleftrightarrow>
     (let n = (of_char c :: nat) in
      97 \<le> n \<and> n \<le> 122 \<or> 65 \<le> n \<and> n \<le> 90 \<or> 48 \<le> n \<and> n \<le> 57 \<or> c \<in> set ''-._:~!$&'' \<or> n = 39 \<or>
      c \<in> set ''()*+,;=%@'')"

text \<open>The flag says whether the URL has user information.\<close>

definition parseAuthority :: "string \<Rightarrow> (bool \<times> string) result" where
  "parseAuthority authority =
     (if CHR ''@'' \<notin> set authority then
        (case parseHost authority of Inl err \<Rightarrow> Inl err | Inr host \<Rightarrow> Inr (False, host))
      else
        (case parseHost (after_last CHR ''@'' authority) of
           Inl err \<Rightarrow> Inl err
         | Inr host \<Rightarrow>
             (let userinfo = before_last CHR ''@'' authority in
              if \<not> list_all userinfo_char userinfo then Inl ''net/url: invalid userinfo''
              else (case unescape EncodeOther userinfo of Inl err \<Rightarrow> Inl err | Inr _ \<Rightarrow> Inr (True, host)))))"

subsection \<open>URLs\<close>

record ParsedURL =
  pu_scheme :: string
  pu_user :: bool
  pu_host :: string
  pu_path :: string
  pu_rawQuery :: string
  pu_fragment :: string

definition is_letter :: "char \<Rightarrow> bool" where
  "is_letter c \<longleftrightarrow> (let n = (of_char c :: nat) in 97 \<le> n \<and> n \<le> 122 \<or> 65 \<le> n \<and> n \<le> 90)"

text \<open>
  \<^verbatim>\<open>getScheme\<close>: \<open>seen\<close> are the bytes read, in reverse. A byte that cannot be part of a scheme, or
  the end, makes the whole text the rest.
\<close>

fun getScheme :: "string \<Rightarrow> string \<Rightarrow> (string \<times> string) result" where
  "getScheme seen [] = Inr ([], rev seen)"
| "getScheme seen (c # s) =
     (if is_letter c then getScheme (c # seen) s
      else if is_digit c \<or> c \<in> set ''+-.'' then
        (if seen = [] then Inr ([], c # s) else getScheme (c # seen) s)
      else if c = CHR '':'' then
        (if seen = [] then Inl ''missing protocol scheme'' else Inr (rev seen, s))
      else Inr ([], rev seen @ c # s))"

definition ascii_lower :: "char \<Rightarrow> char" where
  "ascii_lower c = (let n = of_char c in if 65 \<le> n \<and> n \<le> 90 then char_of (n + 32 :: nat) else c)"

definition is_ctl :: "char \<Rightarrow> bool" where
  "is_ctl c \<longleftrightarrow> (of_char c :: nat) < 32 \<or> (of_char c :: nat) = 127"

definition split_query :: "string \<Rightarrow> string \<times> string" where
  "split_query rest =
     (if HasSuffix rest ''?'' \<and> count_list rest CHR ''?'' = 1 then (butlast rest, []) else cut_at CHR ''?'' rest)"

definition parse_url :: "string \<Rightarrow> ParsedURL result" where
  "parse_url rawURL =
     (if list_ex is_ctl rawURL then Inl ''net/url: invalid control character in URL''
      else if rawURL = ''*'' then
        Inr \<lparr>pu_scheme = [], pu_user = False, pu_host = [], pu_path = ''*'', pu_rawQuery = [], pu_fragment = []\<rparr>
      else case getScheme [] rawURL of
        Inl err \<Rightarrow> Inl err
      | Inr (scheme, rest) \<Rightarrow>
          let scheme = map ascii_lower scheme;
              (rest, rawQuery) = split_query rest;
              url = \<lparr>pu_scheme = scheme, pu_user = False, pu_host = [], pu_path = [], pu_rawQuery = rawQuery, pu_fragment = []\<rparr>
          in if \<not> HasPrefix rest ''/'' \<and> scheme \<noteq> [] then Inr url
             else if \<not> HasPrefix rest ''/'' \<and> CHR '':'' \<in> set (takeWhile (\<lambda>c. c \<noteq> CHR ''/'') rest) then
               Inl ''first path segment in URL cannot contain colon''
             else if (scheme \<noteq> [] \<or> \<not> HasPrefix rest ''///'') \<and> HasPrefix rest ''//'' then
               (let authority = takeWhile (\<lambda>c. c \<noteq> CHR ''/'') (drop 2 rest);
                    path = dropWhile (\<lambda>c. c \<noteq> CHR ''/'') (drop 2 rest)
                in case parseAuthority authority of
                     Inl err \<Rightarrow> Inl err
                   | Inr (user, host) \<Rightarrow>
                       (case unescape EncodeOther path of
                          Inl err \<Rightarrow> Inl err
                        | Inr p \<Rightarrow> Inr (url\<lparr>pu_user := user, pu_host := host, pu_path := p\<rparr>)))
             else
               (case unescape EncodeOther rest of Inl err \<Rightarrow> Inl err | Inr p \<Rightarrow> Inr (url\<lparr>pu_path := p\<rparr>)))"

definition url_Parse :: "string \<Rightarrow> ParsedURL result" where
  "url_Parse rawURL =
     (let (u, frag) = cut_at CHR ''#'' rawURL in
      case parse_url u of
        Inl err \<Rightarrow> Inl err
      | Inr url \<Rightarrow>
          if frag = [] then Inr url
          else (case unescape EncodeOther frag of Inl err \<Rightarrow> Inl err | Inr f \<Rightarrow> Inr (url\<lparr>pu_fragment := f\<rparr>)))"

subsection \<open>The check of an address\<close>

definition normalizeNodeAddress :: "string \<Rightarrow> string result" where
  "normalizeNodeAddress raw =
     (let raw = TrimSpace raw in
      case url_Parse raw of
        Inl err \<Rightarrow> Inl (''invalid address: '' @ err)
      | Inr parsed \<Rightarrow>
          if pu_scheme parsed \<noteq> ''http'' \<and> pu_scheme parsed \<noteq> ''https'' then Inl ''address must use http or https''
          else if pu_host parsed = [] then Inl ''address must include a host''
          else if pu_user parsed then Inl ''address must not include credentials''
          else if pu_path parsed \<noteq> [] \<and> pu_path parsed \<noteq> ''/'' \<or> pu_rawQuery parsed \<noteq> [] \<or> pu_fragment parsed \<noteq> [] then
            Inl ''address must not include a path, query or fragment''
          else Inr (pu_scheme parsed @ ''://'' @ pu_host parsed))"

subsection \<open>What an address can contain\<close>

text \<open>A byte of a host: not one that ends the host, starts an escape or is invisible.\<close>

definition host_char :: "char \<Rightarrow> bool" where
  "host_char c \<longleftrightarrow> 128 \<le> (of_char c :: nat) \<or> \<not> hostEscape c"

lemma host_char_not:
  "\<not> host_char CHR ''/''" "\<not> host_char CHR ''?''" "\<not> host_char CHR ''#''" "\<not> host_char CHR ''@''"
  "\<not> host_char CHR ''%''" "\<not> host_char CHR '' ''" "host_char c \<Longrightarrow> \<not> is_ctl c"
  by (auto simp: host_char_def hostEscape_def is_ctl_def Let_def)

lemma hex_code:
  assumes "ishex a" "ishex b"
  shows "unhex a < 16" "unhex b < 16" "(of_char (char_of (16 * unhex a + unhex b)) :: nat) = 16 * unhex a + unhex b"
proof -
  show a: "unhex a < 16" and b: "unhex b < 16" using assms by (auto simp: ishex_def unhex_def Let_def)
  show "(of_char (char_of (16 * unhex a + unhex b)) :: nat) = 16 * unhex a + unhex b" using a b by simp
qed

lemma percent_code: "(char_of (16 * unhex CHR ''2'' + unhex CHR ''5'') :: char) = CHR ''%''"
  by code_simp

lemma unescape_percentE:
  assumes "unescape m (CHR ''%'' # s) = Inr t"
  obtains a b s' t' where "s = a # b # s'" "ishex a" "ishex b" "escape_allowed m a b" "unescape m s' = Inr t'"
    "t = char_of (16 * unhex a + unhex b) # t'"
  using assms by (auto simp: unescape.simps(2) split: list.splits if_splits sum.splits)

lemma unescape_plainE:
  assumes "unescape m (c # s) = Inr t" "c \<noteq> CHR ''%''"
  obtains t' where "m = EncodeOther \<or> host_char c" "unescape m s = Inr t'" "t = c # t'"
  using assms by (auto simp: unescape.simps(2) host_char_def split: list.splits if_splits sum.splits)

declare unescape.simps(2) [simp del]

lemma escape_host:
  assumes "escape_allowed EncodeHost a b" "ishex a" "ishex b"
  shows "128 \<le> (of_char (char_of (16 * unhex a + unhex b) :: char) :: nat) \<or> char_of (16 * unhex a + unhex b) = CHR ''%''"
  using assms hex_code [OF assms(2,3)] percent_code by (auto simp: escape_allowed_def)

lemma unescape_set:
  "unescape EncodeHost s = Inr t \<Longrightarrow> c \<in> set t \<Longrightarrow> c \<noteq> CHR ''%'' \<Longrightarrow> host_char c \<and> (c \<in> set s \<or> 128 \<le> (of_char c :: nat))"
proof (induction "length s" arbitrary: s t rule: less_induct)
  case less
  show ?case
  proof (cases s)
    case Nil
    with less show ?thesis by simp
  next
    case (Cons x r)
    show ?thesis
    proof (cases "x = CHR ''%''")
      case True
      from less.prems(1) obtain a b s' t' where
        "r = a # b # s'" "ishex a" "ishex b" "escape_allowed EncodeHost a b" "unescape EncodeHost s' = Inr t'"
        "t = char_of (16 * unhex a + unhex b) # t'"
        unfolding Cons True by (rule unescape_percentE)
      with less.hyps [of s' t'] less.prems escape_host [of a b] show ?thesis unfolding Cons by (auto simp: host_char_def)
    next
      case False
      from less.prems(1) False obtain t' where "EncodeHost = EncodeOther \<or> host_char x" "unescape EncodeHost r = Inr t'" "t = x # t'"
        unfolding Cons by (rule unescape_plainE)
      with less.hyps [of r t'] less.prems show ?thesis unfolding Cons by auto
    qed
  qed
qed

lemma unescape_id:
  "CHR ''%'' \<notin> set s \<Longrightarrow> m = EncodeOther \<or> list_all host_char s \<Longrightarrow> unescape m s = Inr s"
proof (induction s)
  case (Cons c s)
  then have "unescape m s = Inr s" by auto
  moreover have "c \<noteq> CHR ''%''" "m = EncodeOther \<or> host_char c" using Cons.prems by auto
  ultimately show ?case by (auto simp: unescape.simps(2) host_char_def)
qed simp

text \<open>An escape does not reach over a byte that is no hex digit.\<close>

lemma unescape_split:
  "unescape m (p @ x # q) = Inr t \<Longrightarrow> \<not> ishex x \<Longrightarrow> \<exists>p' q'. unescape m p = Inr p' \<and> unescape m (x # q) = Inr q' \<and> t = p' @ q'"
proof (induction "length p" arbitrary: p t rule: less_induct)
  case less
  show ?case
  proof (cases p)
    case Nil
    with less.prems show ?thesis by (intro exI [of _ "[]"] exI [of _ t]) simp
  next
    case (Cons c r)
    show ?thesis
    proof (cases "c = CHR ''%''")
      case True
      from less.prems(1) obtain a b s' t' where e: "r @ x # q = a # b # s'" "ishex a" "ishex b" "escape_allowed m a b"
        "unescape m s' = Inr t'" "t = char_of (16 * unhex a + unhex b) # t'"
        unfolding Cons True append_Cons by (rule unescape_percentE)
      then obtain r' where r: "r = a # b # r'" "s' = r' @ x # q"
        using less.prems(2) by (auto simp: append_eq_Cons_conv)
      with less.hyps [of r' t'] e(5) less.prems(2) obtain p' q' where
        "unescape m r' = Inr p'" "unescape m (x # q) = Inr q'" "t' = p' @ q'" unfolding Cons by auto
      with e r show ?thesis unfolding Cons True
        by (intro exI [of _ "char_of (16 * unhex a + unhex b) # p'"] exI [of _ q']) (simp add: unescape.simps(2))
    next
      case False
      from less.prems(1) False obtain t' where e: "m = EncodeOther \<or> host_char c" "unescape m (r @ x # q) = Inr t'" "t = c # t'"
        unfolding Cons append_Cons by (rule unescape_plainE)
      with less.hyps [of r t'] less.prems(2) obtain p' q' where
        "unescape m r = Inr p'" "unescape m (x # q) = Inr q'" "t' = p' @ q'" unfolding Cons by auto
      with e False show ?thesis unfolding Cons by (intro exI [of _ "c # p'"] exI [of _ q']) (auto simp: unescape.simps(2) host_char_def)
    qed
  qed
qed

lemma until_first:
  "x \<notin> set q \<Longrightarrow> takeWhile (\<lambda>y. y \<noteq> x) (q @ x # p) = q \<and> dropWhile (\<lambda>y. y \<noteq> x) (q @ x # p) = x # p"
  by (induction q) auto

lemma last_split: "x \<notin> set q \<Longrightarrow> after_last x (p @ x # q) = q" "x \<notin> set q \<Longrightarrow> before_last x (p @ x # q) = p"
  using until_first [of x "rev q" "rev p"] by (simp_all add: after_last_def before_last_def)

lemma last_splitE:
  assumes "x \<in> set s"
  obtains p where "s = p @ x # after_last x s" "x \<notin> set (after_last x s)" "before_last x s = p"
  using split_list_last [OF assms] last_split by metis

lemma find_zone_percent: "find_zone s = Some (p, z) \<Longrightarrow> s = p @ z \<and> HasPrefix z ''%25''"
  by (induction s arbitrary: p) (auto split: if_splits option.splits)

lemma port_plain: "validOptionalPort q \<Longrightarrow> CHR ''%'' \<notin> set q \<and> list_all host_char q \<and> (\<forall>c \<in> set (tl q). is_digit c)"
  by (auto simp: validOptionalPort_def list_all_iff is_digit_def host_char_def hostEscape_def Let_def split: list.splits)


lemma parseHost_plain:
  assumes "parseHost host = Inr h" and "CHR ''%'' \<notin> set h"
  shows "unescape EncodeHost host = Inr h"
proof (cases "HasPrefix host ''['' \<and> (\<exists>z. find_zone (before_last CHR '']'' host) = Some z)")
  case True
  then obtain addr zone where z: "find_zone (before_last CHR '']'' host) = Some (addr, zone)" by auto
  with True assms(1) obtain host1 host2 host3 where
    "unescape EncodeZone zone = Inr host2" "h = host1 @ host2 @ host3"
    by (auto simp: parseHost_def split: if_splits sum.splits)
  moreover from find_zone_percent [OF z] obtain r where "zone = CHR ''%'' # CHR ''2'' # CHR ''5'' # r"
    by (auto simp: HasPrefix_iff)
  ultimately have "CHR ''%'' \<in> set h" using percent_code by (auto elim!: unescape_percentE)
  with assms(2) show ?thesis by simp
next
  case False
  with assms(1) show ?thesis by (auto simp: parseHost_def split: if_splits option.splits)
qed

lemma unescape_port:
  assumes "unescape EncodeHost (p @ x # q) = Inr h" and "x \<in> {CHR '']'', CHR '':''}" and "CHR ''%'' \<notin> set q" "list_all host_char q"
  obtains p' where "h = p' @ x # q" "unescape EncodeHost p = Inr p'"
proof -
  have x: "\<not> ishex x" "host_char x" "x \<noteq> CHR ''%''"
    using assms(2) by (auto simp: ishex_def host_char_def hostEscape_def Let_def)
  from unescape_split [OF assms(1) x(1)] obtain p' q' where
    "unescape EncodeHost p = Inr p'" "unescape EncodeHost (x # q) = Inr q'" "h = p' @ q'" by blast
  moreover have "unescape EncodeHost (x # q) = Inr (x # q)"
    by (rule unescape_id) (use x assms(3,4) in auto)
  ultimately show ?thesis using that by simp
qed

lemma unescape_hd:
  assumes "unescape EncodeHost s = Inr t" and "CHR ''%'' \<notin> set t" and "x \<in> {CHR ''['', CHR '']'', CHR '':''}"
  shows "HasPrefix t [x] \<longleftrightarrow> HasPrefix s [x]"
proof (cases s)
  case Nil
  with assms show ?thesis by simp
next
  case (Cons c r)
  show ?thesis
  proof (cases "c = CHR ''%''")
    case True
    from assms(1) obtain a b s' t' where
      e: "ishex a" "ishex b" "escape_allowed EncodeHost a b" "t = char_of (16 * unhex a + unhex b) # t'"
      unfolding Cons True by (rule unescape_percentE)
    moreover have "char_of (16 * unhex a + unhex b) \<noteq> x"
    proof -
      have "\<not> 128 \<le> (of_char x :: nat)" "x \<noteq> CHR ''%''" using assms(3) by auto
      with escape_host [OF e(3,1,2)] show ?thesis by metis
    qed
    ultimately show ?thesis using assms(3) by (auto simp: Cons True)
  next
    case False
    with assms(1) show ?thesis unfolding Cons by (auto elim: unescape_plainE)
  qed
qed

text \<open>A host without a percent sign is read back as it is.\<close>

lemma parseHost_stable:
  assumes "parseHost host = Inr h" and "CHR ''%'' \<notin> set h"
  shows "parseHost h = Inr h" "list_all host_char h"
proof -
  have u: "unescape EncodeHost host = Inr h" by (rule parseHost_plain [OF assms])
  have chars: "list_all host_char h" using unescape_set [OF u] assms(2) by (auto simp: list_all_iff)
  then show "list_all host_char h" .
  have self: "unescape EncodeHost h = Inr h" using unescape_id [of h EncodeHost] assms(2) chars by simp
  note hd = unescape_hd [OF u assms(2)]
  show "parseHost h = Inr h"
  proof (cases "HasPrefix host ''[''")
    case True
    then have b: "CHR '']'' \<in> set host" "validOptionalPort (after_last CHR '']'' host)"
      using assms(1) by (auto simp: parseHost_def split: if_splits)
    from b(1) obtain p where p: "host = p @ CHR '']'' # after_last CHR '']'' host" by (rule last_splitE)
    let ?q = "after_last CHR '']'' host"
    from unescape_port [of p "CHR '']''" ?q h] u p port_plain [OF b(2)] obtain p' where
      h: "h = p' @ CHR '']'' # ?q" by auto
    have q: "CHR '']'' \<notin> set ?q" using last_splitE [OF b(1)] by metis
    have "find_zone p' = None"
      using find_zone_percent [of p'] assms(2) h by (cases "find_zone p'") (auto simp: HasPrefix_iff)
    moreover have "CHR '']'' \<in> set h" by (subst h) simp
    moreover have "after_last CHR '']'' h = ?q" "before_last CHR '']'' h = p'"
      by (subst h, simp add: last_split q)+
    ultimately show ?thesis using True hd [of "CHR ''[''"] b(2) self by (simp add: parseHost_def)
  next
    case False
    then have nb: "\<not> HasPrefix h ''[''" using hd [of "CHR ''[''"] by simp
    show ?thesis
    proof (cases "CHR '':'' \<in> set host")
      case True
      with False have v: "validOptionalPort (CHR '':'' # after_last CHR '':'' host)"
        using assms(1) by (auto simp: parseHost_def split: if_splits)
      let ?q = "after_last CHR '':'' host"
      from True obtain p where p: "host = p @ CHR '':'' # ?q" by (rule last_splitE)
      from unescape_port [of p "CHR '':''" ?q h] u p port_plain [OF v] obtain p' where
        h: "h = p' @ CHR '':'' # ?q" by auto
      have "CHR '':'' \<notin> set ?q" using last_splitE [OF True] by metis
      then have "after_last CHR '':'' h = ?q" by (subst h, simp add: last_split)
      then show ?thesis using nb v self by (simp add: parseHost_def)
    next
      case False
      then have "CHR '':'' \<notin> set h" using unescape_set [OF u, of "CHR '':''"] by auto
      then show ?thesis using nb self by (simp add: parseHost_def)
    qed
  qed
qed


subsection \<open>The address of a node is a bare host\<close>

definition bare_address :: "string \<Rightarrow> bool" where
  "bare_address a \<longleftrightarrow>
     (\<exists>scheme host. scheme \<in> {''http'', ''https''} \<and> host \<noteq> [] \<and> a = scheme @ ''://'' @ host \<and>
        (\<forall>c \<in> set host. c \<notin> set ''/?#@'' \<and> \<not> is_ctl c))"

lemma unescape_zone_set:
  "unescape EncodeZone s = Inr t \<Longrightarrow> c \<in> set t \<Longrightarrow> host_char c \<or> c = CHR ''%'' \<or> c = CHR '' ''"
proof (induction "length s" arbitrary: s t rule: less_induct)
  case less
  show ?case
  proof (cases s)
    case Nil
    with less.prems show ?thesis by simp
  next
    case (Cons x r)
    show ?thesis
    proof (cases "x = CHR ''%''")
      case True
      from less.prems(1) obtain a b s' t' where e:
        "r = a # b # s'" "ishex a" "ishex b" "escape_allowed EncodeZone a b" "unescape EncodeZone s' = Inr t'"
        "t = char_of (16 * unhex a + unhex b) # t'"
        unfolding Cons True by (rule unescape_percentE)
      have "(char_of (32 :: nat) :: char) = CHR '' ''" by code_simp
      with e(4) percent_code have "host_char (char_of (16 * unhex a + unhex b)) \<or>
          char_of (16 * unhex a + unhex b) = CHR ''%'' \<or> char_of (16 * unhex a + unhex b) = CHR '' ''"
        by (auto simp: escape_allowed_def host_char_def)
      moreover have "c = char_of (16 * unhex a + unhex b) \<or> c \<in> set t'" using e(6) less.prems(2) by auto
      moreover have "length s' < length s" by (simp add: Cons e(1))
      ultimately show ?thesis using less.hyps [of s' t'] e(5) by metis
    next
      case False
      from less.prems(1) False obtain t' where "EncodeZone = EncodeOther \<or> host_char x" "unescape EncodeZone r = Inr t'" "t = x # t'"
        unfolding Cons by (rule unescape_plainE)
      with less.hyps [of r t'] less.prems show ?thesis unfolding Cons by auto
    qed
  qed
qed

lemma parseHost_chars:
  assumes "parseHost host = Inr h" and "c \<in> set h"
  shows "host_char c \<or> c = CHR ''%'' \<or> c = CHR '' ''"
  using assms unescape_set unescape_zone_set
  by (auto simp: parseHost_def split: if_splits option.splits sum.splits) (metis Un_iff set_append)+

lemma parse_url_host:
  assumes "parse_url u = Inr p" and "pu_host p \<noteq> []"
  obtains host where "parseHost host = Inr (pu_host p)"
  using assms
  by (auto simp: parse_url_def parseAuthority_def Let_def split: if_splits sum.splits prod.splits)

lemma normalize_host:
  assumes "normalizeNodeAddress raw = Inr a"
  obtains scheme host h where "scheme \<in> {''http'', ''https''}" "a = scheme @ ''://'' @ h" "h \<noteq> []"
    "parseHost host = Inr h"
proof -
  from assms obtain p where p: "url_Parse (TrimSpace raw) = Inr p" "pu_scheme p \<in> {''http'', ''https''}" "pu_host p \<noteq> []"
    "a = pu_scheme p @ ''://'' @ pu_host p"
    by (auto simp: normalizeNodeAddress_def Let_def split: sum.splits if_splits)
  then obtain u p' where "parse_url u = Inr p'" "pu_host p' = pu_host p"
    by (auto simp: url_Parse_def split: prod.splits sum.splits if_splits)
  with p(3) obtain host where "parseHost host = Inr (pu_host p)" by (metis parse_url_host)
  with p that show ?thesis by blast
qed

lemma normalize_bare: "normalizeNodeAddress raw = Inr a \<Longrightarrow> bare_address a"
proof -
  assume "normalizeNodeAddress raw = Inr a"
  then obtain scheme host h where e: "scheme \<in> {''http'', ''https''}" "a = scheme @ ''://'' @ h" "h \<noteq> []" "parseHost host = Inr h"
    by (rule normalize_host)
  have "c \<notin> set ''/?#@'' \<and> \<not> is_ctl c" if "c \<in> set h" for c
    using parseHost_chars [OF e(4) that] host_char_not by (auto simp: is_ctl_def)
  with e show ?thesis unfolding bare_address_def by blast
qed

lemma cut_at_none: "c \<notin> set s \<Longrightarrow> cut_at c s = (s, [])"
  unfolding cut_at_def by (subst takeWhile_eq_all_conv [THEN iffD2], blast, subst dropWhile_eq_Nil_conv [THEN iffD2]) auto

lemma getScheme_http:
  "scheme \<in> {''http'', ''https''} \<Longrightarrow> getScheme [] (scheme @ '':'' @ rest) = Inr (scheme, rest) \<and> map ascii_lower scheme = scheme \<and>
     list_all (\<lambda>c. c \<notin> set ''#%'' \<and> \<not> is_ctl c) scheme"
  by (auto simp: is_letter_def ascii_lower_def is_ctl_def Let_def is_digit_def)

definition path_char :: "char \<Rightarrow> bool" where
  "path_char c \<longleftrightarrow> c \<notin> set ''?#%'' \<and> \<not> is_ctl c"

lemma url_of_request:
  assumes s: "scheme \<in> {''http'', ''https''}" and h: "parseHost h = Inr h" "h \<noteq> []" "list_all host_char h"
    and p: "list_all path_char path" "path = [] \<or> HasPrefix path ''/''"
  shows "url_Parse (scheme @ ''://'' @ h @ path) =
    Inr \<lparr>pu_scheme = scheme, pu_user = False, pu_host = h, pu_path = path, pu_rawQuery = [], pu_fragment = []\<rparr>"
proof -
  let ?rest = "''//'' @ h @ path"
  have hc: "c \<notin> set ''/?#@%''" "\<not> is_ctl c" if "c \<in> set h" for c
    using h(3) that host_char_not by (auto simp: list_all_iff)
  have pc: "c \<notin> set ''?#%''" "\<not> is_ctl c" if "c \<in> set path" for c
    using p(1) that by (auto simp: list_all_iff path_char_def)
  have nohash: "CHR ''#'' \<notin> set (scheme @ '':'' @ ?rest)"
    using s hc(1) pc(1) by auto
  then have cut: "cut_at CHR ''#'' (scheme @ '':'' @ ?rest) = (scheme @ '':'' @ ?rest, [])"
    by (rule cut_at_none)
  have ctl: "\<not> list_ex is_ctl (scheme @ '':'' @ ?rest)"
    using s hc(2) pc(2) by (auto simp: list_ex_iff is_ctl_def)
  have "CHR ''?'' \<notin> set ?rest" using hc(1) pc(1) by auto
  then have query: "split_query ?rest = (?rest, [])"
    by (simp add: split_query_def cut_at_none count_list_0_iff)
  have auth: "takeWhile (\<lambda>c. c \<noteq> CHR ''/'') (h @ path) = h" "dropWhile (\<lambda>c. c \<noteq> CHR ''/'') (h @ path) = path"
    using hc(1) p(2) by (auto simp: HasPrefix_iff takeWhile_append dropWhile_append)
  have "CHR ''@'' \<notin> set h" using hc(1) by auto
  then have pa: "parseAuthority h = Inr (False, h)" by (simp add: parseAuthority_def h(1))
  have "CHR ''%'' \<notin> set path" using pc(1) by auto
  then have un: "unescape EncodeOther path = Inr path" by (simp add: unescape_id)
  have gs: "getScheme [] (scheme @ '':'' @ ?rest) = Inr (scheme, ?rest)" "map ascii_lower scheme = scheme" "scheme \<noteq> []"
    using getScheme_http [OF s, of ?rest] s by auto
  have star: "scheme @ '':'' @ ?rest \<noteq> ''*''" by (cases scheme) auto
  have "parse_url (scheme @ '':'' @ ?rest) =
      Inr \<lparr>pu_scheme = scheme, pu_user = False, pu_host = h, pu_path = path, pu_rawQuery = [], pu_fragment = []\<rparr>"
    unfolding parse_url_def using ctl star gs query by (simp add: Let_def auth pa un del: append.simps) (simp add: auth pa un)
  with cut show ?thesis by (simp add: url_Parse_def)
qed

lemma address_url:
  assumes "normalizeNodeAddress raw = Inr a" and "CHR ''%'' \<notin> set a" and "list_all path_char path" and "HasPrefix path ''/''"
  shows "\<exists>scheme host. url_Parse (a @ path) = Inr \<lparr>pu_scheme = scheme, pu_user = False, pu_host = host, pu_path = path,
            pu_rawQuery = [], pu_fragment = []\<rparr>"
proof -
  from assms(1) obtain scheme host h where e: "scheme \<in> {''http'', ''https''}" "a = scheme @ ''://'' @ h" "h \<noteq> []" "parseHost host = Inr h"
    by (rule normalize_host)
  have "CHR ''%'' \<notin> set h" using assms(2) e(2) by simp
  from url_of_request [OF e(1) parseHost_stable(1) [OF e(4) this] e(3) parseHost_stable(2) [OF e(4) this] assms(3)] assms(4)
  show ?thesis by (simp add: e(2) del: append.simps)
qed


text \<open>
  The percent sign matters: the zone of an IPv6 address is decoded once, so an address is registered that
  no request can be sent to.
\<close>

lemma zone_address_unreachable:
  "normalizeNodeAddress ''http://[fe80::1%25eth0]:9001'' = Inr ''http://[fe80::1%eth0]:9001''"
  "url_Parse (''http://[fe80::1%eth0]:9001'' @ ''/chunks/x'') = Inl ''invalid URL escape''"
  by code_simp+


end
