(* ===== verification/Addresses.thy ===== *)
theory Addresses
  imports System Address
begin

text \<open>
  Which addresses the server ever sends a request to: the ones its table of nodes holds, and those come
  from \<^verbatim>\<open>normalizeNodeAddress\<close> alone. Of the handlers, uploads and scheduler passes only a registration
  writes an address; \<open>book_simps\<close> says so for every other call.
\<close>

named_theorems book_simps \<open>the calls that leave the address of every node alone\<close>

abbreviation book :: "World \<Rightarrow> (string \<times> string) set" where
  "book w \<equiv> addr_book (w_db w)"

lemma book_send [book_simps]:
  "book (snd (send_putChunk e a h d w)) = book w" "book (snd (send_deleteChunk e a h w)) = book w"
  "book (snd (clearNodeStorage e a w)) = book w"
  by (simp_all add: send_db)

lemma book_confirm [book_simps]: "book (snd (tell e (\<lambda>eng now. ConfirmChunk eng now h sz i) w)) = book w"
  by (simp add: tell_db addr_book_confirm)

lemma book_remove [book_simps]: "book (snd (removeLocation e h i w)) = book w"
  by (auto simp: removeLocation_def remove_facts(1) split: option.split)

lemma book_tell: "(\<And>eng now. db_nodes (snd (f eng now (w_db w))) = db_nodes (w_db w)) \<Longrightarrow> book (snd (tell e f w)) = book w"
  by (simp add: tell_db addr_book_def)

lemma same_nodes:
  "db_nodes (snd (CreateFile eng now date uuid req db)) = db_nodes db"
  "db_nodes (snd (ApplyRetention eng bn k db)) = db_nodes db"
  "db_nodes (snd (DeleteFile eng fid db)) = db_nodes db"
  "db_nodes (snd (UpdateFileReplication eng fid k db)) = db_nodes db"
  by (simp_all add: CreateFile_other_tables DeleteFile_other_tables)
    (auto simp: ApplyRetention_def UpdateFileReplication_def Let_def dest: delete_rows_Some split: option.split)

lemma book_fetch [book_simps]: "book (snd (fetchFromAny e ns h w)) = book w"
proof -
  have "book (snd (fetchFrom e err ns h w)) = book w" for err
  proof (induction ns arbitrary: err w)
    case (Cons n ns)
    then show ?case by (simp add: split_beta world_simps split: option.split)
  qed (simp split: option.split)
  then show ?thesis by (simp add: fetchFromAny_def)
qed

subsection \<open>Handlers\<close>

lemma book_deleteCopies: "book (snd (deleteCopies e h ns acc w)) = book w"
proof (induction ns arbitrary: acc w)
  case (Cons n ns)
  then show ?case
    by (cases acc) (simp add: split_beta book_simps split: sum.split bool.split)
qed auto

lemma book_deleteHashes: "book (snd (deleteHashes e locs hs acc w)) = book w"
proof (induction hs arbitrary: acc w)
  case (Cons h hs)
  then show ?case by (simp add: split_beta book_deleteCopies split: option.split)
qed simp

lemma book_deleteUnused [book_simps]: "book (snd (deleteUnusedChunks e hs w)) = book w"
  by (simp add: deleteUnusedChunks_def ask_def book_deleteHashes)

lemma book_save [book_simps]: "book (snd (saveManifest e date uuid req w)) = book w"
  by (simp add: saveManifest_def split_beta book_simps book_tell same_nodes split: sum.split option.split)

lemma book_handlers [book_simps]:
  "book (snd (nodes e r w)) = book w" "book (snd (planChunk e r w)) = book w" "book (snd (confirmChunk e r w)) = book w"
  "book (snd (chunkLocations e r w)) = book w" "book (snd (createFile e date uuid r w)) = book w"
  "book (snd (files e r w)) = book w" "book (snd (fileAvailability e r w)) = book w" "book (snd (patchFile e r w)) = book w"
  "book (snd (deleteFile e r w)) = book w"
  by (simp_all add: nodes_def planChunk_def confirmChunk_def chunkLocations_def createFile_def files_def fileAvailability_def
      patchFile_def updateFileReplication_def deleteFile_def Let_def split_beta book_simps book_tell same_nodes
      split: sum.split option.split)

lemma book_deleteNode: "book (snd (deleteNode e r w)) \<subseteq> book w"
proof -
  have d: "addr_book (snd (DeleteNode eng now nid db)) \<subseteq> addr_book db" for eng now nid db
    by (auto simp: DeleteNode_def Let_def addr_book_def split: option.split)
  have "book (snd (tell e (\<lambda>eng now. DeleteNode eng now nid) w1)) \<subseteq> book w1" for nid w1
    by (simp add: tell_db d)
  from this [of _ w] this [of _ "snd (clearNodeStorage e a (tick w))" for a, unfolded book_simps] show ?thesis
    by (simp add: deleteNode_def Let_def split_beta book_simps split: option.split sum.split)
qed

lemma book_sendChunks: "book (snd (sendChunks e cs wr w)) = book w"
  by (induction cs arbitrary: wr w) (simp_all add: split_beta Let_def book_simps split: sum.split)

lemma book_fileManifest [book_simps]: "book (snd (fileManifest e r w)) = book w"
  by (simp add: fileManifest_def downloadFile_def split_beta Let_def book_sendChunks book_simps split: option.split)

lemma book_uploadCopies: "book (snd (uploadCopies e h d ns c w)) = book w"
  by (induction ns arbitrary: c w) (simp_all add: split_beta book_simps split: sum.split)

lemma book_uploadChunk: "book (snd (uploadChunk e up d rest w)) = book w"
  by (simp add: uploadChunk_def Let_def split_beta book_uploadCopies split: sum.split)

lemma book_uploadStep [book_simps]: "book (snd (uploadStep e up w)) = book w"
  by (simp add: uploadStep_def split_beta book_uploadChunk split: chunk_read.split sum.split)

lemma book_uploadLoop [book_simps]: "book (snd (uploadLoop e up w)) = book w"
proof (induction e up w rule: uploadLoop.induct)
  case (1 e up w)
  obtain s w1 where s: "uploadStep e up w = (s, w1)" by fastforce
  have "book w1 = book w" using book_uploadStep [of e up w] s by simp
  then show ?case using "1.IH" s by (subst uploadLoop.simps) (cases s; simp)
qed

lemma book_backupFile [book_simps]: "book (snd (backupFile h e date uuid r w)) = book w"
  by (simp add: backupFile_def split_beta book_simps split: sum.split upload_state.split)

text \<open>A registration adds the normalized address, no other.\<close>

definition book_in :: "(string \<Rightarrow> bool) \<Rightarrow> World \<Rightarrow> bool" where
  "book_in P w \<longleftrightarrow> (\<forall>n \<in> set (db_nodes (w_db w)). P (ni_address n))"

lemma book_in_iff: "book_in P w \<longleftrightarrow> (\<forall>(i, a) \<in> book w. P a)"
  by (auto simp: book_in_def addr_book_def)

lemma book_in_mono: "book w' \<subseteq> book w \<Longrightarrow> book_in P w \<Longrightarrow> book_in P w'"
  by (auto simp: book_in_iff)

lemma register_book:
  assumes "book_in P w" and "\<And>raw a. nrm raw = Inr a \<Longrightarrow> P a"
  shows "book_in P (snd (registerNode nrm e r w))"
proof -
  have "book_in P (snd (tell e (\<lambda>eng now. RegisterNode eng now (req\<lparr>rr_address := a\<rparr>)) w))" if "nrm raw = Inr a" for req raw a
    using assms(1) assms(2) [OF that] by (auto simp: book_in_def tell_db RegisterNode_def Let_def)
  then show ?thesis using assms(1) by (auto simp: registerNode_def split_beta split: sum.split)
qed

lemma mux_book:
  assumes "book_in P w" and "\<And>raw a. nrm raw = Inr a \<Longrightarrow> P a"
  shows "book_in P (snd (server_mux nrm h e date uuid r w))"
proof -
  have same: "book w' = book w \<Longrightarrow> book_in P w'" for w' using assms(1) by (simp add: book_in_iff)
  have "book_in P (snd (deleteNode e r w))" by (rule book_in_mono [OF book_deleteNode assms(1)])
  then show ?thesis
    using register_book [OF assms] assms(1) same by (simp add: server_mux_def Let_def book_simps)
qed

lemma Routes_book:
  assumes "book_in P w" and "\<And>raw a. nrm raw = Inr a \<Longrightarrow> P a"
  shows "book_in P (snd (Routes nrm h e date uuid r w))"
  using mux_book [OF assms] assms(1) by (simp add: Routes_def Middleware_def)

subsection \<open>The scheduler\<close>

lemma book_cleanup: "book (snd (cleanup_loop e ts w)) = book w"
  by (induction ts arbitrary: w) (simp_all add: split_beta book_simps split: sum.split bool.split)

lemma book_copy: "book (copy_loop e t d ns k w) = book w"
  by (induction ns arbitrary: k w) (simp_all add: split_beta book_simps split: sum.split)

lemma book_replicate: "book (replicate_loop e ts w) = book w"
  by (induction ts arbitrary: w) (simp_all add: split_beta book_simps book_copy split: sum.split)

lemma book_prune_copies: "book (snd (prune_copies e t ns k w)) = book w"
  by (induction ns arbitrary: k w) (simp_all add: split_beta book_simps split: sum.split bool.split)

lemma book_prune: "book (snd (prune_loop e ts w)) = book w"
  by (induction ts arbitrary: w) (simp_all add: split_beta book_prune_copies split: bool.split)

lemma book_scheduler [book_simps]: "book (snd (runReplicationOnce e w)) = book w"
  by (simp add: runReplicationOnce_def cleanupOrphanChunks_def pruneExtraCopies_def replicateMissingCopies_def
      split_beta book_cleanup book_prune book_replicate split: bool.split)


subsection \<open>The running server\<close>

lemma sys_step_book:
  assumes "sys_step nrm h s ev s'" and "\<And>raw a. nrm raw = Inr a \<Longrightarrow> P a" and "book_in P (sy_world s)"
  shows "book_in P (sy_world s')"
  using assms
proof (induction rule: sys_step.induct)
  case (request e date uuid r s rs w')
  then show ?case using Routes_book [of P "sy_world s" nrm h e date uuid r] by simp
next
  case (turn s us up vs e up' w')
  then show ?case using book_uploadStep [of e up "sy_world s"] by (simp add: book_in_iff)
next
  case (reject s us up vs e rs w')
  then show ?case using book_uploadStep [of e up "sy_world s"] by (simp add: book_in_iff)
next
  case (finish s us up vs e up' w' date uuid rs w'')
  then show ?case using book_uploadStep [of e up "sy_world s"] book_save [of e date uuid "uploadRequest up'" w']
    by (simp add: book_in_iff)
next
  case (schedule e s w')
  then show ?case using book_scheduler [of e "sy_world s"] by (simp add: book_in_iff)
next
  case (panic e s w')
  then show ?case using book_scheduler [of e "sy_world s"] by (simp add: book_in_iff)
qed (simp_all add: book_in_def)

interpretation addressed: step_invariant normalizeNodeAddress h "\<lambda>_. True" "\<lambda>s. book_in bare_address (sy_world s)" for h
  by unfold_locales (auto intro: sys_step_book normalize_bare)


text \<open>A node registers with an untidy address.\<close>

definition demo_register :: "server_body Request" where
  "demo_register =
     \<lparr>rq_method = ''POST'', rq_path = ''/nodes/register'', rq_query = [], rq_authorization = ''Bearer t'',
      rq_body = \<lparr>sb_register = Inr \<lparr>rr_id = ''n3'', rr_address = '' HTTP://n3:9001/ '', rr_capacity = 9, rr_free = 9\<rparr>,
        sb_plan = Inl [], sb_confirm = Inl [], sb_create = Inl [], sb_replication = Inl [], sb_parts = (\<lambda>_. Inl [])\<rparr>\<rparr>"

definition empty_world :: World where
  "empty_world = \<lparr>w_db = emptyDb, w_nodes = (\<lambda>_. None), w_token = ''t'', w_tick = 0\<rparr>"


end
