(* ===== verification/Flags.thy ===== *)
theory Flags
  imports Decimal
begin

text \<open>
  Command lines, as the three programs read them: the part of \<^verbatim>\<open>flag\<close> and \<^verbatim>\<open>strconv\<close> their
  \<^verbatim>\<open>main\<close> functions call. A flag set is the list of its flags with their current values and
  the names given on the command line (\<^verbatim>\<open>flag.Visit\<close>). \<open>dur\<close> is \<^verbatim>\<open>time.ParseDuration\<close> in
  nanoseconds.
\<close>

subsection \<open>Values\<close>

definition ParseBool :: "string \<Rightarrow> bool option" where
  "ParseBool s =
     (if s \<in> {''1'', ''t'', ''T'', ''TRUE'', ''true'', ''True''} then Some True
      else if s \<in> {''0'', ''f'', ''F'', ''FALSE'', ''false'', ''False''} then Some False
      else None)"

definition lower_or :: "char \<Rightarrow> nat" where
  "lower_or c = (let n = of_char c in if n div 32 mod 2 = 1 then n else n + 32)"

text \<open>The value of a digit or letter in bases up to 36.\<close>

definition digit_of :: "char \<Rightarrow> nat option" where
  "digit_of c =
     (if is_digit c then Some (of_char c - 48)
      else if 97 \<le> lower_or c \<and> lower_or c \<le> 122 then Some (lower_or c - 97 + 10)
      else None)"

text \<open>The base a literal announces, and its digits.\<close>

definition base_prefix :: "string \<Rightarrow> nat \<times> string" where
  "base_prefix s =
     (if s \<noteq> [] \<and> hd s = CHR ''0'' then
        (if length s \<ge> 3 \<and> lower_or (s ! 1) = 98 then (2, drop 2 s)
         else if length s \<ge> 3 \<and> lower_or (s ! 1) = 111 then (8, drop 2 s)
         else if length s \<ge> 3 \<and> lower_or (s ! 1) = 120 then (16, drop 2 s)
         else (8, drop 1 s))
      else (10, s))"

text \<open>
  \<^verbatim>\<open>underscoreOK\<close>: an underscore follows a digit or the base prefix and is followed by a digit.
  \<open>saw\<close> is \<open>0\<close> after a digit, \<open>1\<close> after an underscore, \<open>2\<close> otherwise.
\<close>

fun underscore_scan :: "bool \<Rightarrow> nat \<Rightarrow> string \<Rightarrow> bool" where
  "underscore_scan hex saw [] = (saw \<noteq> 1)"
| "underscore_scan hex saw (c # s) =
     (if is_digit c \<or> hex \<and> 97 \<le> lower_or c \<and> lower_or c \<le> 102 then underscore_scan hex 0 s
      else if c = CHR ''_'' then (if saw \<noteq> 0 then False else underscore_scan hex 1 s)
      else if saw = 1 then False
      else underscore_scan hex 2 s)"

definition underscoreOK :: "string \<Rightarrow> bool" where
  "underscoreOK s =
     (if length s \<ge> 2 \<and> hd s = CHR ''0'' \<and> lower_or (s ! 1) \<in> {98, 111, 120}
      then underscore_scan (lower_or (s ! 1) = 120) 0 (drop 2 s)
      else underscore_scan False 2 s)"

fun digits_in :: "nat \<Rightarrow> nat \<Rightarrow> string \<Rightarrow> nat option" where
  "digits_in base n [] = Some n"
| "digits_in base n (c # s) =
     (if c = CHR ''_'' then digits_in base n s
      else case digit_of c of
        None \<Rightarrow> None
      | Some d \<Rightarrow> if d \<ge> base then None else digits_in base (n * base + d) s)"

text \<open>\<^verbatim>\<open>strconv.ParseInt(s, 0, 64)\<close>\<close>

definition ParseInt0 :: "string \<Rightarrow> int option" where
  "ParseInt0 s =
     (let neg = HasPrefix s ''-'';
          u = (if HasPrefix s ''-'' \<or> HasPrefix s ''+'' then drop 1 s else s)
      in if u = [] then None
         else case base_prefix u of (base, ds) \<Rightarrow>
           (case digits_in base 0 ds of
              None \<Rightarrow> None
            | Some n \<Rightarrow>
                if CHR ''_'' \<in> set ds \<and> \<not> underscoreOK u then None
                else let v = (if neg then - int n else int n) in if int64 v then Some v else None))"

subsection \<open>Flag sets\<close>

datatype flag_value = VString string | VBool bool | VInt int | VDuration int

record FlagSet =
  fs_formal :: "(string \<times> flag_value) list"
  fs_actual :: "string list"

definition NewFlagSet :: "(string \<times> flag_value) list \<Rightarrow> FlagSet" where
  "NewFlagSet formal = \<lparr>fs_formal = formal, fs_actual = []\<rparr>"

text \<open>\<^verbatim>\<open>Value.Set\<close>: the type of a flag is that of its default.\<close>

definition flag_Set :: "(string \<Rightarrow> int result) \<Rightarrow> flag_value \<Rightarrow> string \<Rightarrow> flag_value option" where
  "flag_Set dur old s =
     (case old of
        VString _ \<Rightarrow> Some (VString s)
      | VBool _ \<Rightarrow> map_option VBool (ParseBool s)
      | VInt _ \<Rightarrow> map_option VInt (ParseInt0 s)
      | VDuration _ \<Rightarrow> (case dur s of Inl _ \<Rightarrow> None | Inr d \<Rightarrow> Some (VDuration d)))"

definition is_bool :: "flag_value \<Rightarrow> bool" where
  "is_bool v = (case v of VBool _ \<Rightarrow> True | _ \<Rightarrow> False)"

definition put_flag :: "string \<Rightarrow> flag_value \<Rightarrow> FlagSet \<Rightarrow> FlagSet" where
  "put_flag name v fs =
     fs\<lparr>fs_formal := map (\<lambda>p. if fst p = name then (name, v) else p) (fs_formal fs),
        fs_actual := name # fs_actual fs\<rparr>"

text \<open>The outcome of one turn of \<^verbatim>\<open>FlagSet.Parse\<close>.\<close>

datatype parse_step = Finished "string list" | HelpAsked | BadUsage string | Stepped FlagSet "string list"

definition parseOne :: "(string \<Rightarrow> int result) \<Rightarrow> FlagSet \<Rightarrow> string list \<Rightarrow> parse_step" where
  "parseOne dur fs args =
     (case args of
        [] \<Rightarrow> Finished []
      | s # rest \<Rightarrow>
          if length s < 2 \<or> hd s \<noteq> CHR ''-'' then Finished args
          else if s = ''--'' then Finished rest
          else
            let name = (if s ! 1 = CHR ''-'' then drop 2 s else drop 1 s) in
            if name = [] \<or> hd name = CHR ''-'' \<or> hd name = CHR ''='' then BadUsage (''bad flag syntax: '' @ s)
            else
              let hasValue = (CHR ''='' \<in> set name);
                  value = drop 1 (dropWhile (\<lambda>c. c \<noteq> CHR ''='') name);
                  name = takeWhile (\<lambda>c. c \<noteq> CHR ''='') name
              in (case map_of (fs_formal fs) name of
                   None \<Rightarrow>
                     if name = ''help'' \<or> name = ''h'' then HelpAsked
                     else BadUsage (''flag provided but not defined: -'' @ name)
                 | Some old \<Rightarrow>
                     if is_bool old then
                       (case flag_Set dur old (if hasValue then value else ''true'') of
                          None \<Rightarrow> BadUsage (''invalid boolean value for -'' @ name)
                        | Some v \<Rightarrow> Stepped (put_flag name v fs) rest)
                     else if \<not> hasValue \<and> rest = [] then BadUsage (''flag needs an argument: -'' @ name)
                     else
                       (case flag_Set dur old (if hasValue then value else hd rest) of
                          None \<Rightarrow> BadUsage (''invalid value for flag -'' @ name)
                        | Some v \<Rightarrow> Stepped (put_flag name v fs) (if hasValue then rest else tl rest))))"

lemma parseOne_consumes: "parseOne dur fs args = Stepped fs' rest \<Longrightarrow> length rest < length args"
  by (auto simp: parseOne_def Let_def split: list.splits if_splits option.splits)

datatype parsed = Parsed FlagSet "string list" | Help | Usage string

function Parse :: "(string \<Rightarrow> int result) \<Rightarrow> FlagSet \<Rightarrow> string list \<Rightarrow> parsed" where
  "Parse dur fs args =
     (case parseOne dur fs args of
        Finished rest \<Rightarrow> Parsed fs rest
      | HelpAsked \<Rightarrow> Help
      | BadUsage msg \<Rightarrow> Usage msg
      | Stepped fs rest \<Rightarrow> Parse dur fs rest)"
  by pat_completeness auto
termination
  by (relation "measure (\<lambda>(dur, fs, args). length args)") (auto dest: parseOne_consumes)

declare Parse.simps [simp del]

definition flag_string :: "FlagSet \<Rightarrow> string \<Rightarrow> string" where
  "flag_string fs name = (case map_of (fs_formal fs) name of Some (VString s) \<Rightarrow> s | _ \<Rightarrow> [])"

definition flag_bool :: "FlagSet \<Rightarrow> string \<Rightarrow> bool" where
  "flag_bool fs name = (case map_of (fs_formal fs) name of Some (VBool b) \<Rightarrow> b | _ \<Rightarrow> False)"

definition flag_int :: "FlagSet \<Rightarrow> string \<Rightarrow> int" where
  "flag_int fs name = (case map_of (fs_formal fs) name of Some (VInt n) \<Rightarrow> n | _ \<Rightarrow> 0)"

definition flag_duration :: "FlagSet \<Rightarrow> string \<Rightarrow> int" where
  "flag_duration fs name = (case map_of (fs_formal fs) name of Some (VDuration n) \<Rightarrow> n | _ \<Rightarrow> 0)"

text \<open>\<^verbatim>\<open>visitedFlags\<close>\<close>

definition visitedFlags :: "FlagSet \<Rightarrow> string \<Rightarrow> bool" where
  "visitedFlags fs name \<longleftrightarrow> name \<in> set (fs_actual fs)"

subsection \<open>Conditional assignments\<close>

text \<open>\<^verbatim>\<open>if c { ... }\<close> with one assignment.\<close>

definition assign :: "bool \<Rightarrow> ('v \<Rightarrow> 'v) \<Rightarrow> 'v \<Rightarrow> 'v" where
  "assign c f v = (if c then f v else v)"

lemma assign_other: "(\<And>v. g (f v) = g v) \<Longrightarrow> g (assign c f v) = g v"
  by (simp add: assign_def)

lemma assign_same: "(\<And>v. g (f v) = k) \<Longrightarrow> g (assign c f v) = (if c then k else g v)"
  by (simp add: assign_def)

subsection \<open>What parsing leaves in a flag set\<close>

lemma map_fst_put [simp]: "map fst (fs_formal (put_flag n v fs)) = map fst (fs_formal fs)"
  by (induction "fs_formal fs") (auto simp: put_flag_def)

lemma map_of_put: "map_of (fs_formal (put_flag n v fs)) m =
    (if m = n \<and> n \<in> fst ` set (fs_formal fs) then Some v else map_of (fs_formal fs) m)"
proof -
  have "map_of (map (\<lambda>p. if fst p = n then (n, v) else p) xs) m =
      (if m = n \<and> n \<in> fst ` set xs then Some v else map_of xs m)" for xs :: "(string \<times> flag_value) list"
    by (induction xs) (auto, force+)
  then show ?thesis by (simp add: put_flag_def)
qed

definition same_type :: "flag_value \<Rightarrow> flag_value \<Rightarrow> bool" where
  "same_type v w = (case (v, w) of
     (VString _, VString _) \<Rightarrow> True | (VBool _, VBool _) \<Rightarrow> True | (VInt _, VInt _) \<Rightarrow> True
   | (VDuration _, VDuration _) \<Rightarrow> True | _ \<Rightarrow> False)"

lemma flag_Set_type: "flag_Set dur old s = Some v \<Longrightarrow> same_type old v"
  by (auto simp: flag_Set_def same_type_def split: flag_value.splits sum.splits)

lemma same_type_trans: "same_type a b \<Longrightarrow> same_type b c \<Longrightarrow> same_type a c"
  by (auto simp: same_type_def split: flag_value.splits)

lemma same_type_refl [simp]: "same_type a a"
  by (simp add: same_type_def split: flag_value.split)

lemma parseOne_step:
  assumes "parseOne dur fs args = Stepped fs' rest"
  obtains n v old where "fs' = put_flag n v fs" "map_of (fs_formal fs) n = Some old" "same_type old v"
proof -
  from assms obtain n v old s where "fs' = put_flag n v fs" "map_of (fs_formal fs) n = Some old" "flag_Set dur old s = Some v"
    by (auto simp: parseOne_def Let_def split: list.splits if_splits option.splits)
  with that flag_Set_type show ?thesis by blast
qed

text \<open>
  A flag keeps its type; one that was not given keeps its value, and only flags of the set are given.
\<close>

definition refines_flags :: "FlagSet \<Rightarrow> FlagSet \<Rightarrow> bool" where
  "refines_flags fs fs' \<longleftrightarrow>
     map fst (fs_formal fs') = map fst (fs_formal fs) \<and> set (fs_actual fs) \<subseteq> set (fs_actual fs') \<and>
     set (fs_actual fs') \<subseteq> set (fs_actual fs) \<union> fst ` set (fs_formal fs) \<and>
     (\<forall>n old. map_of (fs_formal fs) n = Some old \<longrightarrow>
        (\<exists>v. map_of (fs_formal fs') n = Some v \<and> same_type old v \<and> (n \<notin> set (fs_actual fs') \<longrightarrow> v = old)))"

lemma Parse_refines: "Parse dur fs args = Parsed fs' rest \<Longrightarrow> refines_flags fs fs'"
proof (induction dur fs args rule: Parse.induct)
  case (1 dur fs args)
  show ?case
  proof (cases "parseOne dur fs args")
    case (Stepped fs1 rest1)
    with 1 have ih: "refines_flags fs1 fs'" by (simp add: Parse.simps [of dur fs args])
    from Stepped obtain n v old where s: "fs1 = put_flag n v fs" "map_of (fs_formal fs) n = Some old" "same_type old v"
      by (rule parseOne_step)
    have n: "n \<in> fst ` set (fs_formal fs)" using s(2) by (auto simp: rev_image_eqI dest!: map_of_SomeD)
    have act: "fs_actual fs1 = n # fs_actual fs" by (simp add: s(1) put_flag_def)
    have keys: "map fst (fs_formal fs1) = map fst (fs_formal fs)" by (simp add: s(1))
    then have kset: "fst ` set (fs_formal fs1) = fst ` set (fs_formal fs)" by (metis list.set_map)
    have "\<exists>w. map_of (fs_formal fs') m = Some w \<and> same_type o' w \<and> (m \<notin> set (fs_actual fs') \<longrightarrow> w = o')"
      if "map_of (fs_formal fs) m = Some o'" for m o'
    proof (cases "m = n")
      case True
      then have "map_of (fs_formal fs1) m = Some v" using n by (simp add: s(1) map_of_put)
      moreover have "m \<in> set (fs_actual fs')" using ih act True by (auto simp: refines_flags_def)
      ultimately show ?thesis using ih s(2,3) that True same_type_trans unfolding refines_flags_def by fastforce
    next
      case False
      then have "map_of (fs_formal fs1) m = Some o'" using that by (simp add: s(1) map_of_put)
      then show ?thesis using ih unfolding refines_flags_def by blast
    qed
    then show ?thesis using ih keys kset act n unfolding refines_flags_def by auto
  qed (use 1 in \<open>auto simp: Parse.simps [of dur fs args] refines_flags_def\<close>)
qed

end
