(* ===== verification/NodeConfig.thy ===== *)
theory NodeConfig
  imports Flags TlsConfig Node
begin

text \<open>
  How a storage node gets its settings (\<^verbatim>\<open>cmd/backup-node/main.go\<close>): the flags, the JSON file, the
  key of the store and the capacity. \<^verbatim>\<open>encoding/base64\<close> is modelled as far as \<^verbatim>\<open>DecodeString\<close> of the
  standard alphabet; \<^verbatim>\<open>strings.ToUpper\<close> and \<^verbatim>\<open>strconv.ParseFloat\<close> are arguments.
\<close>

subsection \<open>Settings\<close>

record nodeConfig =
  nc_id :: string
  nc_addr :: string
  nc_publicAddr :: string
  nc_server :: string
  nc_storage :: string
  nc_capacity :: string
  nc_wipeStorage :: bool
  nc_authToken :: string
  nc_storageKey :: string
  nc_certFile :: string
  nc_keyFile :: string
  nc_caCertFile :: string
  nc_insecure :: bool

definition node_flags :: "(string \<times> flag_value) list" where
  "node_flags =
     [(''id'', VString ''node-1''), (''addr'', VString '':9001''), (''public-addr'', VString ''http://localhost:9001''),
      (''server'', VString ''http://localhost:8080''), (''storage'', VString ''storage-node-1''),
      (''capacity'', VString ''10GB''), (''wipe-storage'', VBool False), (''auth-token'', VString []),
      (''storage-key'', VString []), (''cert-file'', VString []), (''key-file'', VString []),
      (''ca-cert-file'', VString []), (''insecure-skip-verify'', VBool False), (''config'', VString [])]"

text \<open>The variables of \<^verbatim>\<open>main\<close> are those of the configuration, filled from the flags.\<close>

definition node_values :: "FlagSet \<Rightarrow> nodeConfig" where
  "node_values fs =
     \<lparr>nc_id = flag_string fs ''id'', nc_addr = flag_string fs ''addr'', nc_publicAddr = flag_string fs ''public-addr'',
      nc_server = flag_string fs ''server'', nc_storage = flag_string fs ''storage'',
      nc_capacity = flag_string fs ''capacity'', nc_wipeStorage = flag_bool fs ''wipe-storage'',
      nc_authToken = flag_string fs ''auth-token'', nc_storageKey = flag_string fs ''storage-key'',
      nc_certFile = flag_string fs ''cert-file'', nc_keyFile = flag_string fs ''key-file'',
      nc_caCertFile = flag_string fs ''ca-cert-file'', nc_insecure = flag_bool fs ''insecure-skip-verify''\<rparr>"

text \<open>The assignments of \<^verbatim>\<open>main\<close>, in its order.\<close>

definition override_nodeConfig :: "(string \<Rightarrow> bool) \<Rightarrow> nodeConfig \<Rightarrow> nodeConfig \<Rightarrow> nodeConfig" where
  "override_nodeConfig overrides cfg v =
     (let v = assign (nc_id cfg \<noteq> [] \<and> \<not> overrides ''id'') (nc_id_update (\<lambda>_. nc_id cfg)) v;
          v = assign (nc_addr cfg \<noteq> [] \<and> \<not> overrides ''addr'') (nc_addr_update (\<lambda>_. nc_addr cfg)) v;
          v = assign (nc_publicAddr cfg \<noteq> [] \<and> \<not> overrides ''public-addr'') (nc_publicAddr_update (\<lambda>_. nc_publicAddr cfg)) v;
          v = assign (nc_server cfg \<noteq> [] \<and> \<not> overrides ''server'') (nc_server_update (\<lambda>_. nc_server cfg)) v;
          v = assign (nc_storage cfg \<noteq> [] \<and> \<not> overrides ''storage'') (nc_storage_update (\<lambda>_. nc_storage cfg)) v;
          v = assign (nc_capacity cfg \<noteq> [] \<and> \<not> overrides ''capacity'') (nc_capacity_update (\<lambda>_. nc_capacity cfg)) v;
          v = assign (nc_wipeStorage cfg \<and> \<not> overrides ''wipe-storage'') (nc_wipeStorage_update (\<lambda>_. nc_wipeStorage cfg)) v;
          v = assign (nc_authToken cfg \<noteq> [] \<and> \<not> overrides ''auth-token'') (nc_authToken_update (\<lambda>_. nc_authToken cfg)) v;
          v = assign (nc_storageKey cfg \<noteq> [] \<and> \<not> overrides ''storage-key'') (nc_storageKey_update (\<lambda>_. nc_storageKey cfg)) v;
          v = assign (nc_certFile cfg \<noteq> [] \<and> \<not> overrides ''cert-file'') (nc_certFile_update (\<lambda>_. nc_certFile cfg)) v;
          v = assign (nc_keyFile cfg \<noteq> [] \<and> \<not> overrides ''key-file'') (nc_keyFile_update (\<lambda>_. nc_keyFile cfg)) v;
          v = assign (nc_caCertFile cfg \<noteq> [] \<and> \<not> overrides ''ca-cert-file'') (nc_caCertFile_update (\<lambda>_. nc_caCertFile cfg)) v;
          v = assign (nc_insecure cfg \<and> \<not> overrides ''insecure-skip-verify'') (nc_insecure_update (\<lambda>_. nc_insecure cfg)) v
      in v)"

text \<open>\<open>readFile\<close> is \<^verbatim>\<open>os.ReadFile\<close>, \<open>unmarshal\<close> is \<^verbatim>\<open>json.Unmarshal\<close> into an empty configuration.\<close>

definition readConfig :: "(string \<Rightarrow> bytes result) \<Rightarrow> (bytes \<Rightarrow> 'cfg result) \<Rightarrow> string \<Rightarrow> 'cfg result" where
  "readConfig readFile unmarshal path =
     (case readFile path of Inl err \<Rightarrow> Inl err | Inr data \<Rightarrow> unmarshal data)"

definition node_settings ::
  "(string \<Rightarrow> bytes result) \<Rightarrow> (bytes \<Rightarrow> nodeConfig result) \<Rightarrow> FlagSet \<Rightarrow> nodeConfig result" where
  "node_settings readFile unmarshal fs =
     (if flag_string fs ''config'' \<noteq> [] then
        (case readConfig readFile unmarshal (flag_string fs ''config'') of
           Inl err \<Rightarrow> Inl err
         | Inr cfg \<Rightarrow> Inr (override_nodeConfig (visitedFlags fs) cfg (node_values fs)))
      else Inr (node_values fs))"

subsection \<open>The key\<close>

definition b64_char :: "nat \<Rightarrow> char" where
  "b64_char n =
     (if n < 26 then char_of (65 + n) else if n < 52 then char_of (97 + (n - 26))
      else if n < 62 then char_of (48 + (n - 52)) else if n = 62 then CHR ''+'' else CHR ''/'')"

definition b64_value :: "char \<Rightarrow> nat option" where
  "b64_value c =
     (let n = of_char c in
      if 65 \<le> n \<and> n \<le> 90 then Some (n - 65) else if 97 \<le> n \<and> n \<le> 122 then Some (n - 97 + 26)
      else if 48 \<le> n \<and> n \<le> 57 then Some (n - 48 + 52) else if c = CHR ''+'' then Some 62
      else if c = CHR ''/'' then Some 63 else None)"

definition b64_bytes :: "nat \<Rightarrow> bytes" where
  "b64_bytes val = [word_of_nat (val div 65536), word_of_nat (val div 256), word_of_nat val]"

text \<open>Groups of four; only the last may be padded, and its surplus bits are ignored.\<close>

fun b64_groups :: "string \<Rightarrow> bytes option" where
  "b64_groups [] = Some []"
| "b64_groups (a # b # c # d # rest) =
     (case (b64_value a, b64_value b) of
        (Some x, Some y) \<Rightarrow>
          if c = CHR ''='' then
            (if d = CHR ''='' \<and> rest = [] then Some (take 1 (b64_bytes (262144 * x + 4096 * y))) else None)
          else (case b64_value c of
              None \<Rightarrow> None
            | Some z \<Rightarrow>
                if d = CHR ''='' then
                  (if rest = [] then Some (take 2 (b64_bytes (262144 * x + 4096 * y + 64 * z))) else None)
                else (case (b64_value d, b64_groups rest) of
                    (Some w, Some bs) \<Rightarrow> Some (b64_bytes (262144 * x + 4096 * y + 64 * z + w) @ bs)
                  | _ \<Rightarrow> None))
      | _ \<Rightarrow> None)"
| "b64_groups s = None"

text \<open>\<^verbatim>\<open>base64.StdEncoding.DecodeString\<close>, which skips line ends.\<close>

definition DecodeString :: "string \<Rightarrow> bytes option" where
  "DecodeString s = b64_groups (filter (\<lambda>c. (of_char c :: nat) \<noteq> 10 \<and> (of_char c :: nat) \<noteq> 13) s)"

text \<open>\<open>env\<close> is the value of \<^verbatim>\<open>BACKUP_STORAGE_KEY\<close>; no key is the empty list.\<close>

definition parseStorageKey :: "string \<Rightarrow> string \<Rightarrow> bytes result" where
  "parseStorageKey text env =
     (let text = TrimSpace text;
          text = (if text = [] then TrimSpace env else text)
      in if text = [] then Inr []
         else case DecodeString text of
           None \<Rightarrow> Inl ''invalid storage key (expected base64)''
         | Some key \<Rightarrow>
             if length key \<noteq> 32 then Inl ''storage key must decode to 32 bytes''
             else Inr key)"

subsection \<open>The capacity\<close>

text \<open>A \<^verbatim>\<open>float64\<close>. Multiplying by a power of two is exact until the result leaves the range.\<close>

datatype float64 = Finite rat | Infinite bool | NaN

definition times_power :: "float64 \<Rightarrow> int \<Rightarrow> float64" where
  "times_power f m =
     (case f of Finite q \<Rightarrow> if \<bar>q * of_int m\<bar> \<ge> 2 ^ 1024 then Infinite (q < 0) else Finite (q * of_int m) | _ \<Rightarrow> f)"

text \<open>\<^verbatim>\<open>int64(f)\<close>: outside of the range the result is the processor's, \<open>conv\<close>.\<close>

definition to_int64 :: "(float64 \<Rightarrow> int) \<Rightarrow> float64 \<Rightarrow> int" where
  "to_int64 conv f =
     (case f of
        Finite q \<Rightarrow> (let n = (if q < 0 then - \<lfloor>- q\<rfloor> else \<lfloor>q\<rfloor>) in if int64 n then n else conv f)
      | _ \<Rightarrow> conv f)"

definition capacity_units :: "(string \<times> int) list" where
  "capacity_units =
     [(''TIB'', 1024 * 1024 * 1024 * 1024), (''TB'', 1024 * 1024 * 1024 * 1024),
      (''GIB'', 1024 * 1024 * 1024), (''GB'', 1024 * 1024 * 1024), (''MIB'', 1024 * 1024), (''MB'', 1024 * 1024),
      (''KIB'', 1024), (''KB'', 1024), (''B'', 1)]"

definition parseCapacity ::
  "(string \<Rightarrow> string) \<Rightarrow> (string \<Rightarrow> float64 option) \<Rightarrow> (float64 \<Rightarrow> int) \<Rightarrow> string \<Rightarrow> int result" where
  "parseCapacity upper parseFloat conv value =
     (let raw = TrimSpace (upper value) in
      if raw = [] then Inl ''capacity is required''
      else
        let (multiplier, number) =
              (case find (\<lambda>u. HasSuffix raw (fst u)) capacity_units of
                 Some (suffix, mul) \<Rightarrow> (mul, TrimSpace (TrimSuffix raw suffix))
               | None \<Rightarrow> (1, raw))
        in (case parseFloat number of
              None \<Rightarrow> Inl ''invalid capacity''
            | Some parsed \<Rightarrow>
                if (case parsed of Finite q \<Rightarrow> q \<le> 0 | Infinite neg \<Rightarrow> neg | NaN \<Rightarrow> False)
                then Inl ''capacity must be positive''
                else Inr (to_int64 conv (times_power parsed multiplier))))"

subsection \<open>Base64\<close>

fun b64_encode :: "bytes \<Rightarrow> string" where
  "b64_encode [] = []"
| "b64_encode [a] = (let v = 65536 * unat a in [b64_char (v div 262144), b64_char (v div 4096 mod 64), CHR ''='', CHR ''=''])"
| "b64_encode [a, b] = (let v = 65536 * unat a + 256 * unat b in
     [b64_char (v div 262144), b64_char (v div 4096 mod 64), b64_char (v div 64 mod 64), CHR ''=''])"
| "b64_encode (a # b # c # rest) = (let v = 65536 * unat a + 256 * unat b + unat c in
     [b64_char (v div 262144), b64_char (v div 4096 mod 64), b64_char (v div 64 mod 64), b64_char (v mod 64)] @ b64_encode rest)"

lemma b64_char_value: "n < 64 \<Longrightarrow> b64_value (b64_char n) = Some n"
  by (auto simp: b64_char_def b64_value_def Let_def)

lemma b64_char_visible: "n < 64 \<Longrightarrow> visible (b64_char n)"
  by (auto simp: b64_char_def visible_def)

lemma b64_char_pad: "n < 64 \<Longrightarrow> b64_char n \<noteq> CHR ''=''"
  using b64_char_value [of n] by (auto simp: b64_value_def)

lemma byte_lt [simp]: "unat (a :: byte) < 256"
  using unsigned_less [of a, where 'a = nat] by simp

lemma word_of_unat_eq: "n mod 256 = unat (a :: byte) \<Longrightarrow> word_of_nat n = a"
  by (simp add: word_unat_eq_iff unat_of_nat)

lemma b64_bytes_group:
  "b64_bytes (65536 * unat a + 256 * unat b + unat c) = [a, b, c]"
proof -
  let ?a = "unat a" and ?b = "unat b" and ?c = "unat c"
  have "(65536 * ?a + 256 * ?b + ?c) div 65536 = ?a" "(65536 * ?a + 256 * ?b + ?c) div 256 = 256 * ?a + ?b"
    using byte_lt [of a] byte_lt [of b] byte_lt [of c] by linarith+
  moreover have "(256 * ?a + ?b) mod 256 = ?b" by simp
  then have "word_of_nat (256 * ?a + ?b) = b" by (rule word_of_unat_eq)
  moreover have "(256 * (256 * ?a + ?b) + ?c) mod 256 = ?c" by (simp only: mod_mult_self4 mod_less byte_lt)
  then have "word_of_nat (65536 * ?a + 256 * ?b + ?c) = c" by (intro word_of_unat_eq) (simp add: algebra_simps)
  ultimately show ?thesis by (simp add: b64_bytes_def)
qed

lemma sextets:
  assumes "v < 16777216"
  shows "262144 * (v div 262144) + 4096 * (v div 4096 mod 64) + 64 * (v div 64 mod 64) + v mod 64 = (v :: nat)"
    "v div 262144 < 64"
proof -
  have "v div 4096 div 64 = v div 262144" "v div 64 div 64 = v div 4096" by (simp_all add: div_mult2_eq [symmetric])
  with div_mult_mod_eq [of "v div 4096" 64] div_mult_mod_eq [of "v div 64" 64] div_mult_mod_eq [of v 64]
  show "262144 * (v div 262144) + 4096 * (v div 4096 mod 64) + 64 * (v div 64 mod 64) + v mod 64 = v" by linarith
  show "v div 262144 < 64" using assms by linarith
qed

lemma b64_decode_encode: "b64_groups (b64_encode bs) = Some bs"
proof (induction bs rule: b64_encode.induct)
  case (2 a)
  define v where "v = 65536 * unat a"
  have v: "v < 16777216" using byte_lt [of a] unfolding v_def by linarith
  have "v div 64 = 1024 * unat a" "v = 64 * (1024 * unat a)" unfolding v_def by linarith+
  then have "v div 64 mod 64 = 0" "v mod 64 = 0" by (simp_all add: mod_eq_0_iff_dvd)
  then have "262144 * (v div 262144) + 4096 * (v div 4096 mod 64) = v" using sextets(1) [OF v] by simp
  then show ?case using sextets(2) [OF v] b64_bytes_group [of a 0 0]
    by (simp add: b64_char_value Let_def v_def [symmetric] del: mult_Suc)
next
  case (3 a b)
  define v where "v = 65536 * unat a + 256 * unat b"
  have v: "v < 16777216" using byte_lt [of a] byte_lt [of b] unfolding v_def by linarith
  have "v = 64 * (1024 * unat a + 4 * unat b)" unfolding v_def by (simp add: algebra_simps)
  then have "v mod 64 = 0" by simp
  then have "262144 * (v div 262144) + 4096 * (v div 4096 mod 64) + 64 * (v div 64 mod 64) = v" using sextets(1) [OF v] by simp
  then show ?case using sextets(2) [OF v] b64_bytes_group [of a b 0] b64_char_pad
    by (simp add: b64_char_value Let_def v_def [symmetric])
next
  case (4 a b c rest)
  define v where "v = 65536 * unat a + 256 * unat b + unat c"
  have v: "v < 16777216" using byte_lt [of a] byte_lt [of b] byte_lt [of c] unfolding v_def by linarith
  show ?case using sextets [OF v] b64_bytes_group [of a b c] b64_char_pad 4
    by (simp add: b64_char_value Let_def v_def [symmetric])
qed simp

lemma b64_encode_visible: "list_all visible (b64_encode bs)"
proof (induction bs rule: b64_encode.induct)
  case (2 a)
  have "65536 * unat a div 262144 < 64" using byte_lt [of a] by linarith
  then show ?case using b64_char_visible by (simp add: Let_def) (simp add: visible_def)
next
  case (3 a b)
  have "(65536 * unat a + 256 * unat b) div 262144 < 64" using byte_lt [of a] byte_lt [of b] by linarith
  then show ?case using b64_char_visible by (simp add: Let_def) (simp add: visible_def)
next
  case (4 a b c rest)
  have "(65536 * unat a + 256 * unat b + unat c) div 262144 < 64" using byte_lt [of a] byte_lt [of b] byte_lt [of c] by linarith
  with 4 show ?case using b64_char_visible by (simp add: Let_def)
qed simp

lemma b64_encode_Nil [simp]: "b64_encode bs = [] \<longleftrightarrow> bs = []" "[] = b64_encode bs \<longleftrightarrow> bs = []"
  by (cases bs rule: b64_encode.cases; simp add: Let_def)+

lemma DecodeString_encode: "DecodeString (b64_encode bs) = Some bs"
proof -
  have "filter (\<lambda>c. (of_char c :: nat) \<noteq> 10 \<and> (of_char c :: nat) \<noteq> 13) (b64_encode bs) = b64_encode bs"
    using b64_encode_visible [of bs] by (subst filter_id_conv) (auto simp: list_all_iff visible_def)
  then show ?thesis by (simp add: DecodeString_def b64_decode_encode)
qed

text \<open>
  C34: the key of a store. The key a node uses is none, when neither the setting nor the environment has
  anything but white space, or 32 bytes long, so opening the store never fails for its length. The text
  an operator gets by encoding 32 bytes in base 64 is read back as these bytes, with white space around
  it or not, and from the environment when the setting is empty.
\<close>

theorem storage_key_roundtrip:
  assumes "length key = 32" and "TrimSpace text = b64_encode key \<or> TrimSpace text = [] \<and> TrimSpace env = b64_encode key"
  shows "parseStorageKey text env = Inr key \<and>
    (\<forall>t' e' k'. parseStorageKey t' e' = Inr k' \<longrightarrow>
       (k' = [] \<longleftrightarrow> TrimSpace t' = [] \<and> TrimSpace e' = []) \<and> (k' = [] \<or> length k' = 32) \<and>
       (\<forall>io root fs n. New io root k' fs \<noteq> Inl (BadKeyLength n)))"
proof -
  have "key \<noteq> []" using assms(1) by auto
  then have "b64_encode key \<noteq> []" by simp
  with assms have "parseStorageKey text env = Inr key"
    by (auto simp: parseStorageKey_def Let_def DecodeString_encode)
  moreover have "(k' = [] \<longleftrightarrow> TrimSpace t' = [] \<and> TrimSpace e' = []) \<and> (k' = [] \<or> length k' = 32) \<and>
       (\<forall>io root fs n. New io root k' fs \<noteq> Inl (BadKeyLength n))"
    if "parseStorageKey t' e' = Inr k'" for t' e' k'
    using that by (auto simp: parseStorageKey_def Let_def New_def scanUsed_def split: if_splits option.splits sum.splits)
  ultimately show ?thesis by blast
qed

lemma TrimSpace_b64: "TrimSpace (b64_encode bs) = b64_encode bs"
proof (cases "b64_encode bs = []")
  case False
  then have "hd (b64_encode bs) \<in> set (b64_encode bs)" "last (b64_encode bs) \<in> set (b64_encode bs)" by simp_all
  then have "visible (hd (b64_encode bs))" "visible (last (b64_encode bs))"
    using b64_encode_visible [of bs] by (simp_all only: list_all_iff)
  with False show ?thesis by (rule TrimSpace_visible)
qed simp

theorem storage_key_roundtrip_witness:
  "parseStorageKey [] (b64_encode (map word_of_nat [0..<32])) = Inr (map word_of_nat [0..<32])"
  using storage_key_roundtrip [of "map word_of_nat [0..<32]" "[]" "b64_encode (map word_of_nat [0..<32])"]
  by (simp only: TrimSpace_b64 TrimSpace_Nil length_map length_upt) simp


subsection \<open>Units\<close>

definition ascii_upper :: "char \<Rightarrow> char" where
  "ascii_upper c = (let n = of_char c in if 97 \<le> n \<and> n \<le> 122 then char_of (n - 32 :: nat) else c)"

lemma is_digit_upper: "is_digit c \<Longrightarrow> ascii_upper c = c \<and> (of_char c :: nat) < 128 \<and> visible c"
  by (auto simp: is_digit_def ascii_upper_def visible_def Let_def)

lemma last_digits: "is_digit (last (digits k))"
  using digits_are_digits [of k] by (auto simp: list_all_iff)

lemma hd_digits: "is_digit (hd (digits k))"
  using digits_are_digits [of k] by (auto simp: list_all_iff)

lemma suffix_of_digits:
  assumes "HasPrefix (rev (digits k @ sp) @ xs) (c # cs)" and "sp = [] \<or> sp = '' ''"
  shows "is_digit c \<or> c = CHR '' ''"
  using assms last_digits [of k] by (cases "digits k" rule: rev_cases) auto

lemma blank_char: "CHR '' '' = char_of (n :: nat) \<longleftrightarrow> n mod 256 = 32"
  by (subst eq_commute, subst char_of_eq_iff) (simp add: take_bit_eq_mod)

lemma TrimSpace_blank:
  assumes "s \<noteq> []" and "visible (hd s)" and "visible (last s)"
  shows "TrimSpace (s @ '' '') = s"
proof -
  have inv: "\<not> HasPrefix t p" if "p \<in> set space_seqs" "p \<noteq> []" "t \<noteq> []" "visible (hd t)" for t p
    using that space_seqs_invisible by (auto simp: HasPrefix_iff)
  have inv': "\<not> HasPrefix (rev s) p" if "p \<in> set (map rev space_seqs)" "p \<noteq> []" for p
  proof -
    have "\<not> visible (hd p)" using that space_seqs_invisible by (auto simp: hd_rev)
    moreover have "visible (hd (rev s))" using assms by (simp add: hd_rev)
    ultimately show ?thesis using that by (auto simp: HasPrefix_iff)
  qed
  have "dropSeqs space_seqs (s @ '' '') = s @ '' ''"
    using inv [of _ "s @ '' ''"] assms by (intro dropSeqs_fixed) auto
  moreover have "find (\<lambda>p. p \<noteq> [] \<and> HasPrefix (CHR '' '' # rev s) p) (map rev space_seqs) = Some '' ''"
    by (simp add: space_seqs_def blank_char) (simp add: char_of_eq_iff)
  then have "dropSeqs (map rev space_seqs) (CHR '' '' # rev s) = dropSeqs (map rev space_seqs) (rev s)"
    by (subst dropSeqs.simps) simp
  moreover have "dropSeqs (map rev space_seqs) (rev s) = rev s"
    using inv' by (intro dropSeqs_fixed) auto
  ultimately show ?thesis by (simp add: TrimSpace_def)
qed

lemma find_unit_rev:
  assumes "\<And>cs. \<not> HasPrefix x (CHR ''I'' # cs)" "\<And>cs. \<not> HasPrefix x (CHR ''T'' # cs)" "\<And>cs. \<not> HasPrefix x (CHR ''G'' # cs)"
    "\<And>cs. \<not> HasPrefix x (CHR ''M'' # cs)" "\<And>cs. \<not> HasPrefix x (CHR ''K'' # cs)"
  shows "\<forall>u \<in> set capacity_units. find (\<lambda>v. HasPrefix (rev (fst u) @ x) (rev (fst v))) capacity_units = Some u"
  unfolding capacity_units_def by (simp add: assms)

lemma find_unit:
  assumes "u \<in> set capacity_units" and "sp = [] \<or> sp = '' ''"
  shows "find (\<lambda>v. HasSuffix (digits k @ sp @ fst u) (fst v)) capacity_units = Some u"
proof -
  have no: "\<not> HasPrefix (rev (digits k @ sp)) (c # cs)" if "\<not> is_digit c" "c \<noteq> CHR '' ''" for c cs
    using suffix_of_digits [of k sp "[]" c cs] assms(2) that by auto
  have "rev (digits k @ sp @ fst u) = rev (fst u) @ rev (digits k @ sp)" by simp
  then show ?thesis
    unfolding HasSuffix_def
    using find_unit_rev [of "rev (digits k @ sp)", THEN bspec, OF _ _ _ _ _ assms(1)] no
    by (simp only: is_digit_def) (simp add: is_digit_def)
qed

lemma parseCapacity_units:
  assumes upper: "\<And>s. list_all (\<lambda>c. (of_char c :: nat) < 128) s \<Longrightarrow> upper s = map ascii_upper s"
    and float: "\<And>n. n < 2 ^ 53 \<Longrightarrow> parseFloat (digits n) = Some (Finite (of_nat n))"
    and "(name, mul) \<in> set capacity_units" and "map ascii_upper suffix = name"
    and "list_all (\<lambda>c. (of_char c :: nat) < 128) suffix" and "sp = [] \<or> sp = '' ''"
    and "0 < k" "k < 2 ^ 53" "int k * mul < 2 ^ 63"
  shows "parseCapacity upper parseFloat conv (digits k @ sp @ suffix) = Inr (int k * mul)"
proof -
  let ?raw = "digits k @ sp @ name"
  have sp: "map ascii_upper sp = sp" "list_all (\<lambda>c. (of_char c :: nat) < 128) sp"
    using assms(6) by (auto simp: ascii_upper_def)
  have d: "map ascii_upper (digits k) = digits k" "list_all (\<lambda>c. (of_char c :: nat) < 128) (digits k)"
    using digits_are_digits [of k] is_digit_upper by (auto simp: list_all_iff intro!: map_idI)
  have up: "upper (digits k @ sp @ suffix) = ?raw"
    by (subst upper) (use sp d assms(4,5) in simp_all)
  have name: "name \<noteq> []" "visible (last name)" "1 \<le> mul" "mul \<le> 2 ^ 40"
    using assms(3) by (auto simp: capacity_units_def visible_def)
  have trim: "TrimSpace ?raw = ?raw"
    by (rule TrimSpace_visible) (use name hd_digits [of k] is_digit_upper in auto)
  have trim_digits: "TrimSpace (digits k) = digits k"
    by (rule TrimSpace_visible) (use hd_digits [of k] last_digits [of k] is_digit_upper in auto)
  then have number: "TrimSpace (digits k @ sp) = digits k"
    using assms(6) TrimSpace_blank [of "digits k"] hd_digits [of k] last_digits [of k] is_digit_upper by auto
  have find: "find (\<lambda>u. HasSuffix ?raw (fst u)) capacity_units = Some (name, mul)"
    using find_unit [OF assms(3,6), of k] by simp
  have suf: "TrimSuffix ?raw name = digits k @ sp" using TrimSuffix_append [of "digits k @ sp" name] by simp
  have "\<bar>(of_nat k :: rat) * of_int mul\<bar> = of_int (int k * mul)" using name(3) by simp
  also have "\<dots> < 2 ^ 1024"
  proof -
    have "int k * mul < 2 ^ 1024" using assms(9) by (rule less_le_trans) simp
    then have "(of_int (int k * mul) :: rat) < of_int (2 ^ 1024)" by (simp only: of_int_less_iff)
    then show ?thesis by simp
  qed
  finally have t: "times_power (Finite (of_nat k)) mul = Finite (of_int (int k * mul))"
    by (simp add: times_power_def)
  have "int64 (int k * mul)" using assms(9) name(3) by (simp add: int64_def) (smt (verit) mult_nonneg_nonneg of_nat_0_le_iff)
  then have c: "to_int64 conv (Finite (of_int (int k * mul))) = int k * mul"
    using name(3) by (simp add: to_int64_def del: of_int_mult)
  show ?thesis
    using trim number find suf float [OF assms(8)] assms(7) t c
    by (simp add: parseCapacity_def up Let_def del: of_int_mult)
qed


text \<open>
  C35: the capacity means what it says. A number of units, with a space or without, in upper or lower case,
  becomes that many bytes, where a unit is a power of 1024: \<^verbatim>\<open>GiB\<close> is not taken for \<^verbatim>\<open>B\<close>, although it ends
  in it. The hypotheses are what \<^verbatim>\<open>strings.ToUpper\<close> does to ASCII and \<^verbatim>\<open>strconv.ParseFloat\<close> to a natural
  number that a \<^verbatim>\<open>float64\<close> holds exactly.
\<close>

theorem capacity_in_units:
  assumes upper: "\<And>s. list_all (\<lambda>c. (of_char c :: nat) < 128) s \<Longrightarrow> upper s = map ascii_upper s"
    and float: "\<And>n. n < 2 ^ 53 \<Longrightarrow> parseFloat (digits n) = Some (Finite (of_nat n))"
    and "(name, mul) \<in> set capacity_units" and "map ascii_upper suffix = name"
    and "list_all (\<lambda>c. (of_char c :: nat) < 128) suffix" and "sp = [] \<or> sp = '' ''"
    and "0 < k" "k < 2 ^ 53" "int k * mul < 2 ^ 63"
  shows "parseCapacity upper parseFloat conv (digits k @ sp @ suffix) = Inr (int k * mul)"
  by (rule parseCapacity_units [OF assms])

text \<open>A parser of decimal digits, for an example.\<close>

definition demo_float :: "string \<Rightarrow> float64 option" where
  "demo_float s = (if list_all is_digit s then Some (Finite (of_int (digits_value s))) else None)"

theorem capacity_in_units_witness:
  "parseCapacity (map ascii_upper) demo_float (\<lambda>_. 0) ''10 GiB'' = Inr 10737418240"
proof -
  have "digits 10 = ''10''" by code_simp
  moreover have "map ascii_upper ''GiB'' = ''GIB''" by code_simp
  moreover have "parseCapacity (map ascii_upper) demo_float (\<lambda>_. 0) (digits 10 @ '' '' @ ''GiB'') = Inr (int 10 * 1073741824)"
    by (rule capacity_in_units [where name = "''GIB''"])
      (simp_all add: demo_float_def digits_are_digits digits_value_digits capacity_units_def ascii_upper_def Let_def char_of_eq_iff)
  ultimately show ?thesis by simp
qed

text \<open>\<^verbatim>\<open>NaN\<close> is not below zero: it passes the check, and the capacity is whatever the conversion yields.\<close>

lemma capacity_nan:
  assumes "parseFloat ''NAN'' = Some NaN" and "upper ''nan'' = ''NAN''"
  shows "parseCapacity upper parseFloat conv ''nan'' = Inr (conv NaN)"
proof -
  have "TrimSpace ''NAN'' = ''NAN''" by (rule TrimSpace_visible) (simp_all add: visible_def)
  then show ?thesis using assms
    by (simp add: parseCapacity_def capacity_units_def HasSuffix_def times_power_def to_int64_def)
qed

subsection \<open>Where a setting comes from\<close>

lemma override_nodeConfig_sel:
  "nc_id (override_nodeConfig ov c v) = (if nc_id c \<noteq> [] \<and> \<not> ov ''id'' then nc_id c else nc_id v)"
  "nc_addr (override_nodeConfig ov c v) = (if nc_addr c \<noteq> [] \<and> \<not> ov ''addr'' then nc_addr c else nc_addr v)"
  "nc_publicAddr (override_nodeConfig ov c v) = (if nc_publicAddr c \<noteq> [] \<and> \<not> ov ''public-addr'' then nc_publicAddr c else nc_publicAddr v)"
  "nc_server (override_nodeConfig ov c v) = (if nc_server c \<noteq> [] \<and> \<not> ov ''server'' then nc_server c else nc_server v)"
  "nc_storage (override_nodeConfig ov c v) = (if nc_storage c \<noteq> [] \<and> \<not> ov ''storage'' then nc_storage c else nc_storage v)"
  "nc_capacity (override_nodeConfig ov c v) = (if nc_capacity c \<noteq> [] \<and> \<not> ov ''capacity'' then nc_capacity c else nc_capacity v)"
  "nc_wipeStorage (override_nodeConfig ov c v) = (if nc_wipeStorage c \<and> \<not> ov ''wipe-storage'' then nc_wipeStorage c else nc_wipeStorage v)"
  "nc_authToken (override_nodeConfig ov c v) = (if nc_authToken c \<noteq> [] \<and> \<not> ov ''auth-token'' then nc_authToken c else nc_authToken v)"
  "nc_storageKey (override_nodeConfig ov c v) = (if nc_storageKey c \<noteq> [] \<and> \<not> ov ''storage-key'' then nc_storageKey c else nc_storageKey v)"
  "nc_certFile (override_nodeConfig ov c v) = (if nc_certFile c \<noteq> [] \<and> \<not> ov ''cert-file'' then nc_certFile c else nc_certFile v)"
  "nc_keyFile (override_nodeConfig ov c v) = (if nc_keyFile c \<noteq> [] \<and> \<not> ov ''key-file'' then nc_keyFile c else nc_keyFile v)"
  "nc_caCertFile (override_nodeConfig ov c v) = (if nc_caCertFile c \<noteq> [] \<and> \<not> ov ''ca-cert-file'' then nc_caCertFile c else nc_caCertFile v)"
  "nc_insecure (override_nodeConfig ov c v) = (if nc_insecure c \<and> \<not> ov ''insecure-skip-verify'' then nc_insecure c else nc_insecure v)"
  unfolding override_nodeConfig_def Let_def
  subgoal by (simp add: assign_other [where g = nc_id] assign_same [where g = nc_id and k = "nc_id c"])
  subgoal by (simp add: assign_other [where g = nc_addr] assign_same [where g = nc_addr and k = "nc_addr c"])
  subgoal by (simp add: assign_other [where g = nc_publicAddr] assign_same [where g = nc_publicAddr and k = "nc_publicAddr c"])
  subgoal by (simp add: assign_other [where g = nc_server] assign_same [where g = nc_server and k = "nc_server c"])
  subgoal by (simp add: assign_other [where g = nc_storage] assign_same [where g = nc_storage and k = "nc_storage c"])
  subgoal by (simp add: assign_other [where g = nc_capacity] assign_same [where g = nc_capacity and k = "nc_capacity c"])
  subgoal by (simp add: assign_other [where g = nc_wipeStorage] assign_same [where g = nc_wipeStorage and k = "nc_wipeStorage c"])
  subgoal by (simp add: assign_other [where g = nc_authToken] assign_same [where g = nc_authToken and k = "nc_authToken c"])
  subgoal by (simp add: assign_other [where g = nc_storageKey] assign_same [where g = nc_storageKey and k = "nc_storageKey c"])
  subgoal by (simp add: assign_other [where g = nc_certFile] assign_same [where g = nc_certFile and k = "nc_certFile c"])
  subgoal by (simp add: assign_other [where g = nc_keyFile] assign_same [where g = nc_keyFile and k = "nc_keyFile c"])
  subgoal by (simp add: assign_other [where g = nc_caCertFile] assign_same [where g = nc_caCertFile and k = "nc_caCertFile c"])
  subgoal by (simp add: assign_other [where g = nc_insecure] assign_same [where g = nc_insecure and k = "nc_insecure c"])
  done

definition node_string_settings :: "(string \<times> (nodeConfig \<Rightarrow> string)) list" where
  "node_string_settings =
     [(''id'', nc_id), (''addr'', nc_addr), (''public-addr'', nc_publicAddr), (''server'', nc_server),
      (''storage'', nc_storage), (''capacity'', nc_capacity), (''auth-token'', nc_authToken),
      (''storage-key'', nc_storageKey), (''cert-file'', nc_certFile), (''key-file'', nc_keyFile),
      (''ca-cert-file'', nc_caCertFile)]"

definition node_bool_settings :: "(string \<times> (nodeConfig \<Rightarrow> bool)) list" where
  "node_bool_settings = [(''wipe-storage'', nc_wipeStorage), (''insecure-skip-verify'', nc_insecure)]"

lemma Parse_default:
  assumes "Parse dur (NewFlagSet formal) args = Parsed fs rest" and "\<not> visitedFlags fs name" and "map_of formal name = Some v"
  shows "map_of (fs_formal fs) name = Some v"
  using Parse_refines [OF assms(1)] assms(2,3) by (auto simp: refines_flags_def NewFlagSet_def visitedFlags_def)

text \<open>
  C33: the order of precedence. When a node starts, every setting is the one of its flag, if the flag was
  given, whatever its value; otherwise the one of the configuration file, if there is a file that was read
  and the setting is not empty in it; otherwise the built-in default. A switch that was not given is on
  exactly when the file turns it on.
\<close>

theorem node_settings_precedence:
  assumes "Parse dur (NewFlagSet node_flags) args = Parsed fs rest"
    and "node_settings readFile unmarshal fs = Inr s"
  shows "\<exists>cfg. (if flag_string fs ''config'' = [] then cfg = None
        else \<exists>c. readConfig readFile unmarshal (flag_string fs ''config'') = Inr c \<and> cfg = Some c) \<and>
    (\<forall>(name, field) \<in> set node_string_settings.
       field s = (if visitedFlags fs name then flag_string fs name
                  else case cfg of Some c \<Rightarrow> if field c \<noteq> [] then field c else flag_string (NewFlagSet node_flags) name
                                 | None \<Rightarrow> flag_string (NewFlagSet node_flags) name)) \<and>
    (\<forall>(name, field) \<in> set node_bool_settings.
       field s = (if visitedFlags fs name then flag_bool fs name else case cfg of Some c \<Rightarrow> field c | None \<Rightarrow> False))"
proof -
  have dflt: "flag_string fs name = flag_string (NewFlagSet node_flags) name" "flag_bool fs name = flag_bool (NewFlagSet node_flags) name"
    if "\<not> visitedFlags fs name" "name \<in> fst ` set node_flags" for name
  proof -
    from that(2) obtain v where v: "map_of node_flags name = Some v" by (metis map_of_eq_None_iff not_None_eq)
    from Parse_default [OF assms(1) that(1) v] v
    show "flag_string fs name = flag_string (NewFlagSet node_flags) name" "flag_bool fs name = flag_bool (NewFlagSet node_flags) name"
      by (simp_all add: flag_string_def flag_bool_def NewFlagSet_def)
  qed
  note d = dflt [unfolded node_flags_def, simplified, folded node_flags_def]
  have off: "\<not> flag_bool (NewFlagSet node_flags) ''wipe-storage''" "\<not> flag_bool (NewFlagSet node_flags) ''insecure-skip-verify''"
    by (simp_all add: flag_bool_def NewFlagSet_def node_flags_def)
  note lists = node_string_settings_def node_bool_settings_def list.set ball_simps prod.case option.case
  show ?thesis
  proof (cases "flag_string fs ''config'' = []")
    case True
    with assms(2) have s: "s = node_values fs" by (simp add: node_settings_def)
    show ?thesis unfolding lists
      by (rule exI [of _ None], intro conjI; (unfold lists)?; (intro conjI)?; simp add: True d off s node_values_def)
  next
    case False
    then obtain c where c: "readConfig readFile unmarshal (flag_string fs ''config'') = Inr c"
      "s = override_nodeConfig (visitedFlags fs) c (node_values fs)"
      using assms(2) by (auto simp: node_settings_def split: sum.splits)
    show ?thesis unfolding lists
      by (rule exI [of _ "Some c"], intro conjI; (unfold lists)?; (intro conjI)?;
          simp add: False c d off override_nodeConfig_sel; simp add: d off node_values_def)
  qed
qed


definition demo_nodeConfig :: nodeConfig where
  "demo_nodeConfig =
     \<lparr>nc_id = ''other'', nc_addr = '':1'', nc_publicAddr = [], nc_server = [], nc_storage = [], nc_capacity = [],
      nc_wipeStorage = False, nc_authToken = [], nc_storageKey = [], nc_certFile = [], nc_keyFile = [], nc_caCertFile = [],
      nc_insecure = False\<rparr>"

definition demo_node_args :: "string list" where
  "demo_node_args = [''-id'', ''n7'', ''--config=c'']"

definition demo_node_fs :: FlagSet where
  "demo_node_fs = put_flag ''config'' (VString ''c'') (put_flag ''id'' (VString ''n7'') (NewFlagSet node_flags))"

lemma demo_node_parse: "Parse (\<lambda>_. Inl []) (NewFlagSet node_flags) demo_node_args = Parsed demo_node_fs []"
  by code_simp

lemma demo_node_flags:
  "flag_string demo_node_fs ''config'' = ''c''" "flag_string demo_node_fs ''id'' = ''n7''"
  "visitedFlags demo_node_fs ''id''" "\<not> visitedFlags demo_node_fs ''addr''" "\<not> visitedFlags demo_node_fs ''capacity''"
  "flag_string (NewFlagSet node_flags) ''capacity'' = ''10GB''"
  by code_simp+

theorem node_settings_precedence_witness:
  "\<exists>s. node_settings (\<lambda>_. Inr []) (\<lambda>_. Inr demo_nodeConfig) demo_node_fs = Inr s \<and>
     nc_id s = ''n7'' \<and> nc_addr s = '':1'' \<and> nc_capacity s = ''10GB''"
proof -
  have c: "readConfig (\<lambda>_. Inr []) (\<lambda>_. Inr demo_nodeConfig) p = Inr demo_nodeConfig" for p by (simp add: readConfig_def)
  have "\<exists>s. node_settings (\<lambda>_. Inr []) (\<lambda>_. Inr demo_nodeConfig) demo_node_fs = Inr s"
    by (simp add: node_settings_def c demo_node_flags(1))
  then obtain s where s: "node_settings (\<lambda>_. Inr []) (\<lambda>_. Inr demo_nodeConfig) demo_node_fs = Inr s" by blast
  note p = node_settings_precedence [OF demo_node_parse s, unfolded c demo_node_flags(1)]
  have "(''id'', nc_id) \<in> set node_string_settings" "(''addr'', nc_addr) \<in> set node_string_settings"
    "(''capacity'', nc_capacity) \<in> set node_string_settings" by (simp_all add: node_string_settings_def)
  note n = this
  from p obtain cfg where cfg: "cfg = Some demo_nodeConfig"
    and q: "\<forall>(name, field) \<in> set node_string_settings.
       field s = (if visitedFlags demo_node_fs name then flag_string demo_node_fs name
                  else case cfg of Some c \<Rightarrow> if field c \<noteq> [] then field c else flag_string (NewFlagSet node_flags) name
                                 | None \<Rightarrow> flag_string (NewFlagSet node_flags) name)" by auto
  note q = q [unfolded cfg, THEN bspec]
  have "nc_id s = ''n7'' \<and> nc_addr s = '':1'' \<and> nc_capacity s = ''10GB''"
    using q [OF n(1)] q [OF n(2)] q [OF n(3)] by (simp add: demo_node_flags demo_nodeConfig_def)
  with s show ?thesis by blast
qed

end
