(* ===== verification/NodeMain.thy ===== *)
theory NodeMain
  imports NodeConfig Client Addresses
begin

text \<open>
  The process of a storage node (\<^verbatim>\<open>main\<close>, \<^verbatim>\<open>register\<close> and \<^verbatim>\<open>heartbeatLoop\<close> of
  \<^verbatim>\<open>cmd/backup-node/main.go\<close>): what the start-up makes of the command line, the configuration and
  the environment, and how the node announces itself to the server.
\<close>

text \<open>
  The host of a node: its files, the environment, what \<^verbatim>\<open>encoding/json\<close>, \<^verbatim>\<open>crypto/x509\<close>,
  \<^verbatim>\<open>strings.ToUpper\<close> and \<^verbatim>\<open>strconv.ParseFloat\<close> make of their arguments, and the chunk files below a
  directory.
\<close>

record 'cert node_host =
  nh_getenv :: "string \<Rightarrow> string"
  nh_readFile :: "string \<Rightarrow> bytes result"
  nh_unmarshal :: "bytes \<Rightarrow> nodeConfig result"
  nh_certsIn :: "bytes \<Rightarrow> 'cert list"
  nh_systemPool :: "'cert list result"
  nh_upper :: "string \<Rightarrow> string"
  nh_parseFloat :: "string \<Rightarrow> float64 option"
  nh_conv :: "float64 \<Rightarrow> int"
  nh_files :: "string \<Rightarrow> files"

record 'cert node_process =
  np_node :: Node
  np_id :: string
  np_publicAddr :: string
  np_server :: string
  np_transport :: "'cert transport"
  np_listen :: "listener result"

datatype 'cert node_start =
    NodeExit int
  | NodeFatal string
  | NodeStoreFatal store_error
  | NodeWiped int int Store
  | NodeRunning "'cert node_process"

text \<open>\<open>io\<close> are the system calls of opening the store, \<open>io'\<close> those of wiping it.\<close>

definition start_node :: "'cert node_host \<Rightarrow> io_env \<Rightarrow> io_env \<Rightarrow> nodeConfig \<Rightarrow> 'cert node_start" where
  "start_node ho io io' s =
     (case HTTPClient (nh_readFile ho) (nh_certsIn ho) (nh_systemPool ho)
          \<lparr>ct_caCertFile = nc_caCertFile s, ct_insecure = nc_insecure s\<rparr> of
        Inl err \<Rightarrow> NodeFatal err
      | Inr client \<Rightarrow>
          (case parseCapacity (nh_upper ho) (nh_parseFloat ho) (nh_conv ho) (nc_capacity s) of
             Inl err \<Rightarrow> NodeFatal err
           | Inr capacity \<Rightarrow>
               (case parseStorageKey (nc_storageKey s) (nh_getenv ho ''BACKUP_STORAGE_KEY'') of
                  Inl err \<Rightarrow> NodeFatal err
                | Inr key \<Rightarrow>
                    (case New io (nc_storage s) key (nh_files ho (nc_storage s)) of
                       Inl err \<Rightarrow> NodeStoreFatal err
                     | Inr store \<Rightarrow>
                         if nc_wipeStorage s then
                           (case Clear io' store of
                              (Inl err, _) \<Rightarrow> NodeStoreFatal err
                            | (Inr (removed, freed), store) \<Rightarrow> NodeWiped removed freed store)
                         else
                           (let token = Resolve (nc_authToken s) (nh_getenv ho ''BACKUP_AUTH_TOKEN'') in
                            if token = [] then NodeFatal ''auth token is required''
                            else NodeRunning
                              \<lparr>np_node = \<lparr>nd_store = store, nd_capacity = capacity, nd_token = token\<rparr>,
                               np_id = nc_id s, np_publicAddr = nc_publicAddr s, np_server = nc_server s,
                               np_transport = client,
                               np_listen = ListenAndServe (nc_addr s)
                                 \<lparr>st_certFile = nc_certFile s, st_keyFile = nc_keyFile s\<rparr>\<rparr>)))))"

definition node_main :: "'cert node_host \<Rightarrow> io_env \<Rightarrow> io_env \<Rightarrow> string list \<Rightarrow> 'cert node_start" where
  "node_main ho io io' args =
     (case Parse (\<lambda>_. Inl ''no duration'') (NewFlagSet node_flags) args of
        Help \<Rightarrow> NodeExit 0
      | Usage _ \<Rightarrow> NodeExit 2
      | Parsed fs _ \<Rightarrow>
          (case node_settings (nh_readFile ho) (nh_unmarshal ho) fs of
             Inl err \<Rightarrow> NodeFatal err
           | Inr s \<Rightarrow> start_node ho io io' s))"

subsection \<open>Announcing the node\<close>

text \<open>The request of \<^verbatim>\<open>register\<close>; the handler behind it reads no query.\<close>

definition register_request :: "string \<Rightarrow> NodeRegisterRequest \<Rightarrow> server_body Request" where
  "register_request path req =
     \<lparr>rq_method = ''POST'', rq_path = path, rq_query = [], rq_authorization = [],
      rq_body = \<lparr>sb_register = Inr req, sb_plan = Inl ''not a plan'', sb_confirm = Inl ''not a confirmation'',
        sb_create = Inl ''not a file'', sb_replication = Inl ''not a replication'', sb_parts = (\<lambda>_. Inl ''not multipart'')\<rparr>\<rparr>"

definition register :: "exchange \<Rightarrow> string \<Rightarrow> NodeRegisterRequest \<Rightarrow> World \<Rightarrow> unit result \<times> World" where
  "register send serverURL req w =
     (case url_Parse (serverURL @ ''/nodes/register'') of
        Inl err \<Rightarrow> (Inl err, w)
      | Inr u \<Rightarrow>
          (case send (register_request (pu_path u) req) w of
             (Inl err, w) \<Rightarrow> (Inl err, w)
           | (Inr resp, w) \<Rightarrow> if rs_status resp \<ge> 300 then (Inl ''server refused'', w) else (Inr (), w)))"

text \<open>What \<^verbatim>\<open>main\<close> does once and \<^verbatim>\<open>heartbeatLoop\<close> every 15 seconds; an error is only logged.\<close>

definition heartbeatInterval :: nanos where
  "heartbeatInterval = 15 * 10 ^ 9"

definition heartbeat :: "('cert transport \<Rightarrow> exchange) \<Rightarrow> 'cert node_process \<Rightarrow> World \<Rightarrow> unit result \<times> World" where
  "heartbeat net p w =
     (let n = np_node p;
          req = nodeRegisterRequest (nd_store n) (np_id p) (np_publicAddr p) (nd_capacity n)
      in register (withToken (net (np_transport p)) (nd_token n)) (np_server p) req w)"

subsection \<open>A node that serves is guarded\<close>

lemma New_facts:
  "New io dir key fs = Inr s \<Longrightarrow> (Encrypted s \<longleftrightarrow> key \<noteq> []) \<and> st_root s = dir \<and> st_files s = fs"
  by (auto simp: New_def Encrypted_def split: if_splits sum.splits)

lemma key_empty: "parseStorageKey t e = Inr key \<Longrightarrow> key = [] \<longleftrightarrow> TrimSpace t = [] \<and> TrimSpace e = []"
  by (auto simp: parseStorageKey_def Let_def split: if_splits option.splits)

lemma start_node_running:
  assumes "start_node ho io io' s = NodeRunning p"
  shows "\<not> nc_wipeStorage s" "nd_token (np_node p) = Resolve (nc_authToken s) (nh_getenv ho ''BACKUP_AUTH_TOKEN'')"
    "nd_token (np_node p) \<noteq> []" "st_root (nd_store (np_node p)) = nc_storage s"
    "st_files (nd_store (np_node p)) = nh_files ho (nc_storage s)"
    "Encrypted (nd_store (np_node p)) \<longleftrightarrow> \<not> (TrimSpace (nc_storageKey s) = [] \<and> TrimSpace (nh_getenv ho ''BACKUP_STORAGE_KEY'') = [])"
    "np_id p = nc_id s" "np_publicAddr p = nc_publicAddr s" "np_server p = nc_server s"
    "np_listen p = ListenAndServe (nc_addr s) \<lparr>st_certFile = nc_certFile s, st_keyFile = nc_keyFile s\<rparr>"
  using assms
  by (auto simp: start_node_def Let_def dest!: New_facts key_empty split: sum.splits if_splits prod.splits)

lemma node_main_running:
  assumes "node_main ho io io' args = NodeRunning p"
  obtains fs rest s where "Parse (\<lambda>_. Inl ''no duration'') (NewFlagSet node_flags) args = Parsed fs rest"
    "node_settings (nh_readFile ho) (nh_unmarshal ho) fs = Inr s" "start_node ho io io' s = NodeRunning p"
  using assms by (auto simp: node_main_def split: parsed.splits sum.splits)

lemma unauthorized_node:
  assumes "\<not> node_public r" and "\<not> ValidBearer (rq_authorization r) (nd_token n)"
  shows "node_handler io r n = (respond StatusUnauthorized Unauthorized, n)"
  using assms by (simp add: node_handler_def Middleware_def)


subsection \<open>Heartbeats\<close>

lemma served_register:
  assumes "TrimSpace token = hd_token h" and "rr_id req \<noteq> []" "rr_address req \<noteq> []" and "nrm (rr_address req) = Inr a"
  shows "withToken (served nrm h e date uuid) token (register_request ''/nodes/register'' req) w =
    (case tell e (\<lambda>eng now. RegisterNode eng now (req\<lparr>rr_address := a\<rparr>)) w of
       (node, w) \<Rightarrow> (Inr (respond StatusOK (RNode node)), w))"
  by (simp add: served_token [OF assms(1)] server_mux_def register_request_def registerNode_def assms(2-4) split_beta)

text \<open>
  C13: a heartbeat keeps a node online. When a heartbeat reaches a server with the same token and the
  statement runs, then for the next 44 seconds, which covers one lost heartbeat, the server has the node
  under its identifier and its normalized address, online, with the capacity it reserves and the free space
  it has left, which is never negative and never more than the capacity.
\<close>

theorem heartbeat_keeps_online:
  assumes "net (np_transport p) = served normalizeNodeAddress h e date uuid"
    and "TrimSpace (nd_token (np_node p)) = hd_token h"
    and "url_Parse (np_server p @ ''/nodes/register'') = Inr u" and "pu_path u = ''/nodes/register''"
    and "np_id p \<noteq> []" and "np_publicAddr p \<noteq> []" and "normalizeNodeAddress (np_publicAddr p) = Inr a"
    and "ev_eng e (w_tick w) 0" and "0 \<le> nd_capacity (np_node p)" and "0 \<le> Used (nd_store (np_node p))"
  shows "\<exists>w' free. heartbeat net p w = (Inr (), w') \<and> 0 \<le> free \<and> free \<le> nd_capacity (np_node p) \<and>
    free = max 0 (nd_capacity (np_node p) - Used (nd_store (np_node p))) \<and>
    (\<forall>eng now. eng 0 \<longrightarrow> ev_now e (w_tick w) \<le> now \<longrightarrow> now \<le> ev_now e (w_tick w) + 44 * 10 ^ 9 \<longrightarrow>
       NodeByID eng now (w_db w') (np_id p) =
         Some \<lparr>ni_id = np_id p, ni_address = a, ni_capacity = nd_capacity (np_node p), ni_free = free,
           ni_lastSeen = rfc3339 (ev_now e (w_tick w)), ni_status = ''online''\<rparr>)"
proof -
  let ?n = "np_node p" and ?t = "ev_now e (w_tick w)"
  let ?req = "nodeRegisterRequest (nd_store ?n) (np_id p) (np_publicAddr p) (nd_capacity ?n)"
  let ?free = "max 0 (nd_capacity ?n - Used (nd_store ?n))"
  let ?row = "\<lparr>ni_id = np_id p, ni_address = a, ni_capacity = nd_capacity ?n, ni_free = ?free, ni_lastSeen = rfc3339 ?t, ni_status = ''online''\<rparr>"
  have req: "rr_id ?req = np_id p" "rr_address ?req = np_publicAddr p" "rr_capacity ?req = nd_capacity ?n" "rr_free ?req = ?free"
    by (simp_all add: nodeRegisterRequest_def Let_def max_def)
  let ?tell = "tell e (\<lambda>eng now. RegisterNode eng now (?req\<lparr>rr_address := a\<rparr>)) w"
  have send: "withToken (net (np_transport p)) (nd_token ?n) (register_request ''/nodes/register'' ?req) w =
      (Inr (respond StatusOK (RNode (fst ?tell))), snd ?tell)"
    using served_register [where req = ?req and a = a and nrm = normalizeNodeAddress, OF assms(2)] assms(1,5-7) req
    by (simp add: split_beta)
  then have hb: "heartbeat net p w = (Inr (), snd ?tell)"
    by (simp add: heartbeat_def register_def assms(3,4) Let_def)
  have db: "w_db (snd ?tell) = (w_db w)\<lparr>db_nodes := (if \<exists>n \<in> set (db_nodes (w_db w)). ni_id n = np_id p
      then map (\<lambda>n. if ni_id n = np_id p then ?row else n) (db_nodes (w_db w)) else db_nodes (w_db w) @ [?row])\<rparr>"
    by (simp add: tell_db RegisterNode_def Let_def req assms(8))
  have map_find: "find (\<lambda>n. ni_id n = np_id p) (map (\<lambda>n. if ni_id n = np_id p then ?row else n) ns) = Some ?row"
    if "\<exists>n \<in> set ns. ni_id n = np_id p" for ns
    using that by (induction ns) auto
  have app_find: "find (\<lambda>n. ni_id n = np_id p) (ns @ [?row]) = Some ?row" if "\<not> (\<exists>n \<in> set ns. ni_id n = np_id p)" for ns
    using that by (induction ns) auto
  have found: "find (\<lambda>n. ni_id n = np_id p) (db_nodes (w_db (snd ?tell))) = Some ?row"
    unfolding db using map_find [of "db_nodes (w_db w)"] app_find [of "db_nodes (w_db w)"] by auto
  have "withDerivedStatus now ?row = ?row" if "now \<le> ?t + 44 * 10 ^ 9" for now
    using that by (simp add: withDerivedStatus_def rfc3339_def nodeOfflineAfter_def)
  then have "NodeByID eng now (w_db (snd ?tell)) (np_id p) = Some ?row" if "eng 0" "now \<le> ?t + 44 * 10 ^ 9" for eng now
    using that found by (simp add: NodeByID_def)
  then show ?thesis using hb assms(9,10) by (intro exI [of _ "snd ?tell"] exI [of _ ?free]) auto
qed


subsection \<open>An example\<close>

definition demo_node_host :: "unit node_host" where
  "demo_node_host =
     \<lparr>nh_getenv = (\<lambda>v. if v = ''BACKUP_AUTH_TOKEN'' then ''t'' else []), nh_readFile = (\<lambda>_. Inl ''no file''),
      nh_unmarshal = (\<lambda>_. Inl ''no json''), nh_certsIn = (\<lambda>_. []), nh_systemPool = Inr [], nh_upper = map ascii_upper,
      nh_parseFloat = demo_float, nh_conv = (\<lambda>_. 0), nh_files = (\<lambda>_. [])\<rparr>"

definition demo_io :: io_env where
  "demo_io = \<lparr>io_ok = (\<lambda>_. True), io_short = 0, io_left = (\<lambda>_. False), io_rand = (\<lambda>_. 0)\<rparr>"

definition demo_process :: "unit node_process" where
  "demo_process =
     \<lparr>np_node = \<lparr>nd_store = \<lparr>st_root = ''storage-node-1'', st_aead = None, st_used = 0, st_files = []\<rparr>,
        nd_capacity = 10737418240, nd_token = ''t''\<rparr>,
      np_id = ''node-1'', np_publicAddr = ''http://localhost:9001'', np_server = ''http://localhost:8080'',
      np_transport = DefaultTransport, np_listen = Inr (PlainHTTP '':9001'')\<rparr>"

lemma demo_node_start: "node_main demo_node_host demo_io demo_io [] = NodeRunning demo_process"
proof -
  have d: "digits 10 = ''10''" by code_simp
  have "parseCapacity (map ascii_upper) demo_float (\<lambda>_. 0) (digits 10 @ [] @ ''GB'') = Inr (int 10 * 1073741824)"
    by (rule parseCapacity_units [where name = "''GB''"])
      (simp_all add: demo_float_def digits_are_digits digits_value_digits capacity_units_def ascii_upper_def Let_def)
  then have c: "parseCapacity (map ascii_upper) demo_float (\<lambda>_. 0) ''10GB'' = Inr 10737418240" by (simp add: d)
  have p: "Parse (\<lambda>_. Inl ''no duration'') (NewFlagSet node_flags) [] = Parsed (NewFlagSet node_flags) []"
    by (simp add: Parse.simps parseOne_def)
  have s: "node_settings r u (NewFlagSet node_flags) = Inr (node_values (NewFlagSet node_flags))" for r u
    by (simp add: node_settings_def flag_string_def NewFlagSet_def node_flags_def)
  have v: "node_values (NewFlagSet node_flags) =
      \<lparr>nc_id = ''node-1'', nc_addr = '':9001'', nc_publicAddr = ''http://localhost:9001'', nc_server = ''http://localhost:8080'',
       nc_storage = ''storage-node-1'', nc_capacity = ''10GB'', nc_wipeStorage = False, nc_authToken = [], nc_storageKey = [],
       nc_certFile = [], nc_keyFile = [], nc_caCertFile = [], nc_insecure = False\<rparr>" by code_simp
  have t: "TrimSpace ''t'' = ''t''" by (rule TrimSpace_visible) (simp_all add: visible_def)
  show ?thesis
    by (simp add: node_main_def p s v start_node_def HTTPClient_def demo_node_host_def c parseStorageKey_def New_def demo_io_def
        scanUsed_def total_size_def Resolve_def t ListenAndServe_def demo_process_def)
qed


definition demo_register_env :: env where
  "demo_register_env = \<lparr>ev_now = (\<lambda>_. 7 * 10 ^ 9), ev_eng = (\<lambda>_ _. True), ev_net = (\<lambda>_. Delivered),
     ev_io = (\<lambda>_. demo_io), ev_client = (\<lambda>_. True)\<rparr>"

theorem heartbeat_keeps_online_witness:
  "\<exists>w'. heartbeat (\<lambda>_. served normalizeNodeAddress demo_handler demo_register_env [] []) demo_process empty_world = (Inr (), w') \<and>
     NodeByID (\<lambda>_. True) (40 * 10 ^ 9) (w_db w') ''node-1'' =
       Some \<lparr>ni_id = ''node-1'', ni_address = ''http://localhost:9001'', ni_capacity = 10737418240, ni_free = 10737418240,
         ni_lastSeen = 7, ni_status = ''online''\<rparr>"
proof -
  have u: "url_Parse (''http://localhost:8080'' @ ''/nodes/register'') =
      Inr \<lparr>pu_scheme = ''http'', pu_user = False, pu_host = ''localhost:8080'', pu_path = ''/nodes/register'',
        pu_rawQuery = [], pu_fragment = []\<rparr>" by code_simp
  have n: "normalizeNodeAddress ''http://localhost:9001'' = Inr ''http://localhost:9001''" by code_simp
  have t: "TrimSpace ''t'' = ''t''" by (rule TrimSpace_visible) (simp_all add: visible_def)
  have "\<exists>w' free. heartbeat (\<lambda>_. served normalizeNodeAddress demo_handler demo_register_env [] []) demo_process empty_world = (Inr (), w') \<and>
      0 \<le> free \<and> free \<le> nd_capacity (np_node demo_process) \<and>
      free = max 0 (nd_capacity (np_node demo_process) - Used (nd_store (np_node demo_process))) \<and>
      (\<forall>eng now. eng 0 \<longrightarrow> ev_now demo_register_env (w_tick empty_world) \<le> now \<longrightarrow>
         now \<le> ev_now demo_register_env (w_tick empty_world) + 44 * 10 ^ 9 \<longrightarrow>
         NodeByID eng now (w_db w') (np_id demo_process) =
           Some \<lparr>ni_id = np_id demo_process, ni_address = ''http://localhost:9001'', ni_capacity = nd_capacity (np_node demo_process),
             ni_free = free, ni_lastSeen = rfc3339 (ev_now demo_register_env (w_tick empty_world)), ni_status = ''online''\<rparr>)"
    by (rule heartbeat_keeps_online [where u = "\<lparr>pu_scheme = ''http'', pu_user = False, pu_host = ''localhost:8080'',
        pu_path = ''/nodes/register'', pu_rawQuery = [], pu_fragment = []\<rparr>", OF refl]) (simp_all add: demo_process_def demo_register_env_def Used_def n t u [simplified])
  then show ?thesis
    by (auto simp: demo_process_def demo_register_env_def Used_def rfc3339_def)
qed

end
