(* ===== verification/Schema.thy ===== *)
theory Schema
  imports Tables Paths
begin

text \<open>
  Opening the database (\<^verbatim>\<open>NewState\<close>, \<^verbatim>\<open>migrate\<close> and \<^verbatim>\<open>ensureColumn\<close> in
  \<^verbatim>\<open>internal/server/state.go\<close>). Here the file is still a set of named tables with whatever columns an
  earlier release gave them; a row has a value for each column of its table. The \<open>engine\<close> says which
  statements run; the statements before a failing one stay executed.
\<close>

datatype sql_value = SText string | SInt int

type_synonym sql_row = "(string \<times> sql_value) list"

record sql_table =
  tb_columns :: "string list"
  tb_rows :: "sql_row list"

type_synonym sql_db = "(string \<times> sql_table) list"

subsection \<open>Statements\<close>

definition create_table :: "string \<Rightarrow> string list \<Rightarrow> sql_db \<Rightarrow> sql_db" where
  "create_table name cols db =
     (if name \<in> fst ` set db then db else db @ [(name, \<lparr>tb_columns = cols, tb_rows = []\<rparr>)])"

definition map_table :: "string \<Rightarrow> (sql_table \<Rightarrow> sql_table) \<Rightarrow> sql_db \<Rightarrow> sql_db" where
  "map_table name f db = map (\<lambda>p. if fst p = name then (name, f (snd p)) else p) db"

text \<open>\<^verbatim>\<open>ALTER TABLE ... ADD COLUMN ... NOT NULL DEFAULT v\<close> on a table that lacks the column\<close>

definition add_column :: "string \<Rightarrow> sql_value \<Rightarrow> sql_table \<Rightarrow> sql_table" where
  "add_column col v t = \<lparr>tb_columns = tb_columns t @ [col], tb_rows = map (\<lambda>r. r @ [(col, v)]) (tb_rows t)\<rparr>"

definition set_column :: "string \<Rightarrow> sql_value \<Rightarrow> sql_row \<Rightarrow> sql_row" where
  "set_column col v r = map (\<lambda>p. if fst p = col then (col, v) else p) r"

text \<open>\<^verbatim>\<open>UPDATE files SET backup_name = name WHERE backup_name = ''\<close>\<close>

definition fill_backup_name :: "sql_row \<Rightarrow> sql_row" where
  "fill_backup_name r =
     (if map_of r ''backup_name'' = Some (SText []) then
        (case map_of r ''name'' of Some v \<Rightarrow> set_column ''backup_name'' v r | None \<Rightarrow> r)
      else r)"

definition schema :: "(string \<times> string list) list" where
  "schema =
     [(''nodes'', [''id'', ''address'', ''capacity'', ''free'', ''last_seen'', ''status'']),
      (''files'', [''id'', ''name'', ''backup_name'', ''version'', ''retention'', ''size'', ''chunk_size'', ''replication'',
         ''dedup_new_bytes'', ''dedup_reused_bytes'', ''created_at'']),
      (''file_chunks'', [''file_id'', ''chunk_index'', ''hash'', ''size'']),
      (''chunk_locations'', [''hash'', ''node_id'', ''size'', ''verified_at''])]"

text \<open>The script: statement \<open>k\<close> onwards, one per table. (The pragmas and the index leave the tables alone.)\<close>

fun create_tables :: "engine \<Rightarrow> nat \<Rightarrow> (string \<times> string list) list \<Rightarrow> sql_db \<Rightarrow> unit result \<times> sql_db" where
  "create_tables eng k [] db = (Inr (), db)"
| "create_tables eng k ((name, cols) # ts) db =
     (if \<not> eng k then (Inl ''create table'', db) else create_tables eng (Suc k) ts (create_table name cols db))"

text \<open>
  \<^verbatim>\<open>ensureColumn\<close>: statement \<open>k\<close> is the query, \<open>k + 1\<close> the scan of its rows, \<open>k + 2\<close> their end: when
  \<^verbatim>\<open>Next\<close> stops early nothing is found, and the \<^verbatim>\<open>ALTER TABLE\<close> (\<open>k + 4\<close>, after \<^verbatim>\<open>Close\<close>, \<open>k + 3\<close>) fails on
  a column that exists.
\<close>

definition ensureColumn :: "engine \<Rightarrow> nat \<Rightarrow> string \<Rightarrow> string \<Rightarrow> sql_value \<Rightarrow> sql_db \<Rightarrow> unit result \<times> sql_db" where
  "ensureColumn eng k tab column v db =
     (let exists = (case map_of db tab of None \<Rightarrow> False | Some t \<Rightarrow> column \<in> set (tb_columns t)) in
      if \<not> eng k then (Inl ''table_info'', db)
      else if \<not> eng (k + 1) then (Inl ''scan'', db)
      else if eng (k + 2) \<and> exists then (Inr (), db)
      else if \<not> eng (k + 3) then (Inl ''close'', db)
      else if \<not> eng (k + 4) \<or> exists \<or> map_of db tab = None then (Inl ''alter table'', db)
      else (Inr (), map_table tab (add_column column v) db))"

definition new_columns :: "(string \<times> sql_value) list" where
  "new_columns =
     [(''replication'', SInt 3), (''backup_name'', SText []), (''version'', SInt 1), (''retention'', SInt 0),
      (''dedup_new_bytes'', SInt 0), (''dedup_reused_bytes'', SInt 0)]"

fun ensure_columns :: "engine \<Rightarrow> nat \<Rightarrow> (string \<times> sql_value) list \<Rightarrow> sql_db \<Rightarrow> unit result \<times> sql_db" where
  "ensure_columns eng k [] db = (Inr (), db)"
| "ensure_columns eng k ((column, v) # cs) db =
     (case ensureColumn eng k ''files'' column v db of
        (Inl err, db) \<Rightarrow> (Inl err, db)
      | (Inr _, db) \<Rightarrow> ensure_columns eng (k + 5) cs db)"

definition migrate :: "engine \<Rightarrow> sql_db \<Rightarrow> unit result \<times> sql_db" where
  "migrate eng db =
     (case create_tables eng 0 schema db of
        (Inl err, db) \<Rightarrow> (Inl err, db)
      | (Inr _, db) \<Rightarrow>
          (case ensure_columns eng 4 new_columns db of
             (Inl err, db) \<Rightarrow> (Inl err, db)
           | (Inr _, db) \<Rightarrow>
               if \<not> eng 34 then (Inl ''update'', db)
               else (Inr (), map_table ''files'' (\<lambda>t. t\<lparr>tb_rows := map fill_backup_name (tb_rows t)\<rparr>) db)))"

text \<open>
  \<^verbatim>\<open>NewState\<close>: \<open>mkdir\<close> is the outcome of \<^verbatim>\<open>MkdirAll\<close> on the directory of the file, \<open>opened\<close> the database
  \<^verbatim>\<open>sql.Open\<close> finds there. When the migration fails the database is closed, as far as it got.
\<close>

definition NewState :: "unit result \<Rightarrow> sql_db result \<Rightarrow> engine \<Rightarrow> string \<Rightarrow> sql_db result" where
  "NewState mkdir opened eng dbPath =
     (case (mkdir, Dir dbPath = ''.'') of
        (Inl err, False) \<Rightarrow> Inl err
      | _ \<Rightarrow>
          (case opened of
             Inl err \<Rightarrow> Inl err
           | Inr db \<Rightarrow>
               (case migrate eng db of
                  (Inl err, _) \<Rightarrow> Inl err
                | (Inr _, db) \<Rightarrow> Inr db)))"

subsection \<open>What a migration does\<close>

text \<open>
  The database an undisturbed migration leaves: the missing tables empty, the missing columns of
  \<^verbatim>\<open>files\<close> behind the others with their defaults, and an empty backup name replaced by the name.
\<close>

definition complete_column :: "string \<times> sql_value \<Rightarrow> sql_table \<Rightarrow> sql_table" where
  "complete_column cv t = (if fst cv \<in> set (tb_columns t) then t else add_column (fst cv) (snd cv) t)"

definition complete_table :: "sql_table \<Rightarrow> sql_table" where
  "complete_table t = fold complete_column new_columns t"

definition add_tables :: "sql_db \<Rightarrow> sql_db" where
  "add_tables db = fold (\<lambda>t. create_table (fst t) (snd t)) schema db"

definition with_names :: "sql_table \<Rightarrow> sql_table" where
  "with_names t = t\<lparr>tb_rows := map fill_backup_name (tb_rows t)\<rparr>"

definition migrated :: "sql_db \<Rightarrow> sql_db" where
  "migrated db = map_table ''files'' (\<lambda>t. with_names (complete_table t)) (add_tables db)"

lemma map_table_comp: "map_table n f (map_table n g db) = map_table n (\<lambda>t. f (g t)) db"
  by (induction db) (simp_all add: map_table_def)

lemma map_table_names [simp]: "fst ` set (map_table n f db) = fst ` set db" "map fst (map_table n f db) = map fst db"
  by (induction db, auto simp: map_table_def)+

lemma map_table_id: "(\<And>t. (n, t) \<in> set db \<Longrightarrow> f t = t) \<Longrightarrow> map_table n f db = db"
  unfolding map_table_def by (rule map_idI) auto

lemma map_of_map_table: "map_of (map_table n f db) m = (if m = n then map_option f (map_of db n) else map_of db m)"
  by (induction db) (auto simp: map_table_def)

text \<open>A fold of steps whose first part is done already.\<close>

lemma fold_resume:
  assumes "\<And>x y s. x \<in> set xs \<Longrightarrow> fin x s \<Longrightarrow> fin x (f y s)" and "\<And>x s. x \<in> set xs \<Longrightarrow> fin x (f x s)"
    and "\<And>x s. x \<in> set xs \<Longrightarrow> fin x s \<Longrightarrow> f x s = s"
  shows "fold f (xs @ ys) (fold f xs s) = fold f (xs @ ys) s"
proof -
  have keep: "fin x s \<Longrightarrow> fin x (fold f zs s)" if "x \<in> set xs" for x zs s
    using that assms(1) by (induction zs arbitrary: s) auto
  have all: "\<forall>x \<in> set zs. fin x (fold f zs s)" if "set zs \<subseteq> set xs" for zs s
    using that
  proof (induction zs arbitrary: s)
    case (Cons z zs)
    then show ?case using keep [of z "f z s" zs] assms(2) by auto
  qed simp
  have still: "(\<forall>x \<in> set zs. fin x s) \<Longrightarrow> fold f zs s = s" if "set zs \<subseteq> set xs" for zs s
    using that by (induction zs) (auto simp: assms(3))
  show ?thesis using still [of xs "fold f xs s"] all [of xs s] by simp
qed

lemma create_table_resume: "fold (\<lambda>t. create_table (fst t) (snd t)) (xs @ ys) (fold (\<lambda>t. create_table (fst t) (snd t)) xs db) =
    fold (\<lambda>t. create_table (fst t) (snd t)) (xs @ ys) db"
  by (rule fold_resume [where fin = "\<lambda>t db. fst t \<in> fst ` set db"]) (auto simp: create_table_def)

lemma complete_resume: "fold complete_column (xs @ ys) (fold complete_column xs t) = fold complete_column (xs @ ys) t"
  by (rule fold_resume [where fin = "\<lambda>c t. fst c \<in> set (tb_columns t)"]) (auto simp: complete_column_def add_column_def)

text \<open>A failed script has created the first tables, a failed round of columns the first columns.\<close>

lemma create_tables_result:
  "create_tables eng k ts db = (r, db') \<Longrightarrow>
     \<exists>xs ys. ts = xs @ ys \<and> db' = fold (\<lambda>t. create_table (fst t) (snd t)) xs db \<and> (r = Inr () \<longrightarrow> ys = [])"
proof (induction eng k ts db rule: create_tables.induct)
  case (2 eng k name cols ts db)
  show ?case
  proof (cases "eng k")
    case True
    with 2 obtain xs ys where "ts = xs @ ys" "db' = fold (\<lambda>t. create_table (fst t) (snd t)) xs (create_table name cols db)"
      "r = Inr () \<longrightarrow> ys = []" by auto
    then show ?thesis by (intro exI [of _ "(name, cols) # xs"] exI [of _ ys]) simp
  next
    case False
    with 2 show ?thesis by (intro exI [of _ "[]"] exI [of _ "(name, cols) # ts"]) auto
  qed
qed auto

lemma ensureColumn_result:
  assumes "distinct (map fst db)" and "ensureColumn eng k tab c v db = (r, db')"
  shows "r = Inr () \<Longrightarrow> db' = map_table tab (complete_column (c, v)) db" "r \<noteq> Inr () \<Longrightarrow> db' = db"
proof -
  have t: "map_of db tab = Some t \<Longrightarrow> (tab, t') \<in> set db \<Longrightarrow> t' = t" for t t'
    using assms(1) by (metis map_of_eq_Some_iff option.inject)
  have skip: "map_table tab (complete_column (c, v)) db = db"
    if "map_of db tab = Some t" "c \<in> set (tb_columns t)" for t
    by (rule map_table_id) (use t that in \<open>auto simp: complete_column_def\<close>)
  have add: "map_table tab (complete_column (c, v)) db = map_table tab (add_column c v) db"
    if "map_of db tab = Some t" "c \<notin> set (tb_columns t)" for t
    unfolding map_table_def
  proof (rule map_cong [OF refl])
    fix p assume "p \<in> set db"
    then have "fst p = tab \<Longrightarrow> snd p = t" using t [OF that(1), of "snd p"] by (cases p) auto
    then show "(if fst p = tab then (tab, complete_column (c, v) (snd p)) else p) =
        (if fst p = tab then (tab, add_column c v (snd p)) else p)"
      using that(2) by (auto simp: complete_column_def)
  qed
  show "r = Inr () \<Longrightarrow> db' = map_table tab (complete_column (c, v)) db" "r \<noteq> Inr () \<Longrightarrow> db' = db"
    using assms(2) skip add by (auto simp: ensureColumn_def Let_def split: if_splits option.splits)
qed

lemma ensure_columns_result:
  "ensure_columns eng k cs db = (r, db') \<Longrightarrow> distinct (map fst db) \<Longrightarrow>
     \<exists>xs ys. cs = xs @ ys \<and> db' = map_table ''files'' (fold complete_column xs) db \<and> (r = Inr () \<longrightarrow> ys = [])"
proof (induction eng k cs db rule: ensure_columns.induct)
  case (1 eng k db)
  then show ?case by (simp add: map_table_id)
next
  case (2 eng k c v cs db)
  obtain r1 db1 where e: "ensureColumn eng k ''files'' c v db = (r1, db1)" by fastforce
  note er = ensureColumn_result [OF "2.prems"(2) e]
  show ?case
  proof (cases r1)
    case (Inl err)
    with "2.prems" e er(2) show ?thesis
      by (intro exI [of _ "[]"] exI [of _ "(c, v) # cs"]) (auto simp: map_table_id)
  next
    case (Inr u)
    with er(1) have db1: "db1 = map_table ''files'' (complete_column (c, v)) db" by simp
    then have "distinct (map fst db1)" using "2.prems"(2) by simp
    with "2.IH" [OF e [symmetric] Inr] "2.prems"(1) e Inr obtain xs ys where
      "cs = xs @ ys" "db' = map_table ''files'' (fold complete_column xs) db1" "r = Inr () \<longrightarrow> ys = []" by auto
    then show ?thesis by (intro exI [of _ "(c, v) # xs"] exI [of _ ys]) (simp add: db1 map_table_comp)
  qed
qed


lemma add_tables_names: "fst ` set (add_tables db) = fst ` set db \<union> fst ` set schema"
proof -
  have "fst ` set (fold (\<lambda>t. create_table (fst t) (snd t)) xs db) = fst ` set db \<union> fst ` set xs" for xs db
    by (induction xs arbitrary: db) (auto simp: create_table_def)
  then show ?thesis by (simp add: add_tables_def)
qed

lemma add_tables_same: "fst ` set schema \<subseteq> fst ` set db \<Longrightarrow> add_tables db = db"
proof -
  have "fst ` set xs \<subseteq> fst ` set db \<Longrightarrow> fold (\<lambda>t. create_table (fst t) (snd t)) xs db = db" for xs
    by (induction xs) (auto simp: create_table_def)
  then show "fst ` set schema \<subseteq> fst ` set db \<Longrightarrow> add_tables db = db" by (simp add: add_tables_def)
qed

lemma distinct_create: "distinct (map fst db) \<Longrightarrow> distinct (map fst (fold (\<lambda>t. create_table (fst t) (snd t)) xs db))"
  by (induction xs arbitrary: db) (auto simp: create_table_def)

lemma fill_idem: "fill_backup_name (fill_backup_name r) = fill_backup_name r"
proof (cases "map_of r ''backup_name'' = Some (SText []) \<and> map_of r ''name'' \<noteq> None")
  case True
  then obtain v where v: "map_of r ''name'' = Some v" by auto
  have set: "map_of (set_column col w r) c = (if c = col then map_option (\<lambda>_. w) (map_of r col) else map_of r c)" for w col c
    by (induction r) (auto simp: set_column_def)
  have twice: "set_column col w (set_column col w r) = set_column col w r" for col w
    by (auto simp: set_column_def)
  from True v have f: "fill_backup_name r = set_column ''backup_name'' v r" by (simp add: fill_backup_name_def)
  show ?thesis unfolding f by (subst fill_backup_name_def) (simp add: set v True twice)
qed (auto simp: fill_backup_name_def split: option.splits)

lemma complete_columns: "set (tb_columns (fold complete_column cs t)) = set (tb_columns t) \<union> fst ` set cs"
  by (induction cs arbitrary: t) (auto simp: complete_column_def add_column_def)

lemma complete_same: "fst ` set cs \<subseteq> set (tb_columns t) \<Longrightarrow> fold complete_column cs t = t"
  by (induction cs) (auto simp: complete_column_def)

lemma migrate_table_idem: "with_names (complete_table (with_names (complete_table t))) = with_names (complete_table t)"
proof -
  have "complete_table (with_names (complete_table t)) = with_names (complete_table t)"
    unfolding complete_table_def by (rule complete_same) (simp add: with_names_def complete_columns)
  then show ?thesis by (simp add: with_names_def fill_idem o_def)
qed

lemma migrated_idem: "migrated (migrated db) = migrated db"
proof -
  have "add_tables (migrated db) = migrated db"
    by (rule add_tables_same) (simp add: migrated_def add_tables_names)
  then show ?thesis by (subst migrated_def) (simp add: migrated_def map_table_comp migrate_table_idem)
qed

lemma migrate_result:
  assumes "migrate eng db = (r, db')" and "distinct (map fst db)"
  shows "migrated db' = migrated db \<and> (r = Inr () \<longrightarrow> db' = migrated db) \<and> distinct (map fst db')"
proof -
  let ?tabs = "\<lambda>xs. fold (\<lambda>t. create_table (fst t) (snd t)) xs db"
  obtain r1 db1 where c: "create_tables eng 0 schema db = (r1, db1)" by fastforce
  from create_tables_result [OF c] obtain xs ys where xs: "schema = xs @ ys" "db1 = ?tabs xs" "r1 = Inr () \<longrightarrow> ys = []" by blast
  have d1: "distinct (map fst db1)" using distinct_create [OF assms(2)] xs(2) by simp
  have m1: "add_tables db1 = add_tables db"
    using create_table_resume [of xs ys db] by (simp add: add_tables_def xs(1,2))
  show ?thesis
  proof (cases r1)
    case (Inl err)
    with assms(1) c have "db' = db1" "r \<noteq> Inr ()" by (auto simp: migrate_def)
    then show ?thesis using m1 d1 by (simp add: migrated_def)
  next
    case (Inr u)
    then have full: "db1 = add_tables db" using xs by (simp add: add_tables_def)
    obtain r2 db2 where e: "ensure_columns eng 4 new_columns db1 = (r2, db2)" by fastforce
    from ensure_columns_result [OF e d1] obtain cs ds where cs: "new_columns = cs @ ds"
      "db2 = map_table ''files'' (fold complete_column cs) db1" "r2 = Inr () \<longrightarrow> ds = []" by blast
    have d2: "distinct (map fst db2)" using d1 cs(2) by simp
    have a2: "add_tables db2 = db2"
      by (rule add_tables_same) (simp add: cs(2) full add_tables_names)
    have m2: "migrated db2 = migrated db"
      unfolding migrated_def a2 unfolding cs(2) full map_table_comp complete_table_def cs(1) complete_resume ..
    have fin: "r2 = Inr () \<Longrightarrow> map_table ''files'' with_names db2 = migrated db"
      using cs unfolding migrated_def full by (simp add: map_table_comp complete_table_def)
    have "db' = db2 \<and> r \<noteq> Inr () \<or> r2 = Inr () \<and> db' = map_table ''files'' with_names db2"
      using assms(1) c Inr e by (auto simp: migrate_def with_names_def [abs_def] split: sum.splits if_splits)
    then show ?thesis
    proof
      assume "db' = db2 \<and> r \<noteq> Inr ()"
      then show ?thesis using m2 d2 by simp
    next
      assume a: "r2 = Inr () \<and> db' = map_table ''files'' with_names db2"
      then have "db' = migrated db" using fin by simp
      moreover have "distinct (map fst db')" using a d2 by simp
      ultimately show ?thesis using migrated_idem by simp
    qed
  qed
qed

lemma create_tables_ok: "(\<And>i. eng i) \<Longrightarrow> fst (create_tables eng k ts db) = Inr ()"
  by (induction eng k ts db rule: create_tables.induct) auto

lemma map_of_names: "n \<in> fst ` set db \<Longrightarrow> map_of db n \<noteq> None"
  by (simp add: map_of_eq_None_iff)

lemma ensure_columns_ok: "''files'' \<in> fst ` set db \<Longrightarrow> fst (ensure_columns (\<lambda>_. True) k cs db) = Inr ()"
proof (induction cs arbitrary: k db)
  case (Cons cv cs)
  obtain c v where cv: "cv = (c, v)" by fastforce
  obtain r1 db1 where e: "ensureColumn (\<lambda>_. True) k ''files'' c v db = (r1, db1)" by fastforce
  with map_of_names [OF Cons.prems] have "r1 = Inr ()" "db1 = db \<or> (\<exists>f. db1 = map_table ''files'' f db)"
    by (auto simp: ensureColumn_def Let_def split: if_splits)
  moreover from this(2) have "fst ` set db1 = fst ` set db" using map_table_names(1) by metis
  ultimately show ?case using Cons e by (simp add: cv)
qed simp

lemma migrate_ok:
  assumes "\<And>i. eng i"
  shows "fst (migrate eng db) = Inr ()"
proof -
  obtain r1 db1 where c: "create_tables eng 0 schema db = (r1, db1)" by fastforce
  with create_tables_ok [of eng 0 schema db] assms have r1: "r1 = Inr ()" by simp
  from create_tables_result [OF c] r1 have "db1 = add_tables db" by (auto simp: add_tables_def)
  then have "''files'' \<in> fst ` set db1" by (simp add: add_tables_names schema_def)
  moreover have "eng = (\<lambda>_. True)" using assms by auto
  ultimately have "fst (ensure_columns eng 4 new_columns db1) = Inr ()" by (simp add: ensure_columns_ok)
  then show ?thesis using assms by (auto simp: migrate_def c r1 split: prod.split sum.split)
qed


subsection \<open>What a migration keeps\<close>

lemma complete_row:
  "\<exists>ext. tb_rows (fold complete_column cs t) = map (\<lambda>r. r @ ext) (tb_rows t) \<and>
     (\<forall>c \<in> fst ` set cs. c \<in> set (tb_columns t) \<or> c \<in> fst ` set ext)"
proof (induction cs arbitrary: t)
  case Nil
  then show ?case by (intro exI [of _ "[]"]) simp
next
  case (Cons c cs)
  from Cons [of "complete_column c t"] obtain ext where
    e: "tb_rows (fold complete_column cs (complete_column c t)) = map (\<lambda>r. r @ ext) (tb_rows (complete_column c t))"
    "\<forall>d \<in> fst ` set cs. d \<in> set (tb_columns (complete_column c t)) \<or> d \<in> fst ` set ext" by blast
  show ?case
  proof (cases "fst c \<in> set (tb_columns t)")
    case True
    then have "complete_column c t = t" by (simp add: complete_column_def)
    with e True show ?thesis by (intro exI [of _ ext]) simp
  next
    case False
    then have "complete_column c t = add_column (fst c) (snd c) t" by (simp add: complete_column_def)
    with e show ?thesis by (intro exI [of _ "c # ext"]) (auto simp: add_column_def)
  qed
qed

lemma fill_keeps: "c \<noteq> ''backup_name'' \<Longrightarrow> map_of (fill_backup_name r) c = map_of r c"
proof -
  assume c: "c \<noteq> ''backup_name''"
  have "map_of (set_column ''backup_name'' v r) c = map_of r c" for v
    using c by (induction r) (auto simp: set_column_def)
  then show ?thesis by (simp add: fill_backup_name_def split: option.split)
qed

lemma add_tables_keep: "map_of db n = Some t \<Longrightarrow> map_of (add_tables db) n = Some t"
proof -
  have "map_of db n = Some t \<Longrightarrow> map_of (fold (\<lambda>t. create_table (fst t) (snd t)) xs db) n = Some t" for xs db
    by (induction xs arbitrary: db) (auto simp: create_table_def)
  then show "map_of db n = Some t \<Longrightarrow> map_of (add_tables db) n = Some t" by (simp add: add_tables_def)
qed

lemma migrated_files:
  assumes "map_of db ''files'' = Some t"
  shows "\<exists>t'. map_of (migrated db) ''files'' = Some t' \<and> set (tb_columns t') = set (tb_columns t) \<union> fst ` set new_columns \<and>
    list_all2 (\<lambda>r r'. \<forall>c v. c \<noteq> ''backup_name'' \<longrightarrow> map_of r c = Some v \<longrightarrow> map_of r' c = Some v) (tb_rows t) (tb_rows t')"
proof -
  obtain ext where e: "tb_rows (complete_table t) = map (\<lambda>r. r @ ext) (tb_rows t)"
    using complete_row [of new_columns t] by (auto simp: complete_table_def)
  have "map_of (fill_backup_name (r @ ext)) c = Some v" if "c \<noteq> ''backup_name''" "map_of r c = Some v" for r c v
    using that by (simp add: fill_keeps map_add_def)
  then have "list_all2 (\<lambda>r r'. \<forall>c v. c \<noteq> ''backup_name'' \<longrightarrow> map_of r c = Some v \<longrightarrow> map_of r' c = Some v)
      (tb_rows t) (tb_rows (with_names (complete_table t)))"
    by (simp add: with_names_def e list_all2_conv_all_nth)
  moreover have "map_of (migrated db) ''files'' = Some (with_names (complete_table t))"
    using add_tables_keep [OF assms] by (simp add: migrated_def map_of_map_table)
  moreover have "set (tb_columns (with_names (complete_table t))) = set (tb_columns t) \<union> fst ` set new_columns"
    by (simp add: with_names_def complete_table_def complete_columns)
  ultimately show ?thesis by blast
qed


text \<open>A database of the first release, whose migration is cut off after two columns.\<close>

definition old_db :: sql_db where
  "old_db = [(''files'', \<lparr>tb_columns = [''id'', ''name'', ''size'', ''chunk_size'', ''created_at''],
     tb_rows = [[(''id'', SText ''f''), (''name'', SText ''disk''), (''size'', SInt 1), (''chunk_size'', SInt 1), (''created_at'', SText [])]]\<rparr>)]"


end
