(* ===== verification/ServerMain.thy ===== *)
theory ServerMain
  imports NodeMain Schema Replicator
begin

text \<open>
  The server process (\<^verbatim>\<open>cmd/backup-server/main.go\<close>): flags, configuration file, and the start-up up to
  the moment it serves. \<open>dur\<close> is \<^verbatim>\<open>time.ParseDuration\<close>.
\<close>

record serverConfig =
  sc_addr :: string
  sc_db :: string
  sc_replicationInterval :: string
  sc_authToken :: string
  sc_maxUploadBytes :: int
  sc_certFile :: string
  sc_keyFile :: string
  sc_caCertFile :: string
  sc_insecure :: bool

text \<open>The variables of \<^verbatim>\<open>main\<close>: those of the configuration, with the interval as a duration.\<close>

record server_values =
  sv_addr :: string
  sv_db :: string
  sv_replicationInterval :: nanos
  sv_authToken :: string
  sv_maxUploadBytes :: int
  sv_certFile :: string
  sv_keyFile :: string
  sv_caCertFile :: string
  sv_insecure :: bool

definition server_flags :: "(string \<times> flag_value) list" where
  "server_flags =
     [(''addr'', VString '':8080''), (''db'', VString ''server-data/backup.db''),
      (''replication-interval'', VDuration (30 * 10 ^ 9)), (''auth-token'', VString []), (''max-upload-bytes'', VInt 0),
      (''cert-file'', VString []), (''key-file'', VString []), (''ca-cert-file'', VString []),
      (''insecure-skip-verify'', VBool False), (''config'', VString [])]"

definition server_flag_values :: "FlagSet \<Rightarrow> server_values" where
  "server_flag_values fs =
     \<lparr>sv_addr = flag_string fs ''addr'', sv_db = flag_string fs ''db'',
      sv_replicationInterval = flag_duration fs ''replication-interval'', sv_authToken = flag_string fs ''auth-token'',
      sv_maxUploadBytes = flag_int fs ''max-upload-bytes'', sv_certFile = flag_string fs ''cert-file'',
      sv_keyFile = flag_string fs ''key-file'', sv_caCertFile = flag_string fs ''ca-cert-file'',
      sv_insecure = flag_bool fs ''insecure-skip-verify''\<rparr>"

text \<open>The assignments of \<^verbatim>\<open>main\<close>, in its order; an interval that cannot be parsed is fatal.\<close>

definition override_serverConfig ::
  "(string \<Rightarrow> int result) \<Rightarrow> (string \<Rightarrow> bool) \<Rightarrow> serverConfig \<Rightarrow> server_values \<Rightarrow> server_values result" where
  "override_serverConfig dur overrides cfg v =
     (let v = assign (sc_addr cfg \<noteq> [] \<and> \<not> overrides ''addr'') (sv_addr_update (\<lambda>_. sc_addr cfg)) v;
          v = assign (sc_db cfg \<noteq> [] \<and> \<not> overrides ''db'') (sv_db_update (\<lambda>_. sc_db cfg)) v;
          interval = (if sc_replicationInterval cfg \<noteq> [] \<and> \<not> overrides ''replication-interval''
            then dur (sc_replicationInterval cfg) else Inr (sv_replicationInterval v))
      in case interval of
           Inl err \<Rightarrow> Inl (''invalid replication_interval: '' @ err)
         | Inr parsed \<Rightarrow>
             (let v = v\<lparr>sv_replicationInterval := parsed\<rparr>;
                  v = assign (sc_authToken cfg \<noteq> [] \<and> \<not> overrides ''auth-token'') (sv_authToken_update (\<lambda>_. sc_authToken cfg)) v;
                  v = assign (sc_maxUploadBytes cfg \<noteq> 0 \<and> \<not> overrides ''max-upload-bytes'') (sv_maxUploadBytes_update (\<lambda>_. sc_maxUploadBytes cfg)) v;
                  v = assign (sc_certFile cfg \<noteq> [] \<and> \<not> overrides ''cert-file'') (sv_certFile_update (\<lambda>_. sc_certFile cfg)) v;
                  v = assign (sc_keyFile cfg \<noteq> [] \<and> \<not> overrides ''key-file'') (sv_keyFile_update (\<lambda>_. sc_keyFile cfg)) v;
                  v = assign (sc_caCertFile cfg \<noteq> [] \<and> \<not> overrides ''ca-cert-file'') (sv_caCertFile_update (\<lambda>_. sc_caCertFile cfg)) v;
                  v = assign (sc_insecure cfg \<and> \<not> overrides ''insecure-skip-verify'') (sv_insecure_update (\<lambda>_. sc_insecure cfg)) v
              in Inr v))"

definition readServerConfig :: "(string \<Rightarrow> bytes result) \<Rightarrow> (bytes \<Rightarrow> serverConfig result) \<Rightarrow> string \<Rightarrow> serverConfig result" where
  "readServerConfig readFile unmarshal path =
     (case readFile path of Inl err \<Rightarrow> Inl err | Inr data \<Rightarrow> unmarshal data)"

definition server_settings ::
  "(string \<Rightarrow> int result) \<Rightarrow> (string \<Rightarrow> bytes result) \<Rightarrow> (bytes \<Rightarrow> serverConfig result) \<Rightarrow> FlagSet \<Rightarrow> server_values result" where
  "server_settings dur readFile unmarshal fs =
     (if flag_string fs ''config'' \<noteq> [] then
        (case readServerConfig readFile unmarshal (flag_string fs ''config'') of
           Inl err \<Rightarrow> Inl err
         | Inr cfg \<Rightarrow> override_serverConfig dur (visitedFlags fs) cfg (server_flag_values fs))
      else Inr (server_flag_values fs))"

subsection \<open>Start\<close>

record 'cert server_host =
  sh_getenv :: "string \<Rightarrow> string"
  sh_readFile :: "string \<Rightarrow> bytes result"
  sh_unmarshal :: "bytes \<Rightarrow> serverConfig result"
  sh_certsIn :: "bytes \<Rightarrow> 'cert list"
  sh_systemPool :: "'cert list result"
  sh_duration :: "string \<Rightarrow> int result"
  sh_mkdir :: "string \<Rightarrow> unit result"
  sh_openDb :: "string \<Rightarrow> sql_db result"

text \<open>
  A server that runs: the handler of its routes, the transport and the token of its client to the nodes
  (\<^verbatim>\<open>SetNodeHTTPClient\<close>, \<^verbatim>\<open>auth.Client\<close>), the database, the interval of the scheduler and the listener.
\<close>

record 'cert server_process =
  sp_handler :: Handler
  sp_nodeTransport :: "'cert transport"
  sp_nodeToken :: string
  sp_db :: sql_db
  sp_interval :: nanos
  sp_listen :: "listener result"

datatype 'cert server_start = ServerExit int | ServerFatal string | ServerRunning "'cert server_process"

definition start_server :: "'cert server_host \<Rightarrow> engine \<Rightarrow> server_values \<Rightarrow> 'cert server_start" where
  "start_server ho eng v =
     (let token = Resolve (sv_authToken v) (sh_getenv ho ''BACKUP_AUTH_TOKEN'') in
      if token = [] then ServerFatal ''auth token is required''
      else
        (case HTTPClient (sh_readFile ho) (sh_certsIn ho) (sh_systemPool ho)
             \<lparr>ct_caCertFile = sv_caCertFile v, ct_insecure = sv_insecure v\<rparr> of
           Inl err \<Rightarrow> ServerFatal err
         | Inr nodeClient \<Rightarrow>
             (case NewState (sh_mkdir ho (Dir (sv_db v))) (sh_openDb ho (sv_db v)) eng (sv_db v) of
                Inl err \<Rightarrow> ServerFatal err
              | Inr db \<Rightarrow>
                  ServerRunning
                    \<lparr>sp_handler = \<lparr>hd_token = token, hd_maxUploadBytes = sv_maxUploadBytes v\<rparr>,
                     sp_nodeTransport = nodeClient, sp_nodeToken = token, sp_db = db,
                     sp_interval = schedulerInterval (sv_replicationInterval v),
                     sp_listen = ListenAndServe (sv_addr v) \<lparr>st_certFile = sv_certFile v, st_keyFile = sv_keyFile v\<rparr>\<rparr>)))"

definition server_main :: "'cert server_host \<Rightarrow> engine \<Rightarrow> string list \<Rightarrow> 'cert server_start" where
  "server_main ho eng args =
     (case Parse (sh_duration ho) (NewFlagSet server_flags) args of
        Help \<Rightarrow> ServerExit 0
      | Usage _ \<Rightarrow> ServerExit 2
      | Parsed fs _ \<Rightarrow>
          (case server_settings (sh_duration ho) (sh_readFile ho) (sh_unmarshal ho) fs of
             Inl err \<Rightarrow> ServerFatal err
           | Inr v \<Rightarrow> start_server ho eng v))"

subsection \<open>A server that serves is guarded\<close>

lemma NewState_migrated:
  assumes "NewState mkdir (Inr db) eng path = Inr db'" and "distinct (map fst db)"
  shows "db' = migrated db"
  using assms migrate_result by (auto simp: NewState_def split: sum.splits bool.splits prod.splits)

lemma schedulerInterval_pos: "0 < schedulerInterval i"
  by (simp add: schedulerInterval_def)

lemma start_server_running:
  assumes "start_server ho eng v = ServerRunning p"
  shows "hd_token (sp_handler p) = Resolve (sv_authToken v) (sh_getenv ho ''BACKUP_AUTH_TOKEN'')" "hd_token (sp_handler p) \<noteq> []"
    "hd_maxUploadBytes (sp_handler p) = sv_maxUploadBytes v" "sp_nodeToken p = hd_token (sp_handler p)"
    "NewState (sh_mkdir ho (Dir (sv_db v))) (sh_openDb ho (sv_db v)) eng (sv_db v) = Inr (sp_db p)"
    "sp_interval p = schedulerInterval (sv_replicationInterval v)"
  using assms by (auto simp: start_server_def Let_def split: if_splits sum.splits)

lemma server_main_running:
  assumes "server_main ho eng args = ServerRunning p"
  obtains fs rest v where "Parse (sh_duration ho) (NewFlagSet server_flags) args = Parsed fs rest"
    "server_settings (sh_duration ho) (sh_readFile ho) (sh_unmarshal ho) fs = Inr v" "start_server ho eng v = ServerRunning p"
  using assms by (auto simp: server_main_def split: parsed.splits sum.splits)

lemma override_serverConfig_limit:
  assumes "override_serverConfig dur ov cfg v = Inr v'"
  shows "sv_maxUploadBytes v' = (if sc_maxUploadBytes cfg \<noteq> 0 \<and> \<not> ov ''max-upload-bytes'' then sc_maxUploadBytes cfg else sv_maxUploadBytes v)"
    "sv_db v' = (if sc_db cfg \<noteq> [] \<and> \<not> ov ''db'' then sc_db cfg else sv_db v)"
  using assms unfolding override_serverConfig_def Let_def
  by (auto simp: assign_other [where g = sv_maxUploadBytes] assign_same [where g = sv_maxUploadBytes and k = "sc_maxUploadBytes cfg"]
      assign_other [where g = sv_db] assign_same [where g = sv_db and k = "sc_db cfg"] split: sum.splits)


definition demo_server_host :: "unit server_host" where
  "demo_server_host =
     \<lparr>sh_getenv = (\<lambda>v. if v = ''BACKUP_AUTH_TOKEN'' then ''t'' else []), sh_readFile = (\<lambda>_. Inl ''no file''),
      sh_unmarshal = (\<lambda>_. Inl ''no json''), sh_certsIn = (\<lambda>_. []), sh_systemPool = Inr [], sh_duration = (\<lambda>_. Inl ''no duration''),
      sh_mkdir = (\<lambda>_. Inr ()), sh_openDb = (\<lambda>_. Inr old_db)\<rparr>"


end
