(* ===== verification/Display.thy ===== *)
theory Display
  imports Decimal Utf8 Rounding ClientConfig
begin

text \<open>
  What \<^verbatim>\<open>backupctl\<close> prints (\<^verbatim>\<open>formatBytes\<close>, the table of \<^verbatim>\<open>listBackups\<close>, the summaries of the commands and
  the progress line of \<^verbatim>\<open>cmd/backupctl/main.go\<close>). \<^verbatim>\<open>fmt\<close> is modelled for the verbs the program uses.
\<close>

subsection \<open>Sizes\<close>

fun scale_units :: "rat \<Rightarrow> string \<Rightarrow> string list \<Rightarrow> rat \<times> string" where
  "scale_units v unit [] = (v, unit)"
| "scale_units v unit (candidate # units) =
     (let v = v / 1024 in if v < 1024 then (v, candidate) else scale_units v candidate units)"

definition formatBytes :: "int \<Rightarrow> string" where
  "formatBytes bytes =
     (if bytes < 1024 then Itoa bytes @ '' B''
      else case scale_units (to_float64 bytes) [] [''KB'', ''MB'', ''GB'', ''TB''] of
        (v, unit) \<Rightarrow> (if v \<ge> 10 then format0 Itoa v @ '' '' @ unit else format1 Itoa v @ '' '' @ unit))"

text \<open>\<^verbatim>\<open>%.1f\<close> of a ratio as a percentage\<close>

definition percent :: "rat \<Rightarrow> string" where
  "percent ratio = format1 Itoa (round64 (ratio * 100))"

subsection \<open>The listing\<close>

text \<open>\<^verbatim>\<open>%-ws\<close>: padded on the right to \<open>w\<close> runes\<close>

definition pad :: "nat \<Rightarrow> string \<Rightarrow> string" where
  "pad w s = s @ replicate (w - length (runes s)) CHR '' ''"

definition list_line :: "string \<Rightarrow> string \<Rightarrow> string \<Rightarrow> string \<Rightarrow> string \<Rightarrow> string \<Rightarrow> string \<Rightarrow> string" where
  "list_line name version fileID sz dedup created file =
     pad 24 name @ '' '' @ pad 8 version @ '' '' @ pad 28 fileID @ '' '' @ pad 12 sz @ '' '' @ pad 10 dedup @ '' '' @
     pad 20 created @ '' '' @ file"

text \<open>The table \<^verbatim>\<open>listBackups\<close> prints. \<open>showTime\<close> is the text of a timestamp.\<close>

definition list_lines :: "(seconds \<Rightarrow> string) \<Rightarrow> FileManifest list \<Rightarrow> string list" where
  "list_lines showTime fs =
     (if fs = [] then [''no backups'']
      else list_line ''BACKUP'' ''VERSION'' ''FILE_ID'' ''SIZE'' ''DEDUP'' ''CREATED_AT'' ''NAME'' #
        map (\<lambda>f. list_line (fm_backupName f) (Itoa (fm_version f)) (fm_id f) (formatBytes (fm_size f))
          (percent (fm_dedupRatio f)) (showTime (fm_createdAt f)) (fm_name f)) fs)"

subsection \<open>Summaries\<close>

text \<open>\<^verbatim>\<open>%v\<close> of a \<^verbatim>\<open>[]string\<close>\<close>

fun spaced :: "string list \<Rightarrow> string" where
  "spaced [] = []"
| "spaced [s] = s"
| "spaced (s # ss) = s @ '' '' @ spaced ss"

definition saved_lines :: "string \<Rightarrow> FileManifest \<Rightarrow> string list" where
  "saved_lines subject m =
     [subject @ '' version='' @ Itoa (fm_version m) @ '' file_id='' @ fm_id m @
      '' chunks='' @ Itoa (int (length (fm_chunks m))) @ '' size='' @ Itoa (fm_size m) @
      '' dedup='' @ percent (fm_dedupRatio m) @ ''% reused='' @ Itoa (fm_dedupReused m) @ '' new='' @ Itoa (fm_dedupNew m)] @
     (if fm_retentionDeleted m \<noteq> [] then [''retention deleted old versions: ['' @ spaced (fm_retentionDeleted m) @ '']'']
      else [])"

definition backup_lines :: "FileManifest \<Rightarrow> string list" where
  "backup_lines m = saved_lines (''backup saved: name='' @ fm_backupName m) m"

definition job_lines :: "backupJob \<Rightarrow> FileManifest \<Rightarrow> string list" where
  "job_lines job m = saved_lines (''backup job saved: job='' @ bj_name job) m"

definition restored_line :: "string \<Rightarrow> string \<Rightarrow> int \<Rightarrow> string" where
  "restored_line fileID outPath n = ''restored: id='' @ fileID @ '' out='' @ outPath @ '' size='' @ Itoa n"

definition restored_job_line :: "string \<Rightarrow> string \<Rightarrow> string" where
  "restored_job_line fileID outPath = ''restored job: id='' @ fileID @ '' out='' @ outPath"

definition usage_lines :: "string list" where
  "usage_lines =
     [''usage:'',
      ''  backupctl backup  -server http://localhost:8080 -file path [-name backup-name] [-retention 5] [-chunk-size 524288] [-replication 3] [-ca-cert-file ca.pem]'',
      ''  backupctl backup-job -config configs/client.json [-job documents] [-ca-cert-file ca.pem]'',
      ''  backupctl list -server http://localhost:8080 [-ca-cert-file ca.pem]'',
      ''  backupctl restore -server http://localhost:8080 -id file-id -out path [-ca-cert-file ca.pem]'',
      ''  backupctl restore-job -server http://localhost:8080 -id file-id -out directory [-ca-cert-file ca.pem]'']"

subsection \<open>Progress\<close>

text \<open>
  A \<^verbatim>\<open>Read\<close> with room for \<open>room\<close> bytes of which the source has \<open>got\<close> ready: some bytes, and how the stream
  ended when it has no more.
\<close>

definition reader_Read :: "nat \<Rightarrow> nat \<Rightarrow> reader \<Rightarrow> (bytes \<times> stream_end option) \<times> reader" where
  "reader_Read room got r =
     (let n = min room got in
      if rd_bytes r = [] then (([], Some (rd_end r)), r)
      else ((take n (rd_bytes r), None), r\<lparr>rd_bytes := drop n (rd_bytes r)\<rparr>))"

record progressReader =
  pr_r :: reader
  pr_total :: int
  pr_read :: int

definition newProgressReader :: "reader \<Rightarrow> int \<Rightarrow> progressReader" where
  "newProgressReader r whole = \<lparr>pr_r = r, pr_total = whole, pr_read = 0\<rparr>"

definition progress_Read :: "nat \<Rightarrow> nat \<Rightarrow> progressReader \<Rightarrow> (bytes \<times> stream_end option) \<times> progressReader" where
  "progress_Read room got p =
     (case reader_Read room got (pr_r p) of
        ((d, err), r) \<Rightarrow>
          (let p = p\<lparr>pr_r := r\<rparr>;
               p = (if length d > 0 then p\<lparr>pr_read := wrap64 (pr_read p + int (length d))\<rparr> else p)
           in ((d, err), p)))"

text \<open>The line the ticker prints, every second and once at the end, on the standard error.\<close>

definition printProgress :: "string \<Rightarrow> int \<Rightarrow> int \<Rightarrow> string" where
  "printProgress label got whole =
     (if whole > 0 then
        (let percent = round64 (round64 (to_float64 got * 100) / to_float64 whole);
             percent = (if percent > 100 then 100 else percent)
         in CHR 0x0D # label @ '': '' @ formatBytes got @ '' / '' @ formatBytes whole @ '' ('' @ format1 Itoa percent @ ''%)'')
      else CHR 0x0D # label @ '': '' @ formatBytes got @ '' sent'')"

text \<open>
  Reading through the counter: a consumer that reads with any sizes, while the source delivers in any
  portions, sees the bytes of the source and its end, and the counter has counted them.
\<close>

fun progress_reads :: "(nat \<times> nat) list \<Rightarrow> progressReader \<Rightarrow> bytes \<times> progressReader" where
  "progress_reads [] p = ([], p)"
| "progress_reads ((room, got) # rs) p =
     (case progress_Read room got p of
        ((d, Some fin), p) \<Rightarrow> (d, p)
      | ((d, None), p) \<Rightarrow> (case progress_reads rs p of (ds, p) \<Rightarrow> (d @ ds, p)))"

lemma progress_reads_spec:
  assumes "progress_reads rs p = (ds, p')" and "0 \<le> pr_read p" and "int64 (pr_read p + int (length (rd_bytes (pr_r p))))"
  shows "ds @ rd_bytes (pr_r p') = rd_bytes (pr_r p) \<and> rd_end (pr_r p') = rd_end (pr_r p) \<and>
    pr_read p' = pr_read p + int (length ds) \<and> pr_total p' = pr_total p"
  using assms
proof (induction rs p arbitrary: ds rule: progress_reads.induct)
  case (2 room got rs p)
  obtain d err q where q: "progress_Read room got p = ((d, err), q)" by (metis surj_pair)
  let ?b = "rd_bytes (pr_r p)"
  have small: "int64 (pr_read p + int (length x))" if "length x \<le> length ?b" for x :: bytes
    using 2(3,4) that by (simp add: int64_def)
  have s: "d @ rd_bytes (pr_r q) = ?b" "rd_end (pr_r q) = rd_end (pr_r p)" "pr_read q = pr_read p + int (length d)"
    "pr_total q = pr_total p"
    using q small [of "take (min room got) ?b"]
    by (auto simp: progress_Read_def reader_Read_def Let_def split: if_splits)
  show ?case
  proof (cases err)
    case None
    obtain es where r: "progress_reads rs q = (es, p')" and ds: "ds = d @ es"
      using 2(2) by (auto simp: q None split: prod.splits)
    have "length ?b = length d + length (rd_bytes (pr_r q))" using s(1) by (metis length_append)
    then have "0 \<le> pr_read q" "int64 (pr_read q + int (length (rd_bytes (pr_r q))))"
      using 2(3,4) s(3) by (simp_all add: add.assoc)
    with 2(1) [OF q [symmetric] refl None r] s show ?thesis by (simp add: ds)
  next
    case (Some fin)
    with 2(2) q s show ?thesis by simp
  qed
qed auto

end
