(* ===== verification/Commands.thy ===== *)
theory Commands
  imports Flags Client Display Address
begin

text \<open>
  The command line of \<^verbatim>\<open>backupctl\<close> (\<^verbatim>\<open>main\<close>, the flag sets of the commands and \<^verbatim>\<open>listBackups\<close> in
  \<^verbatim>\<open>cmd/backupctl/main.go\<close>): from the arguments to the commands of \<^theory_text>\<open>Client\<close> and to what is
  printed on the standard output.
\<close>

subsection \<open>Flags\<close>

definition tls_flags :: "(string \<times> flag_value) list" where
  "tls_flags = [(''ca-cert-file'', VString []), (''insecure-skip-verify'', VBool False), (''auth-token'', VString [])]"

definition addTLSFlags :: "(string \<times> flag_value) list \<Rightarrow> (string \<times> flag_value) list" where
  "addTLSFlags formal = formal @ tls_flags"

definition tls_values :: "FlagSet \<Rightarrow> tlsFlags" where
  "tls_values fs =
     \<lparr>tf_caCertFile = flag_string fs ''ca-cert-file'', tf_insecure = flag_bool fs ''insecure-skip-verify'',
      tf_authToken = flag_string fs ''auth-token''\<rparr>"

definition backup_flags :: "(string \<times> flag_value) list" where
  "backup_flags =
     addTLSFlags [(''server'', VString ''http://localhost:8080''), (''file'', VString []), (''name'', VString []),
       (''retention'', VInt 0), (''chunk-size'', VInt defaultChunkSize_ctl), (''replication'', VInt 3)]"

definition backup_values :: "FlagSet \<Rightarrow> backupFlags" where
  "backup_values fs =
     \<lparr>bf_server = flag_string fs ''server'', bf_filePath = flag_string fs ''file'',
      bf_params = \<lparr>ul_backupName = flag_string fs ''name'', ul_retention = flag_int fs ''retention'',
        ul_chunkSize = flag_int fs ''chunk-size'', ul_replication = flag_int fs ''replication''\<rparr>\<rparr>"

definition job_flags :: "(string \<times> flag_value) list" where
  "job_flags = addTLSFlags [(''config'', VString ''configs/client.json''), (''job'', VString [])]"

definition restore_flags :: "(string \<times> flag_value) list" where
  "restore_flags =
     addTLSFlags [(''server'', VString ''http://localhost:8080''), (''id'', VString []), (''out'', VString [])]"

definition restore_values :: "FlagSet \<Rightarrow> restoreFlags" where
  "restore_values fs =
     \<lparr>rf_server = flag_string fs ''server'', rf_fileID = flag_string fs ''id'', rf_outPath = flag_string fs ''out''\<rparr>"

definition list_flags :: "(string \<times> flag_value) list" where
  "list_flags = addTLSFlags [(''server'', VString ''http://localhost:8080'')]"

subsection \<open>Addresses of the server\<close>

text \<open>
  \<^verbatim>\<open>url.ParseQuery\<close> as \<^verbatim>\<open>URL.Query\<close> uses it: a pair with a semicolon or a broken escape is left out, and so is an
  empty one. A plus is a space.
\<close>

definition QueryUnescape :: "string \<Rightarrow> string result" where
  "QueryUnescape s = unescape EncodeOther (map (\<lambda>c. if c = CHR ''+'' then CHR '' '' else c) s)"

definition query_pair :: "string \<Rightarrow> (string \<times> string) list" where
  "query_pair kv =
     (if CHR '';'' \<in> set kv \<or> kv = [] then []
      else case cut_at CHR ''='' kv of
        (k, v) \<Rightarrow>
          (case (QueryUnescape k, QueryUnescape v) of
             (Inr k, Inr v) \<Rightarrow> [(k, v)]
           | _ \<Rightarrow> []))"

fun split_amp :: "string \<Rightarrow> string list" where
  "split_amp [] = [[]]"
| "split_amp (c # s) =
     (if c = CHR ''&'' then [] # split_amp s
      else case split_amp s of [] \<Rightarrow> [[c]] | p # ps \<Rightarrow> (c # p) # ps)"

definition parseQuery :: "string \<Rightarrow> (string \<times> string) list" where
  "parseQuery raw = concat (map query_pair (split_amp raw))"

text \<open>The URL of a request, as far as the server sees it: the path and the query.\<close>

definition net_url :: "string \<Rightarrow> URL result" where
  "net_url s =
     (case url_Parse s of
        Inl err \<Rightarrow> Inl err
      | Inr u \<Rightarrow> Inr \<lparr>url_path = pu_path u, url_query = parseQuery (pu_rawQuery u)\<rparr>)"

subsection \<open>The listing\<close>

definition listBackups ::
  "libs \<Rightarrow> (server_reply \<Rightarrow> FileManifest list result) \<Rightarrow> (seconds \<Rightarrow> string) \<Rightarrow> (ClientTls \<Rightarrow> 'cert transport result) \<Rightarrow>
   string \<Rightarrow> ('cert transport \<Rightarrow> exchange) \<Rightarrow> tlsFlags \<Rightarrow> string \<Rightarrow> World \<Rightarrow> string list result \<times> World" where
  "listBackups li decodeFiles showTime tls env net tf serverURL w =
     (case configureHTTPClient tls env \<lparr>ct_caCertFile = tf_caCertFile tf, ct_insecure = tf_insecure tf\<rparr> (tf_authToken tf) of
        Inl err \<Rightarrow> (Inl err, w)
      | Inr (client, token) \<Rightarrow>
          (case li_parseURL li (serverURL @ ''/files'') of
             Inl err \<Rightarrow> (Inl err, w)
           | Inr u \<Rightarrow>
               (case withToken (net client) token
                    \<lparr>rq_method = ''GET'', rq_path = url_path u, rq_query = url_query u, rq_authorization = [],
                     rq_body = \<lparr>sb_register = Inl ''EOF'', sb_plan = Inl ''EOF'', sb_confirm = Inl ''EOF'',
                       sb_create = Inl ''EOF'', sb_replication = Inl ''EOF'', sb_parts = (\<lambda>_. Inl ''no body'')\<rparr>\<rparr> w of
                  (Inl err, w) \<Rightarrow> (Inl err, w)
                | (Inr resp, w) \<Rightarrow>
                    if rs_status resp \<ge> 300 then (Inl ''server refused'', w)
                    else (case decodeFiles (rs_body resp) of
                        Inl err \<Rightarrow> (Inl err, w)
                      | Inr fs \<Rightarrow> (Inr (list_lines showTime fs), w)))))"

subsection \<open>The commands\<close>

definition readClientConfig :: "(string \<Rightarrow> bytes result) \<Rightarrow> (bytes \<Rightarrow> clientConfig result) \<Rightarrow> string \<Rightarrow> clientConfig result" where
  "readClientConfig readFile unmarshal path =
     (case readFile path of Inl err \<Rightarrow> Inl err | Inr data \<Rightarrow> unmarshal data)"

record 'cert ctl_host =
  ch_libs :: libs
  ch_decodeFiles :: "server_reply \<Rightarrow> FileManifest list result"
  ch_showTime :: "seconds \<Rightarrow> string"
  ch_tls :: "ClientTls \<Rightarrow> 'cert transport result"
  ch_env :: string
  ch_net :: "'cert transport \<Rightarrow> exchange"
  ch_openFile :: "string \<Rightarrow> reader result"
  ch_create :: "string \<Rightarrow> unit result"
  ch_files :: Host
  ch_readFile :: "string \<Rightarrow> bytes result"
  ch_unmarshal :: "bytes \<Rightarrow> clientConfig result"
  ch_umask :: perm
  ch_cwd :: string

text \<open>
  How the process ends: an exit with a status, a fatal error (of \<^verbatim>\<open>restore\<close> with what it left in the output
  file), or what the command achieved, always with the lines on the standard output.
\<close>

datatype ctl_outcome =
    CtlExit int "string list"
  | CtlFatal string "bytes option"
  | CtlSaved FileManifest "string list"
  | CtlRestored int bytes "string list"
  | CtlExtracted "string list"
  | CtlListing "string list"

definition with_flags :: "(string \<times> flag_value) list \<Rightarrow> string list \<Rightarrow> (FlagSet \<Rightarrow> ctl_outcome \<times> 's) \<Rightarrow> 's \<Rightarrow> ctl_outcome \<times> 's" where
  "with_flags formal args run_command s =
     (case Parse (\<lambda>_. Inl ''no duration'') (NewFlagSet formal) args of
        Help \<Rightarrow> (CtlExit 0 [], s)
      | Usage _ \<Rightarrow> (CtlExit 2 [], s)
      | Parsed fs _ \<Rightarrow> run_command fs)"

definition saved :: "(FileManifest \<Rightarrow> string list) \<Rightarrow> FileManifest result \<Rightarrow> ctl_outcome" where
  "saved out r = (case r of Inl err \<Rightarrow> CtlFatal err None | Inr m \<Rightarrow> CtlSaved m (out m))"

text \<open>The arguments of \<^verbatim>\<open>main\<close> are those after the name of the program.\<close>

definition ctl_main :: "'cert ctl_host \<Rightarrow> string list \<Rightarrow> World \<times> disk \<Rightarrow> ctl_outcome \<times> World \<times> disk" where
  "ctl_main ho args s =
     (case args of
        [] \<Rightarrow> (CtlExit 2 usage_lines, s)
      | command # args \<Rightarrow>
          let (w, d) = s; li = ch_libs ho; tls = ch_tls ho; env = ch_env ho; net = ch_net ho in
          if command = ''backup'' then
            with_flags backup_flags args (\<lambda>fs.
              case backup li tls env net (ch_openFile ho) (tls_values fs) (backup_values fs) w of
                (r, w) \<Rightarrow> (saved backup_lines r, w, d)) s
          else if command = ''backup-job'' then
            with_flags job_flags args (\<lambda>fs.
              let config = readClientConfig (ch_readFile ho) (ch_unmarshal ho) (flag_string fs ''config'');
                  out = (case configuredJob (li_fold li) tls env config (flag_string fs ''job'') (tls_values fs) of
                    Inl _ \<Rightarrow> (\<lambda>_. [])
                  | Inr (_, _, _, job) \<Rightarrow> job_lines job)
              in case backupConfiguredJob li tls env net (ch_files ho) config (flag_string fs ''job'') (tls_values fs) w of
                (r, w) \<Rightarrow> (saved out r, w, d)) s
          else if command = ''list'' then
            with_flags list_flags args (\<lambda>fs.
              case listBackups li (ch_decodeFiles ho) (ch_showTime ho) tls env net (tls_values fs) (flag_string fs ''server'') w of
                (Inl err, w) \<Rightarrow> (CtlFatal err None, w, d)
              | (Inr out, w) \<Rightarrow> (CtlListing out, w, d)) s
          else if command = ''restore'' then
            with_flags restore_flags args (\<lambda>fs.
              case restore li tls env net (ch_create ho) (tls_values fs) (restore_values fs) w of
                ((Inl err, content), w) \<Rightarrow> (CtlFatal err content, w, d)
              | ((Inr n, content), w) \<Rightarrow>
                  (CtlRestored n (case content of None \<Rightarrow> [] | Some bs \<Rightarrow> bs)
                    [restored_line (flag_string fs ''id'') (flag_string fs ''out'') n], w, d)) s
          else if command = ''restore-job'' then
            with_flags restore_flags args (\<lambda>fs.
              case restoreConfiguredJob li tls env net (ch_umask ho) (ch_cwd ho) (tls_values fs) (restore_values fs) d w of
                ((Inl err, d), w) \<Rightarrow> (CtlFatal err None, w, d)
              | ((Inr _, d), w) \<Rightarrow>
                  (CtlExtracted [restored_job_line (flag_string fs ''id'') (flag_string fs ''out'')], w, d)) s
          else (CtlExit 2 usage_lines, s))"

subsection \<open>What the commands do\<close>

text \<open>A usage error, an unknown command or a request for help changes nothing.\<close>

lemma with_flags_exit:
  assumes "with_flags formal args f s = (CtlExit n out, s')" and "\<And>fs. fst (f fs) \<noteq> CtlExit n out"
  shows "s' = s"
  using assms by (auto simp: with_flags_def split: parsed.splits) (metis fst_conv)

lemma saved_not_exit [simp]: "saved out r \<noteq> CtlExit n out'"
  by (simp add: saved_def split: sum.split)

lemma usage_changes_nothing:
  assumes "ctl_main ho args s = (CtlExit n out, s')"
  shows "s' = s"
  using assms
  by (auto simp: ctl_main_def Let_def split_beta split: list.splits if_splits elim!: with_flags_exit split: sum.splits)

text \<open>The checks of \<^verbatim>\<open>backup\<close> are reached with the flags of the command line: a negative retention is refused.\<close>

lemma backup_refuses:
  assumes "Parse (\<lambda>_. Inl ''no duration'') (NewFlagSet backup_flags) args = Parsed fs rest"
    and "flag_int fs ''retention'' < 0 \<or> flag_int fs ''chunk-size'' \<le> 0 \<or> flag_string fs ''file'' = []"
  shows "\<exists>err. ctl_main ho (''backup'' # args) (w, d) = (CtlFatal err None, w, d)"
  using assms(2)
  by (auto simp: ctl_main_def Let_def with_flags_def assms(1) backup_def backupChecks_def backup_values_def saved_def
      split: sum.split)

subsection \<open>From the command line to the bytes\<close>

lemma net_url_bare:
  assumes "normalizeNodeAddress raw = Inr a" and "CHR ''%'' \<notin> set a" and "list_all path_char path" and "HasPrefix path ''/''"
  shows "net_url (a @ path) = Inr \<lparr>url_path = path, url_query = []\<rparr>"
  using address_url [OF assms] by (auto simp: net_url_def parseQuery_def query_pair_def)

text \<open>A flag with its value in the next argument.\<close>

lemma Parse_value:
  assumes "name \<noteq> []" and "hd name \<noteq> CHR ''-''" and "CHR ''='' \<notin> set name"
    and "map_of (fs_formal fs) name = Some old" and "\<not> is_bool old" and "flag_Set dur old v = Some v'"
  shows "Parse dur fs ((CHR ''-'' # name) # v # rest) = Parse dur (put_flag name v' fs) rest"
proof -
  obtain c cs where n: "name = c # cs" using assms(1) by (cases name) auto
  have tw: "takeWhile (\<lambda>c. c \<noteq> CHR ''='') cs = cs" using assms(3) by (auto simp: n takeWhile_eq_all_conv)
  have "parseOne dur fs ((CHR ''-'' # name) # v # rest) = Stepped (put_flag name v' fs) rest"
    using assms by (auto simp: n tw parseOne_def Let_def)
  then show ?thesis by (subst Parse.simps) simp
qed

lemma Parse_end: "Parse dur fs [] = Parsed fs []"
  by (simp add: Parse.simps parseOne_def)

lemmas command_flags = backup_flags_def restore_flags_def addTLSFlags_def tls_flags_def NewFlagSet_def defaultChunkSize_ctl_def

text \<open>The flags a command line of \<^verbatim>\<open>restore\<close> sets, whatever the values are.\<close>

lemma Parse_restore:
  obtains fs where
    "Parse dur (NewFlagSet restore_flags)
       [''-server'', url, ''-id'', fid, ''-out'', out, ''-auth-token'', tok, ''-ca-cert-file'', ca] = Parsed fs []"
    "restore_values fs = \<lparr>rf_server = url, rf_fileID = fid, rf_outPath = out\<rparr>"
    "tls_values fs = \<lparr>tf_caCertFile = ca, tf_insecure = False, tf_authToken = tok\<rparr>"
    "flag_string fs ''id'' = fid" "flag_string fs ''out'' = out"
proof -
  let ?fs = "put_flag ''ca-cert-file'' (VString ca) (put_flag ''auth-token'' (VString tok) (put_flag ''out'' (VString out)
     (put_flag ''id'' (VString fid) (put_flag ''server'' (VString url) (NewFlagSet restore_flags)))))"
  have "Parse dur (NewFlagSet restore_flags)
       [''-server'', url, ''-id'', fid, ''-out'', out, ''-auth-token'', tok, ''-ca-cert-file'', ca] = Parsed ?fs []"
    by (simp add: Parse_value flag_Set_def is_bool_def map_of_put command_flags Parse_end)
  moreover have "restore_values ?fs = \<lparr>rf_server = url, rf_fileID = fid, rf_outPath = out\<rparr>"
    "tls_values ?fs = \<lparr>tf_caCertFile = ca, tf_insecure = False, tf_authToken = tok\<rparr>"
    "flag_string ?fs ''id'' = fid" "flag_string ?fs ''out'' = out"
    by (simp_all add: restore_values_def tls_values_def flag_string_def flag_bool_def put_flag_def command_flags)
  ultimately show ?thesis by (rule that)
qed



definition demo_ctl_host :: "nat ctl_host" where
  "demo_ctl_host =
     \<lparr>ch_libs = demo_libs\<lparr>li_parseURL := net_url\<rparr>, ch_decodeFiles = (\<lambda>_. Inl ''not asked''), ch_showTime = (\<lambda>_. []),
      ch_tls = demo_tls, ch_env = [], ch_net = (\<lambda>_. served Inr demo_handler demo_env ''20260101'' ''u''),
      ch_openFile = (\<lambda>_. Inr demo_reader), ch_create = (\<lambda>_. Inr ()), ch_files = demo_host,
      ch_readFile = (\<lambda>_. Inl ''no file''), ch_unmarshal = (\<lambda>_. Inl ''no configuration''), ch_umask = 0, ch_cwd = ''/''\<rparr>"

definition demo_args :: "string list" where
  "demo_args = [''-server'', ''http://s'', ''-file'', ''/home/disk'', ''-name'', ''docs'', ''-replication'', ''2'', ''-auth-token'', ''t'']"

lemma demo_address: "normalizeNodeAddress ''http://s'' = Inr ''http://s''"
  by code_simp

lemma demo_path: "list_all path_char (''20260101'' @ ''-'' @ ''u'')"
  by (simp add: path_char_def is_ctl_def)


end
