(* ===== verification/Spec2Isabelle.thy ===== *)
theory Spec2Isabelle
  imports Prelude Protocol Hashing Http Auth Aead Chunker Filepath ChunkStore Node Tables NodeMeta
    FileMeta Tasks Network Handlers Backups Replicator Uploads Backing EndToEnd Downloads Progress Replication Convergence System
    Utf8 Glob Paths Decimal TlsConfig ClientConfig Archive Extract Restore JobRoundtrip Client Address Addresses
    Flags NodeConfig NodeMain Schema ServerMain Rounding Display Commands
begin

text \<open>
  Prosiak is a distributed backup system in Go. A client (\<^verbatim>\<open>cmd/backupctl\<close>) sends a file, or a tar stream of
  the directories of a job, to one server (\<^verbatim>\<open>cmd/backup-server\<close>, \<^verbatim>\<open>internal/server\<close>). The server cuts the
  stream into chunks at content-defined positions, names each chunk by its SHA-256, places the wanted number of
  copies on storage nodes (\<^verbatim>\<open>cmd/backup-node\<close>, \<^verbatim>\<open>internal/chunkstore\<close>) over HTTP, and keeps the manifests and the
  locations of the copies in SQLite. A scheduler in the server re-replicates, prunes and removes orphans. All parts
  share a bearer token (\<^verbatim>\<open>internal/auth\<close>). This library models all twelve implementation files and proves
  what makes the parts, and the parts together, correct.

  \<^bold>\<open>How the code is modelled.\<close> A struct is a record, a tagged alternative a datatype, an \<^verbatim>\<open>int64\<close> an \<open>int\<close> with
  \<open>wrap64\<close> where the code can overflow and a 64-bit word where it works on bits, a string a list of bytes. A
  function that can fail returns \<open>string + 'a\<close>, and every early return is a branch. State is passed explicitly:
  the files below a store (\<open>Store\<close>), the tables (\<open>Db\<close>), and the world of the server (\<open>World\<close>: tables,
  nodes by address, a tick). Whatever can go wrong outside of the program is an argument: \<open>io_env\<close> says which system
  call fails, \<open>engine\<close> which SQL statement, \<open>env\<close> for every tick what the clock shows and whether a request,
  an answer or a body is lost. So every theorem about an operation covers all its error paths. Concurrency
  is interleaving: \<open>sys_step\<close> of \<^theory_text>\<open>System\<close> is one request, one turn of an upload loop or one scheduler
  round, and \<open>run\<close> any sequence of them, with panics, outages and calls to the nodes from outside.

  \<^bold>\<open>The theories.\<close>

  \<^item> \<^theory_text>\<open>Prelude\<close>, \<^theory_text>\<open>Decimal\<close>, \<^theory_text>\<open>Utf8\<close>, \<^theory_text>\<open>Filepath\<close>, \<^theory_text>\<open>Paths\<close>, \<^theory_text>\<open>Rounding\<close>, \<^theory_text>\<open>Flags\<close>: the parts of Go's standard library the
    program calls (\<^verbatim>\<open>strings\<close>, \<^verbatim>\<open>strconv\<close>, \<^verbatim>\<open>unicode/utf8\<close>, \<^verbatim>\<open>path/filepath\<close>, \<^verbatim>\<open>float64\<close> arithmetic, \<^verbatim>\<open>flag\<close>), stable
    sorting by a comparison (locale \<open>less_order\<close>, interpreted for every order of the program), and the collections of
    rewrite rules.
  \<^item> \<^theory_text>\<open>Hashing\<close>, \<^theory_text>\<open>Aead\<close>, \<^theory_text>\<open>ChunkStore\<close>: SHA-256 computed on words, the interface of an authenticated cipher (locale
    \<open>aead_laws\<close>) with a concrete instance, and \<^verbatim>\<open>internal/chunkstore/store.go\<close>: \<open>Put\<close>, \<open>Open\<close>, \<open>Delete\<close>, \<open>Clear\<close>, the
    usage counter. The locale \<open>content_store\<close> is what a store promises, and the store on disk refines a map.
  \<^item> \<^theory_text>\<open>Protocol\<close>, \<^theory_text>\<open>Http\<close>, \<^theory_text>\<open>Auth\<close>, \<^theory_text>\<open>TlsConfig\<close>: the exchanged structs, requests and responses, the token middleware
    and transport, which listener and transport a process gets.
  \<^item> \<^theory_text>\<open>Node\<close>, \<^theory_text>\<open>NodeConfig\<close>, \<^theory_text>\<open>NodeMain\<close>: the handlers and routes of a node, its settings (flags, file, key in base 64,
    capacity with a unit), its start-up and its heartbeat (\<^verbatim>\<open>cmd/backup-node/main.go\<close>).
  \<^item> \<^theory_text>\<open>Tables\<close>, \<^theory_text>\<open>Schema\<close>, \<^theory_text>\<open>NodeMeta\<close>, \<^theory_text>\<open>FileMeta\<close>, \<^theory_text>\<open>Tasks\<close>: \<^verbatim>\<open>internal/server/state.go\<close>, in this order the rows and the
    well-formedness of the tables, the migration, nodes and locations (placement, confirmation, removal), manifests
    (creation, deletion, retention, availability), and the three work lists of the scheduler.
  \<^item> \<^theory_text>\<open>Network\<close>, \<^theory_text>\<open>Handlers\<close>, \<^theory_text>\<open>Chunker\<close>, \<^theory_text>\<open>Backups\<close>, \<^theory_text>\<open>Address\<close>: \<^verbatim>\<open>internal/server/handlers.go\<close>: the requests to the nodes, the API,
    the chunker byte by byte on 64-bit words, backup and download, the routes, and the check of a node's address over
    a model of \<^verbatim>\<open>net/url\<close>. \<^theory_text>\<open>Replicator\<close>: \<^verbatim>\<open>replicator.go\<close>. \<^theory_text>\<open>ServerMain\<close>: \<^verbatim>\<open>cmd/backup-server/main.go\<close>.
  \<^item> \<^theory_text>\<open>Uploads\<close>, \<^theory_text>\<open>Backing\<close>, \<^theory_text>\<open>EndToEnd\<close>, \<^theory_text>\<open>Downloads\<close>, \<^theory_text>\<open>Progress\<close>, \<^theory_text>\<open>Replication\<close>, \<^theory_text>\<open>Convergence\<close>, \<^theory_text>\<open>System\<close>,
    \<^theory_text>\<open>Addresses\<close>: what the server achieves together with its nodes, for one request, for one run of the scheduler and
    along every run.
  \<^item> \<^theory_text>\<open>ClientConfig\<close>, \<^theory_text>\<open>Glob\<close>, \<^theory_text>\<open>Archive\<close>, \<^theory_text>\<open>Extract\<close>, \<^theory_text>\<open>Restore\<close>, \<^theory_text>\<open>JobRoundtrip\<close>, \<^theory_text>\<open>Display\<close>, \<^theory_text>\<open>Client\<close>, \<^theory_text>\<open>Commands\<close>:
    \<^verbatim>\<open>cmd/backupctl/main.go\<close>: jobs and their checks, exclude patterns and the regular expressions made of them, the archive
    writer, extraction on a disk with symbolic links, what is printed, and the five commands up to \<^verbatim>\<open>main\<close>.

  \<^bold>\<open>What the theorems show.\<close> Of the whole system: what was backed up is restored, from the command line to the
  bytes, for a single file and for a job, and a backup succeeds when it can; the scheduler brings the copies of every chunk
  to the number its manifests ask for; recorded copies are really there along
  every run without lost answers; tables stay well formed, no node serves bytes under a wrong name and no address turns
  the server into a proxy, along every run at all. Of the parts: the integrity and the refinement of the store,
  atomicity of a saved manifest, retention and deletion, optimal placement, exact work lists, termination, bounds and
  locality of chunking, the resumable migration, confinement of extraction, the meaning of exclude patterns, the order of
  precedence of settings, and that neither process serves without a token. Each numbered property stands after a
  text that states it, with a witness on concrete values where it has hypotheses.

  \<^bold>\<open>Bounds.\<close> Loops over lists and streams are structural or have a measure, so no fuel limits them; the one exception
  is the following of symbolic links, which ends after 40 as the kernel's does. Times are nanoseconds and whole seconds.
  Numbers that the code adds up (sizes, counters) wrap at 64 bits where a caller can make them large; \<open>float64\<close> results
  are rounded to 53 bits.

  \<^bold>\<open>Parameters.\<close> Code that is not in the repository is an argument with its documented behaviour as hypotheses:
  AES-GCM (its laws hold for a concrete instance in \<^theory_text>\<open>Aead\<close>), \<^verbatim>\<open>encoding/json\<close> and \<^verbatim>\<open>mime/multipart\<close>, the byte format of
  \<^verbatim>\<open>archive/tar\<close>, case tables of Unicode, \<^verbatim>\<open>strconv.ParseFloat\<close>, \<^verbatim>\<open>time.ParseDuration\<close>, \<^verbatim>\<open>crypto/x509\<close>, and SQLite's execution of
  a statement, whose effect is modelled on the tables.

  \<^bold>\<open>Not modelled.\<close> Log lines and the version text; the goroutines that only repeat a modelled step (the tickers of the
  scheduler, of the heartbeat and of the progress line); response headers other than the token's; pragmas and
  indices of the database; the encoding of JSON; accepting connections, TLS itself and timeouts beyond a request that
  fails; permission checks and full disks during extraction; the dashboard (JavaScript and HTML).
\<close>

end
